(* ===== verification/Numbers.thy ===== *)
theory Numbers
  imports Prelude
begin

section \<open>Numbers as text: Rust's integer parsing and formatting\<close>

text \<open>
  \<open>parse_radix b w\<close> is \<open>from_str_radix(s, b)\<close> of an unsigned type of \<open>w\<close> bits: an optional
  \<open>+\<close>, at least one digit, only digits, and a value below \<open>2 ^ w\<close>. \<open>show_base b\<close> is the
  \<open>{}\<close> (base 10) or \<open>{:x}\<close> (base 16) format, \<open>pad_left k\<close> the \<open>{:0k}\<close> width. The round trip
  \<open>parse_radix_show_base\<close> is what the printing components rest on.
\<close>

definition digit_of :: "nat \<Rightarrow> char \<Rightarrow> nat option" where
  "digit_of b c =
     (let k = of_char c in
      let d = (if 48 \<le> k \<and> k \<le> 57 then Some (k - 48)
               else if 97 \<le> k \<and> k \<le> 122 then Some (k - 87)
               else if 65 \<le> k \<and> k \<le> 90 then Some (k - 55) else None)
      in case d of None \<Rightarrow> None | Some v \<Rightarrow> if v < b then Some v else None)"

fun digits_acc :: "nat \<Rightarrow> nat \<Rightarrow> string \<Rightarrow> nat option" where
  "digits_acc b acc [] = Some acc"
| "digits_acc b acc (c # cs) =
     (case digit_of b c of None \<Rightarrow> None | Some d \<Rightarrow> digits_acc b (acc * b + d) cs)"

definition parse_radix :: "nat \<Rightarrow> nat \<Rightarrow> string \<Rightarrow> nat option" where
  "parse_radix b w s =
     (let ds = (case s of [] \<Rightarrow> [] | c # cs \<Rightarrow> if c = CHR ''+'' then cs else s) in
      if ds = [] then None
      else case digits_acc b 0 ds of None \<Rightarrow> None | Some v \<Rightarrow> if v < 2 ^ w then Some v else None)"

abbreviation parse_u32 :: "string \<Rightarrow> nat option" where
  "parse_u32 \<equiv> parse_radix 10 32"

abbreviation parse_u64 :: "string \<Rightarrow> nat option" where
  "parse_u64 \<equiv> parse_radix 10 64"

text \<open>\<open>usize\<close> on the 64-bit targets the crates are built for.\<close>

abbreviation parse_usize :: "string \<Rightarrow> nat option" where
  "parse_usize \<equiv> parse_radix 10 64"

definition usize_max :: nat where
  "usize_max = 2 ^ 64 - 1"

definition digit_char :: "nat \<Rightarrow> char" where
  "digit_char d = (if d < 10 then char_of (48 + d) else char_of (87 + d))"

fun show_base_fuel :: "nat \<Rightarrow> nat \<Rightarrow> nat \<Rightarrow> string" where
  "show_base_fuel 0 b n = []"
| "show_base_fuel (Suc f) b n =
     (if n < b then [digit_char n] else show_base_fuel f b (n div b) @ [digit_char (n mod b)])"

text \<open>A number has at most as many digits as its value plus one, in any base from 2 on.\<close>

definition show_base :: "nat \<Rightarrow> nat \<Rightarrow> string" where
  "show_base b n = show_base_fuel (Suc n) b n"

abbreviation show_nat :: "nat \<Rightarrow> string" where
  "show_nat \<equiv> show_base 10"

abbreviation show_hex :: "nat \<Rightarrow> string" where
  "show_hex \<equiv> show_base 16"

definition pad_left :: "nat \<Rightarrow> string \<Rightarrow> string" where
  "pad_left k s = replicate (k - length s) CHR ''0'' @ s"

subsection \<open>The fuel is enough\<close>

lemma show_base_fuel_enough:
  assumes "1 < b" and "n < f" and "n < g"
  shows "show_base_fuel f b n = show_base_fuel g b n"
  using assms
proof (induction f arbitrary: n g)
  case (Suc f)
  then obtain g' where g: "g = Suc g'" by (cases g) auto
  show ?case
  proof (cases "n < b")
    case False
    then have "n div b < n" using Suc.prems(1) by (intro div_less_dividend) auto
    with Suc.prems g have "n div b < f" "n div b < g'" by auto
    with Suc.prems(1) have "show_base_fuel f b (n div b) = show_base_fuel g' b (n div b)"
      by (intro Suc.IH)
    with False g show ?thesis by simp
  qed (simp add: g)
qed simp

lemma show_base_rec:
  assumes "1 < b"
  shows "show_base b n =
    (if n < b then [digit_char n] else show_base b (n div b) @ [digit_char (n mod b)])"
proof (cases "n < b")
  case False
  then have "n div b < n" using assms by (intro div_less_dividend) auto
  with assms have "show_base_fuel n b (n div b) = show_base_fuel (Suc (n div b)) b (n div b)"
    by (intro show_base_fuel_enough) auto
  with False show ?thesis by (simp add: show_base_def)
qed (simp add: show_base_def)

lemma show_base_nonempty [simp]: "1 < b \<Longrightarrow> show_base b n \<noteq> []"
  by (subst show_base_rec) auto

subsection \<open>Digits\<close>

lemma of_char_digit_char:
  assumes "d < 16"
  shows "(of_char (digit_char d) :: nat) = (if d < 10 then 48 + d else 87 + d)"
proof -
  have "(48 + d) mod 256 = 48 + d" "(87 + d) mod 256 = 87 + d"
    using assms by (auto intro!: mod_less)
  then show ?thesis by (simp only: digit_char_def of_char_of if_distrib [of of_char])
qed

lemma digit_of_digit_char [simp]: "d < b \<Longrightarrow> b \<le> 16 \<Longrightarrow> digit_of b (digit_char d) = Some d"
  by (auto simp: digit_of_def of_char_digit_char Let_def)

lemma digit_of_bound: "digit_of b c = Some d \<Longrightarrow> d < b"
  by (auto simp: digit_of_def Let_def split: option.splits if_splits)

definition is_digit :: "char \<Rightarrow> bool" where
  "is_digit c \<longleftrightarrow> (48::nat) \<le> of_char c \<and> of_char c \<le> (57::nat)"

definition is_hex_digit :: "char \<Rightarrow> bool" where
  "is_hex_digit c \<longleftrightarrow> is_digit c \<or> ((97::nat) \<le> of_char c \<and> of_char c \<le> (102::nat))"

lemma digit_char_is_digit: "d < 10 \<Longrightarrow> is_digit (digit_char d)"
  by (simp add: is_digit_def of_char_digit_char)

lemma digit_char_is_hex_digit: "d < 16 \<Longrightarrow> is_hex_digit (digit_char d)"
  by (simp add: is_hex_digit_def is_digit_def of_char_digit_char)

lemma show_base_set:
  assumes "1 < b" and "\<And>d. d < b \<Longrightarrow> P (digit_char d)"
  shows "c \<in> set (show_base b n) \<Longrightarrow> P c"
proof (induction n arbitrary: c rule: less_induct)
  case (less n)
  show ?case
  proof (cases "n < b")
    case True
    with less.prems assms show ?thesis by (subst (asm) show_base_rec) auto
  next
    case False
    then have "n div b < n" using assms(1) by (intro div_less_dividend) auto
    moreover from less.prems False have "c \<in> set (show_base b (n div b)) \<or> c = digit_char (n mod b)"
      using assms(1) by (subst (asm) show_base_rec) auto
    ultimately show ?thesis using less.IH assms by auto
  qed
qed

lemma show_nat_digits: "c \<in> set (show_nat n) \<Longrightarrow> is_digit c"
  by (rule show_base_set [of 10 is_digit]) (auto simp: digit_char_is_digit)

lemma show_hex_digits: "c \<in> set (show_hex n) \<Longrightarrow> is_hex_digit c"
  by (rule show_base_set [of 16 is_hex_digit]) (auto simp: digit_char_is_hex_digit)

lemma is_digit_not_ws: "is_digit c \<Longrightarrow> \<not> is_ws c"
  by (auto simp: is_digit_def is_ws_def Let_def)

lemma pad_left_digits:
  "c \<in> set (pad_left k s) \<Longrightarrow> (\<And>c. c \<in> set s \<Longrightarrow> is_digit c) \<Longrightarrow> is_digit c"
  by (auto simp: pad_left_def is_digit_def split: if_splits)

lemma pad_left_nonempty: "s \<noteq> [] \<Longrightarrow> pad_left k s \<noteq> []"
  by (simp add: pad_left_def)

subsection \<open>Parse after show\<close>

lemma digits_acc_append:
  "digits_acc b acc (s @ t) =
     (case digits_acc b acc s of None \<Rightarrow> None | Some v \<Rightarrow> digits_acc b v t)"
  by (induction s arbitrary: acc) (auto split: option.splits)

lemma digits_acc_show_base:
  assumes "1 < b" and "b \<le> 16"
  shows "digits_acc b 0 (show_base b n) = Some n"
proof (induction n rule: less_induct)
  case (less n)
  show ?case
  proof (cases "n < b")
    case True
    with assms show ?thesis by (subst show_base_rec) auto
  next
    case False
    then have "n div b < n" using assms by (intro div_less_dividend) auto
    then have IH: "digits_acc b 0 (show_base b (n div b)) = Some (n div b)" by (rule less.IH)
    with False assms show ?thesis
      by (subst show_base_rec) (auto simp: digits_acc_append)
  qed
qed

lemma digits_acc_zeros:
  "b \<noteq> 0 \<Longrightarrow> digits_acc b 0 (replicate k CHR ''0'' @ s) = digits_acc b 0 s"
  by (induction k) (auto simp: digit_of_def Let_def)

lemma hex_digit_not_plus: "is_hex_digit c \<Longrightarrow> c \<noteq> CHR ''+''"
  by (auto simp: is_hex_digit_def is_digit_def)

lemma digit_not_plus: "is_digit c \<Longrightarrow> c \<noteq> CHR ''+''"
  by (auto simp: is_digit_def)

lemma parse_radix_digits:
  assumes "s \<noteq> []" and "hd s \<noteq> CHR ''+''" and "digits_acc b 0 s = Some v" and "v < 2 ^ w"
  shows "parse_radix b w s = Some v"
  using assms by (cases s) (auto simp: parse_radix_def)

lemma parse_radix_show_base [roundtrip_simps]:
  assumes "1 < b" and "b \<le> 16" and "n < 2 ^ w"
  shows "parse_radix b w (show_base b n) = Some n"
proof (rule parse_radix_digits [of "show_base b n"])
  have hd: "hd (show_base b n) \<in> set (show_base b n)"
    by (rule hd_in_set) (use assms(1) in simp)
  have "is_hex_digit (hd (show_base b n))"
    by (rule show_base_set [OF assms(1) _ hd]) (use assms(2) in \<open>auto intro: digit_char_is_hex_digit\<close>)
  then show "hd (show_base b n) \<noteq> CHR ''+''" by (rule hex_digit_not_plus)
qed (use assms in \<open>simp_all add: digits_acc_show_base\<close>)

lemma parse_radix_pad_left [roundtrip_simps]:
  assumes "n < 2 ^ w"
  shows "parse_radix 10 w (pad_left k (show_nat n)) = Some n"
proof (rule parse_radix_digits [of "pad_left k (show_nat n)"])
  have "hd (pad_left k (show_nat n)) \<in> set (pad_left k (show_nat n))"
    by (rule hd_in_set) (simp add: pad_left_nonempty)
  then have "is_digit (hd (pad_left k (show_nat n)))"
    by (rule pad_left_digits) (rule show_nat_digits)
  then show "hd (pad_left k (show_nat n)) \<noteq> CHR ''+''"
    by (rule digit_not_plus)
  show "digits_acc 10 0 (pad_left k (show_nat n)) = Some n"
    by (simp add: pad_left_def digits_acc_zeros digits_acc_show_base)
qed (use assms in \<open>simp_all add: pad_left_nonempty\<close>)

lemma parse_radix_bound: "parse_radix b w s = Some n \<Longrightarrow> n < 2 ^ w"
  by (auto simp: parse_radix_def Let_def split: option.splits if_splits)

lemma parse_radix_Nil [simp]: "parse_radix b w [] = None"
  by (simp add: parse_radix_def)

text \<open>The length of a number's representation: \<open>k\<close> digits hold exactly the values below \<open>b ^ k\<close>.\<close>

lemma length_show_base_le:
  assumes "1 < b" and "n < b ^ Suc k"
  shows "length (show_base b n) \<le> Suc k"
  using assms(2)
proof (induction k arbitrary: n)
  case 0
  with assms(1) show ?case by (subst show_base_rec) auto
next
  case (Suc k)
  show ?case
  proof (cases "n < b")
    case True
    with assms(1) show ?thesis by (subst show_base_rec) auto
  next
    case False
    from Suc.prems have "n div b < b ^ Suc k"
      using assms(1) by (simp add: div_less_iff_less_mult mult.commute)
    then have "length (show_base b (n div b)) \<le> Suc k" by (rule Suc.IH)
    with False assms(1) show ?thesis by (subst show_base_rec) auto
  qed
qed

lemma length_pad_left:
  assumes "length s \<le> k" shows "length (pad_left k s) = k"
  using assms by (simp add: pad_left_def)

end
