(* ===== verification/OxiError.thy ===== *)
theory OxiError
  imports Numbers
begin

section \<open>The error type and the protocol version (oxihttp-core error.rs, version.rs)\<close>

text \<open>
  \<open>oxi_error\<close> is the enum \<open>OxiHttpError\<close>; variants that wrap an error of another crate carry
  its display text. A Rust \<open>Result<T, OxiHttpError>\<close> is the sum \<open>oxi_error + 't\<close>.
\<close>

datatype oxi_error =
    InvalidUri string
  | HttpErr string
  | HyperErr string
  | IoErr string
  | BodyErr string
  | TimeoutErr string
  | RedirectErr string
  | TlsErr string
  | DnsErr string
  | ConnectionPool string
  | JsonErr string
  | FormEncoding string
  | InvalidHeader string
  | ServerErr string
  | RouteNotFound string string
  | MethodNotAllowed string string
  | H3Err string

type_synonym 'a oxi_result = "oxi_error + 'a"

fun error_to_string :: "oxi_error \<Rightarrow> string" where
  "error_to_string (InvalidUri e) = ''invalid URI: '' @ e"
| "error_to_string (HttpErr e) = ''HTTP error: '' @ e"
| "error_to_string (HyperErr e) = ''hyper error: '' @ e"
| "error_to_string (IoErr e) = ''I/O error: '' @ e"
| "error_to_string (BodyErr e) = ''body error: '' @ e"
| "error_to_string (TimeoutErr e) = ''timeout: '' @ e"
| "error_to_string (RedirectErr e) = ''redirect error: '' @ e"
| "error_to_string (TlsErr e) = ''TLS error: '' @ e"
| "error_to_string (DnsErr e) = ''DNS error: '' @ e"
| "error_to_string (ConnectionPool e) = ''connection pool error: '' @ e"
| "error_to_string (JsonErr e) = ''JSON error: '' @ e"
| "error_to_string (FormEncoding e) = ''form encoding error: '' @ e"
| "error_to_string (InvalidHeader e) = ''invalid header: '' @ e"
| "error_to_string (ServerErr e) = ''server error: '' @ e"
| "error_to_string (RouteNotFound m p) = ''route not found: '' @ m @ '' '' @ p"
| "error_to_string (MethodNotAllowed m p) = ''method not allowed: '' @ m @ '' '' @ p"
| "error_to_string (H3Err e) = ''HTTP/3 error: '' @ e"

fun status_code :: "oxi_error \<Rightarrow> nat option" where
  "status_code (RouteNotFound m p) = Some 404"
| "status_code (MethodNotAllowed m p) = Some 405"
| "status_code (TimeoutErr e) = Some 408"
| "status_code _ = None"

fun is_timeout :: "oxi_error \<Rightarrow> bool" where
  "is_timeout (TimeoutErr _) = True"
| "is_timeout _ = False"

fun is_connect :: "oxi_error \<Rightarrow> bool" where
  "is_connect (DnsErr _) = True"
| "is_connect (ConnectionPool _) = True"
| "is_connect (TlsErr _) = True"
| "is_connect _ = False"

fun is_body :: "oxi_error \<Rightarrow> bool" where
  "is_body (BodyErr _) = True"
| "is_body _ = False"

fun is_redirect :: "oxi_error \<Rightarrow> bool" where
  "is_redirect (RedirectErr _) = True"
| "is_redirect _ = False"

text \<open>The classes do not overlap, and a status code is never given to a body or connection error.\<close>

lemma error_classes_disjoint:
  "\<not> (is_timeout e \<and> is_connect e)" "\<not> (is_body e \<and> is_redirect e)"
  "\<not> (is_timeout e \<and> is_body e)" "\<not> (is_connect e \<and> is_body e)"
  by (cases e; simp)+

lemma status_code_timeout: "status_code e = Some 408 \<longleftrightarrow> is_timeout e"
  by (cases e) auto

subsection \<open>HttpVersion\<close>

datatype http_version = Http10 | Http11 | H2 | H3

fun version_as_str :: "http_version \<Rightarrow> string" where
  "version_as_str Http10 = ''HTTP/1.0''"
| "version_as_str Http11 = ''HTTP/1.1''"
| "version_as_str H2 = ''HTTP/2''"
| "version_as_str H3 = ''HTTP/3''"

definition is_http1 :: "http_version \<Rightarrow> bool" where
  "is_http1 v \<longleftrightarrow> v = Http10 \<or> v = Http11"

definition is_http2 :: "http_version \<Rightarrow> bool" where
  "is_http2 v \<longleftrightarrow> v = H2"

definition is_http3 :: "http_version \<Rightarrow> bool" where
  "is_http3 v \<longleftrightarrow> v = H3"

definition version_from_str :: "string \<Rightarrow> http_version oxi_result" where
  "version_from_str s =
     (let u = upper s in
      if u = ''HTTP/1.0'' then Inr Http10
      else if u = ''HTTP/1.1'' then Inr Http11
      else if u = ''HTTP/2'' \<or> u = ''H2'' then Inr H2
      else if u = ''HTTP/3'' \<or> u = ''H3'' then Inr H3
      else Inl (InvalidHeader (''unknown HTTP version: '' @ s)))"

text \<open>
  \<open>http::Version\<close> is an open set of constants of the \<open>http\<close> crate: HTTP/0.9 and unknown
  versions are the last constructor here.
\<close>

datatype wire_version = HTTP_10 | HTTP_11 | HTTP_2 | HTTP_3 | HTTP_other nat

fun version_of_wire :: "wire_version \<Rightarrow> http_version" where
  "version_of_wire HTTP_10 = Http10"
| "version_of_wire HTTP_11 = Http11"
| "version_of_wire HTTP_2 = H2"
| "version_of_wire HTTP_3 = H3"
| "version_of_wire (HTTP_other n) = Http11"

fun version_to_wire :: "http_version \<Rightarrow> wire_version" where
  "version_to_wire Http10 = HTTP_10"
| "version_to_wire Http11 = HTTP_11"
| "version_to_wire H2 = HTTP_2"
| "version_to_wire H3 = HTTP_3"

lemma version_wire_roundtrip [roundtrip_simps]: "version_of_wire (version_to_wire v) = v"
  by (cases v) simp_all

lemma version_kind_total: "is_http1 v \<or> is_http2 v \<or> is_http3 v"
  by (cases v) (auto simp: is_http1_def is_http2_def is_http3_def)

lemma upper_char_lower: "upper_char (lower_char c) = upper_char c"
  by (auto simp: upper_char_def lower_char_def Let_def)

lemma upper_lower: "upper (lower s) = upper s"
  by (simp add: upper_def lower_def upper_char_lower)

text \<open>The printed form of a version parses back to it, in any mixture of letter cases.\<close>

lemma version_from_str_fold:
  assumes "lower s = lower (version_as_str v)"
  shows "version_from_str s = Inr v"
proof -
  have "upper s = upper (version_as_str v)" using assms upper_lower by metis
  then show ?thesis
    by (cases v) (simp_all add: version_from_str_def upper_def upper_char_def Let_def)
qed

end
