(* ===== verification/StateResult.thy ===== *)
theory StateResult
  imports OxiError
begin

section \<open>Fallible operations on a state\<close>

text \<open>
  A Rust method \<open>fn f(&mut self, ..) -> Result<T, E>\<close> is a function from the state to a
  result and the new state. \<open>sbind m f\<close> is \<open>let x = m?; f(x)\<close>: the error returns early with
  the state reached so far. \<open>map_err\<close> is \<open>Result::map_err\<close>. \<open>preserves g m\<close> says that \<open>m\<close>
  leaves the observation \<open>g\<close> of the state alone, whatever it returns.
\<close>

type_synonym ('s, 'e, 'a) sresult = "'s \<Rightarrow> ('e + 'a) \<times> 's"

definition sreturn :: "'a \<Rightarrow> ('s, 'e, 'a) sresult" where
  "sreturn a s = (Inr a, s)"

definition sthrow :: "'e \<Rightarrow> ('s, 'e, 'a) sresult" where
  "sthrow e s = (Inl e, s)"

definition sbind :: "('s, 'e, 'a) sresult \<Rightarrow> ('a \<Rightarrow> ('s, 'e, 'b) sresult) \<Rightarrow> ('s, 'e, 'b) sresult" where
  "sbind m f s = (case m s of (Inl e, s') \<Rightarrow> (Inl e, s') | (Inr a, s') \<Rightarrow> f a s')"

definition map_err :: "('d \<Rightarrow> 'e) \<Rightarrow> ('s, 'd, 'a) sresult \<Rightarrow> ('s, 'e, 'a) sresult" where
  "map_err g m s = (case m s of (Inl e, s') \<Rightarrow> (Inl (g e), s') | (Inr a, s') \<Rightarrow> (Inr a, s'))"

definition preserves :: "('s \<Rightarrow> 'x) \<Rightarrow> ('s, 'e, 'a) sresult \<Rightarrow> bool" where
  "preserves g m \<longleftrightarrow> (\<forall>s. g (snd (m s)) = g s)"

named_theorems preserves_intros \<open>rules that compose preservation along a program\<close>

lemma sreturn_Inr [simp]: "sreturn a s = (r, s') \<longleftrightarrow> r = Inr a \<and> s' = s"
  by (auto simp: sreturn_def)

lemma sthrow_iff [simp]: "sthrow e s = (r, s') \<longleftrightarrow> r = Inl e \<and> s' = s"
  by (auto simp: sthrow_def)

lemma sbind_Inr:
  "sbind m f s = (Inr b, s') \<longleftrightarrow> (\<exists>a s1. m s = (Inr a, s1) \<and> f a s1 = (Inr b, s'))"
  by (auto simp: sbind_def split: prod.splits sum.splits)

lemma sbind_Inl:
  "sbind m f s = (Inl e, s') \<longleftrightarrow>
     m s = (Inl e, s') \<or> (\<exists>a s1. m s = (Inr a, s1) \<and> f a s1 = (Inl e, s'))"
  by (auto simp: sbind_def split: prod.splits sum.splits)

lemma map_err_Inr [simp]: "map_err g m s = (Inr a, s') \<longleftrightarrow> m s = (Inr a, s')"
  by (auto simp: map_err_def split: prod.splits sum.splits)

lemma map_err_Inl: "map_err g m s = (Inl e, s') \<longleftrightarrow> (\<exists>d. m s = (Inl d, s') \<and> e = g d)"
  by (auto simp: map_err_def split: prod.splits sum.splits)

lemma sbind_run: "m s = (Inr a, s1) \<Longrightarrow> sbind m f s = f a s1"
  by (simp add: sbind_def)

lemma sbind_run_err: "m s = (Inl e, s1) \<Longrightarrow> sbind m f s = (Inl e, s1)"
  by (simp add: sbind_def)

lemma preservesD: "preserves g m \<Longrightarrow> m s = (r, s') \<Longrightarrow> g s' = g s"
  by (auto simp: preserves_def dest: spec [of _ s])

lemma preservesI: "(\<And>s r s'. m s = (r, s') \<Longrightarrow> g s' = g s) \<Longrightarrow> preserves g m"
  by (auto simp: preserves_def) (metis surjective_pairing)

lemma preserves_sreturn [preserves_intros]: "preserves g (sreturn a)"
  by (simp add: preserves_def sreturn_def)

lemma preserves_sthrow [preserves_intros]: "preserves g (sthrow e)"
  by (simp add: preserves_def sthrow_def)

lemma preserves_sbind [preserves_intros]:
  "preserves g m \<Longrightarrow> (\<And>a. preserves g (f a)) \<Longrightarrow> preserves g (sbind m f)"
  by (auto simp: preserves_def sbind_def split: prod.splits sum.splits)
    (metis snd_conv)+

lemma preserves_map_err [preserves_intros]: "preserves g m \<Longrightarrow> preserves g (map_err h m)"
  by (auto simp: preserves_def map_err_def split: prod.splits sum.splits) (metis snd_conv)+

lemma preserves_if [preserves_intros]:
  "(c \<Longrightarrow> preserves g m) \<Longrightarrow> (\<not> c \<Longrightarrow> preserves g n) \<Longrightarrow> preserves g (if c then m else n)"
  by simp

lemma preserves_option [preserves_intros]:
  "(x = None \<Longrightarrow> preserves g m) \<Longrightarrow> (\<And>a. x = Some a \<Longrightarrow> preserves g (f a)) \<Longrightarrow>
   preserves g (case x of None \<Rightarrow> m | Some a \<Rightarrow> f a)"
  by (cases x) auto

lemma preserves_Let [preserves_intros]: "(\<And>x. preserves g (f x)) \<Longrightarrow> preserves g (Let a f)"
  by simp

text \<open>\<open>keeps P m\<close>: \<open>m\<close> maintains the invariant \<open>P\<close>, on success and on failure alike.\<close>

definition keeps :: "('s \<Rightarrow> bool) \<Rightarrow> ('s, 'e, 'a) sresult \<Rightarrow> bool" where
  "keeps P m \<longleftrightarrow> (\<forall>s. P s \<longrightarrow> P (snd (m s)))"

named_theorems keeps_intros \<open>rules that compose invariant preservation along a program\<close>

lemma keepsD: "keeps P m \<Longrightarrow> m s = (r, s') \<Longrightarrow> P s \<Longrightarrow> P s'"
  by (auto simp: keeps_def dest: spec [of _ s])

lemma keepsI: "(\<And>s r s'. m s = (r, s') \<Longrightarrow> P s \<Longrightarrow> P s') \<Longrightarrow> keeps P m"
  by (auto simp: keeps_def) (metis surjective_pairing)

lemma keeps_sreturn [keeps_intros]: "keeps P (sreturn a)"
  by (simp add: keeps_def sreturn_def)

lemma keeps_sthrow [keeps_intros]: "keeps P (sthrow e)"
  by (simp add: keeps_def sthrow_def)

lemma keeps_sbind [keeps_intros]:
  "keeps P m \<Longrightarrow> (\<And>a. keeps P (f a)) \<Longrightarrow> keeps P (sbind m f)"
  by (auto simp: keeps_def sbind_def split: prod.splits sum.splits)

lemma keeps_map_err [keeps_intros]: "keeps P m \<Longrightarrow> keeps P (map_err h m)"
  by (auto simp: keeps_def map_err_def split: prod.splits sum.splits)

end
