(* ===== verification/WsFrame.thy ===== *)
theory WsFrame
  imports StateResult
begin

section \<open>WebSocket frame codec (oxihttp-server ws_frame.rs)\<close>

text \<open>
  The reader and the writers of RFC 6455 frames, byte for byte. The stream they work on is
  an arbitrary \<open>AsyncRead + AsyncWrite\<close> of the caller: a record \<open>'s io\<close> of its operations
  over a state \<open>'s\<close>, whose contract is the locale \<open>duplex\<close>. A Rust \<open>Vec\<close> length is a
  \<open>nat\<close>; the 64-bit payload length and its cap are \<open>u64\<close> words.
\<close>

unbundle bit_operations_syntax

subsection \<open>Transport\<close>

record 's io =
  read_exact :: "nat \<Rightarrow> 's \<Rightarrow> (string + bytes) \<times> 's"
  write_all :: "bytes \<Rightarrow> 's \<Rightarrow> (string + unit) \<times> 's"
  flush_io :: "'s \<Rightarrow> (string + unit) \<times> 's"

text \<open>
  What the codec relies on: \<open>rx\<close> is what the peer has still to deliver, \<open>tx\<close> what has
  been written. \<open>read_exact\<close> fills the buffer or fails at the end of the stream;
  \<open>write_all\<close> writes everything or fails after a prefix.
\<close>

locale duplex =
  fixes io :: "'s io" and rx :: "'s \<Rightarrow> bytes" and tx :: "'s \<Rightarrow> bytes"
  assumes read_ok: "n \<le> length (rx s) \<Longrightarrow>
      \<exists>s'. read_exact io n s = (Inr (take n (rx s)), s') \<and> rx s' = drop n (rx s) \<and> tx s' = tx s"
    and read_eof: "length (rx s) < n \<Longrightarrow>
      \<exists>e s'. read_exact io n s = (Inl e, s') \<and> tx s' = tx s"
    and write_done: "write_all io bs s = (Inr u, s') \<Longrightarrow> tx s' = tx s @ bs \<and> rx s' = rx s"
    and write_fail: "write_all io bs s = (Inl e, s') \<Longrightarrow>
      (\<exists>k. tx s' = tx s @ take k bs) \<and> rx s' = rx s"
    and flush_keeps: "flush_io io s = (r, s') \<Longrightarrow> tx s' = tx s \<and> rx s' = rx s"

text \<open>
  An in-memory transport, like the \<open>Cursor\<close> of the source's own tests: a read buffer, a
  write buffer, and the number of bytes the writer still accepts before it breaks.
\<close>

record mem =
  mem_rx :: bytes
  mem_tx :: bytes
  mem_room :: nat

definition mem_read :: "nat \<Rightarrow> mem \<Rightarrow> (string + bytes) \<times> mem" where
  "mem_read n m =
     (if n \<le> length (mem_rx m) then (Inr (take n (mem_rx m)), m\<lparr>mem_rx := drop n (mem_rx m)\<rparr>)
      else (Inl ''early eof'', m\<lparr>mem_rx := []\<rparr>))"

definition mem_write :: "bytes \<Rightarrow> mem \<Rightarrow> (string + unit) \<times> mem" where
  "mem_write bs m =
     (let w = take (mem_room m) bs;
          m' = m\<lparr>mem_tx := mem_tx m @ w, mem_room := mem_room m - length bs\<rparr>
      in (if length bs \<le> mem_room m then Inr () else Inl ''write zero'', m'))"

definition mem_io :: "mem io" where
  "mem_io = \<lparr>read_exact = mem_read, write_all = mem_write, flush_io = (\<lambda>m. (Inr (), m))\<rparr>"

interpretation mem: duplex mem_io mem_rx mem_tx
  by unfold_locales (auto simp: mem_io_def mem_read_def mem_write_def Let_def split: if_splits)

subsection \<open>Opcodes and frames\<close>

definition DEFAULT_MAX_PAYLOAD_LEN :: u64 where
  "DEFAULT_MAX_PAYLOAD_LEN = 64 * 1024 * 1024"

datatype opcode = OpContinuation | OpText | OpBinary | OpClose | OpPing | OpPong

fun opcode_u8 :: "opcode \<Rightarrow> u8" where
  "opcode_u8 OpContinuation = 0x0"
| "opcode_u8 OpText = 0x1"
| "opcode_u8 OpBinary = 0x2"
| "opcode_u8 OpClose = 0x8"
| "opcode_u8 OpPing = 0x9"
| "opcode_u8 OpPong = 0xA"

definition opcode_from_u8 :: "u8 \<Rightarrow> opcode option" where
  "opcode_from_u8 v =
     (if v = 0x0 then Some OpContinuation
      else if v = 0x1 then Some OpText
      else if v = 0x2 then Some OpBinary
      else if v = 0x8 then Some OpClose
      else if v = 0x9 then Some OpPing
      else if v = 0xA then Some OpPong
      else None)"

definition is_control :: "opcode \<Rightarrow> bool" where
  "is_control op \<longleftrightarrow> op = OpClose \<or> op = OpPing \<or> op = OpPong"

record frame =
  fin :: bool
  opcode :: opcode
  payload :: bytes

subsection \<open>Big-endian integers and masking\<close>

definition be_to_nat :: "bytes \<Rightarrow> nat" where
  "be_to_nat bs = foldl (\<lambda>a b. a * 256 + unat b) 0 bs"

fun nat_to_be :: "nat \<Rightarrow> nat \<Rightarrow> bytes" where
  "nat_to_be 0 n = []"
| "nat_to_be (Suc k) n = nat_to_be k (n div 256) @ [of_nat n]"

definition apply_mask :: "bytes \<Rightarrow> bytes \<Rightarrow> bytes" where
  "apply_mask key bs = map (\<lambda>i. (bs ! i) XOR (key ! (i mod 4))) [0..<length bs]"

subsection \<open>Reading\<close>

definition read_ext_len :: "'s io \<Rightarrow> nat \<Rightarrow> ('s, oxi_error, u64) sresult" where
  "read_ext_len io len_byte =
     (if len_byte \<le> 125 then sreturn (of_nat len_byte)
      else if len_byte = 126 then
        sbind (map_err (\<lambda>e. BodyErr (''WebSocket: read ext len16: '' @ e)) (read_exact io 2))
          (\<lambda>b. sreturn (of_nat (be_to_nat b)))
      else
        sbind (map_err (\<lambda>e. BodyErr (''WebSocket: read ext len64: '' @ e)) (read_exact io 8))
          (\<lambda>b. sreturn (of_nat (be_to_nat b))))"

definition unmasked_msg :: string where
  "unmasked_msg =
     ''WebSocket: received unmasked frame from client (server requires masking per RFC 6455 '' @
     [CHR 0xC2, CHR 0xA7] @ ''5.1)''"

definition read_payload :: "'s io \<Rightarrow> bool \<Rightarrow> opcode \<Rightarrow> u64 \<Rightarrow> ('s, oxi_error, frame) sresult" where
  "read_payload io fn op payload_len =
     sbind (map_err (\<lambda>e. BodyErr (''WebSocket: read mask key: '' @ e)) (read_exact io 4)) (\<lambda>key.
     sbind (map_err (\<lambda>e. BodyErr (''WebSocket: read payload: '' @ e))
              (read_exact io (unat payload_len))) (\<lambda>body.
     sreturn \<lparr>fin = fn, opcode = op, payload = apply_mask key body\<rparr>))"

definition read_frame :: "'s io \<Rightarrow> u64 \<Rightarrow> ('s, oxi_error, frame) sresult" where
  "read_frame io max_payload_len =
     sbind (map_err (\<lambda>e. BodyErr (''WebSocket: read header: '' @ e)) (read_exact io 2)) (\<lambda>header.
       let fn = (header ! 0 AND 0x80 \<noteq> 0);
           rsv = header ! 0 AND 0x70;
           opcode_byte = header ! 0 AND 0x0F;
           masked = (header ! 1 AND 0x80 \<noteq> 0);
           len_byte = unat (header ! 1 AND 0x7F)
       in
       if rsv \<noteq> 0 then sthrow (BodyErr ''WebSocket: reserved bits set without extension'')
       else if \<not> masked then sthrow (BodyErr unmasked_msg)
       else (case opcode_from_u8 opcode_byte of
           None \<Rightarrow> sthrow (BodyErr (''WebSocket: unknown opcode 0x'' @ show_hex (unat opcode_byte)))
         | Some op \<Rightarrow>
             if is_control op \<and> (\<not> fn \<or> 125 < len_byte)
             then sthrow (BodyErr ''WebSocket: illegal control frame (fragmented or oversized)'')
             else sbind (read_ext_len io len_byte) (\<lambda>payload_len.
               if max_payload_len < payload_len
               then sthrow (BodyErr (''WebSocket: payload too large ('' @ show_nat (unat payload_len) @
                      '' bytes, max '' @ show_nat (unat max_payload_len) @ '')''))
               else read_payload io fn op payload_len)))"

subsection \<open>Writing\<close>

definition first_byte :: "opcode \<Rightarrow> bool \<Rightarrow> u8" where
  "first_byte op fn = (if fn then 0x80 OR opcode_u8 op else opcode_u8 op)"

definition server_header :: "opcode \<Rightarrow> nat \<Rightarrow> bool \<Rightarrow> bytes" where
  "server_header op len fn =
     first_byte op fn #
       (if len \<le> 125 then [of_nat len]
        else if len \<le> 0xFFFF then 126 # nat_to_be 2 len
        else 127 # nat_to_be 8 len)"

definition client_header :: "opcode \<Rightarrow> nat \<Rightarrow> bool \<Rightarrow> bytes \<Rightarrow> bytes" where
  "client_header op len fn mask_key =
     first_byte op fn #
       (if len \<le> 125 then [0x80 OR of_nat len]
        else if len \<le> 0xFFFF then (0x80 OR 126) # nat_to_be 2 len
        else (0x80 OR 127) # nat_to_be 8 len) @ mask_key"

definition write_frame :: "'s io \<Rightarrow> opcode \<Rightarrow> bytes \<Rightarrow> bool \<Rightarrow> ('s, oxi_error, unit) sresult" where
  "write_frame io op bs fn =
     sbind (map_err (\<lambda>e. BodyErr (''WebSocket: write header: '' @ e))
              (write_all io (server_header op (length bs) fn))) (\<lambda>_.
     sbind (map_err (\<lambda>e. BodyErr (''WebSocket: write payload: '' @ e)) (write_all io bs)) (\<lambda>_.
     map_err (\<lambda>e. BodyErr (''WebSocket: flush: '' @ e)) (flush_io io)))"

definition write_frame_masked ::
  "'s io \<Rightarrow> opcode \<Rightarrow> bytes \<Rightarrow> bool \<Rightarrow> bytes \<Rightarrow> ('s, oxi_error, unit) sresult" where
  "write_frame_masked io op bs fn mask_key =
     sbind (map_err (\<lambda>e. BodyErr (''WebSocket: write masked header: '' @ e))
              (write_all io (client_header op (length bs) fn mask_key))) (\<lambda>_.
     sbind (map_err (\<lambda>e. BodyErr (''WebSocket: write masked payload: '' @ e))
              (write_all io (apply_mask mask_key bs))) (\<lambda>_.
     map_err (\<lambda>e. BodyErr (''WebSocket: flush masked: '' @ e)) (flush_io io)))"

subsection \<open>Bit-level facts of the two header bytes\<close>

lemma opcode_roundtrip [simp]: "opcode_from_u8 (opcode_u8 op) = Some op"
  by (cases op) (simp_all add: opcode_from_u8_def)

lemma opcode_from_u8_Some: "opcode_from_u8 v = Some op \<longleftrightarrow> v = opcode_u8 op"
  by (auto simp: opcode_from_u8_def split: if_splits)
    (cases op; simp)+

lemma first_byte_fin [simp]: "first_byte op fn AND 0x80 = 0 \<longleftrightarrow> \<not> fn"
  by (cases op) (auto simp: first_byte_def)

lemma first_byte_rsv [simp]: "first_byte op fn AND 0x70 = 0"
  by (cases op) (auto simp: first_byte_def)

lemma first_byte_opcode [simp]: "first_byte op fn AND 0x0F = opcode_u8 op"
  by (cases op) (auto simp: first_byte_def)

lemma and_0x80: "(b :: u8) AND 0x80 = 0 \<or> b AND 0x80 = 0x80"
proof -
  have "bit (2 ^ 7 :: u8) n \<longleftrightarrow> n = 7" for n
    by (simp only: bit_exp_iff) auto
  then have *: "bit (0x80 :: u8) n \<longleftrightarrow> n = 7" for n by (simp del: bit_numeral_word_iff)
  show ?thesis
  proof (cases "bit b 7")
    case True
    then have "b AND 0x80 = 0x80" by (intro bit_eqI) (simp only: bit_and_iff *, blast)
    then show ?thesis ..
  next
    case False
    then have "b AND 0x80 = 0" by (intro bit_eqI) (simp only: bit_and_iff * bit_0_eq bot_fun_def bot_bool_def, blast)
    then show ?thesis ..
  qed
qed

lemma first_byte_unique:
  assumes "b AND 0x70 = 0" and "b AND 0x0F = opcode_u8 op"
  shows "b = first_byte op (b AND 0x80 \<noteq> 0)"
proof -
  have "b AND mask 8 = b"
    by (simp only: take_bit_eq_mask [symmetric]) (simp add: take_bit_word_eq_self)
  then have "b AND 0xFF = b" by (simp add: mask_eq_exp_minus_1)
  then have "b = (b AND 0x80) OR (b AND 0x70) OR (b AND 0x0F)"
    by (simp add: bit.conj_disj_distrib [symmetric])
  moreover have "b AND 0x80 \<noteq> 0 \<Longrightarrow> b AND 0x80 = 0x80"
    using and_0x80 by blast
  ultimately show ?thesis using assms by (auto simp: first_byte_def)
qed

lemma low7: "n < 128 \<Longrightarrow> (of_nat n :: u8) AND 0x7F = of_nat n"
proof -
  assume n: "n < 128"
  have "(of_nat n :: u8) AND mask 7 = of_nat (take_bit 7 n)"
    by (simp only: take_bit_eq_mask [symmetric] take_bit_of_nat)
  also have "take_bit 7 n = n" using n by (simp add: take_bit_nat_eq_self)
  finally show ?thesis by (simp add: mask_eq_exp_minus_1)
qed

lemma high_bit_clear: "n < 128 \<Longrightarrow> (of_nat n :: u8) AND 0x80 = 0"
proof -
  assume "n < 128"
  then have "(of_nat n :: u8) AND 0x80 = (of_nat n AND 0x7F) AND 0x80" by (simp only: low7)
  also have "\<dots> = 0" by (simp add: and.assoc)
  finally show ?thesis .
qed

lemma mask_bit_set [simp]: "(0x80 OR w :: u8) AND 0x80 \<noteq> 0"
  by (simp add: bit.conj_disj_distrib2 and.commute)

lemma mask_bit_len: "n < 128 \<Longrightarrow> unat ((0x80 OR of_nat n :: u8) AND 0x7F) = n"
proof -
  assume n: "n < 128"
  have "(0x80 OR of_nat n :: u8) AND 0x7F = of_nat n AND 0x7F"
    by (simp add: bit.conj_disj_distrib2)
  with n show ?thesis by (simp add: low7 unat_of_nat)
qed

subsection \<open>Integers and masks\<close>

lemma be_to_nat_Nil [simp]: "be_to_nat [] = 0"
  by (simp add: be_to_nat_def)

lemma be_to_nat_snoc [simp]: "be_to_nat (bs @ [b]) = be_to_nat bs * 256 + unat b"
  by (simp add: be_to_nat_def)

lemma length_nat_to_be [simp]: "length (nat_to_be k n) = k"
  by (induction k arbitrary: n) auto

lemma be_to_nat_bound: "be_to_nat bs < 256 ^ length bs"
proof (induction bs rule: rev_induct)
  case (snoc b bs)
  have "unat b < 2 ^ LENGTH(8)" by (rule unsigned_less)
  with snoc show ?case by simp
qed simp

lemma be_to_nat_nat_to_be [roundtrip_simps]: "be_to_nat (nat_to_be k n) = n mod 256 ^ k"
proof (induction k arbitrary: n)
  case (Suc k)
  have "unat (of_nat n :: u8) = n mod 256" by (simp add: unat_of_nat)
  then show ?case by (simp add: Suc mod_mult2_eq)
qed simp

lemma length_apply_mask [simp]: "length (apply_mask key bs) = length bs"
  by (simp add: apply_mask_def)

lemma apply_mask_involution [simp]: "apply_mask key (apply_mask key bs) = bs"
  by (rule nth_equalityI) (simp_all add: apply_mask_def xor.assoc)

subsection \<open>Lengths on the wire\<close>

lemma length_server_header:
  "length (server_header op len fn) = (if len \<le> 125 then 2 else if len \<le> 0xFFFF then 4 else 10)"
  by (simp add: server_header_def)

lemma length_client_header:
  "length key = 4 \<Longrightarrow>
   length (client_header op len fn key) = (if len \<le> 125 then 6 else if len \<le> 0xFFFF then 8 else 14)"
  by (simp add: client_header_def)

text \<open>
  What a frame must satisfy to be accepted under a payload cap: the size bound, and the
  restriction of RFC 6455 section 5.5 on control frames.
\<close>

definition frame_ok :: "u64 \<Rightarrow> frame \<Rightarrow> bool" where
  "frame_ok max_len f \<longleftrightarrow> length (payload f) \<le> unat max_len \<and>
     (is_control (opcode f) \<longrightarrow> fin f \<and> length (payload f) \<le> 125)"

text \<open>The length field of the second header byte and the extension bytes, as one function.\<close>

definition len_field :: "nat \<Rightarrow> nat" where
  "len_field len = (if len \<le> 125 then len else if len \<le> 0xFFFF then 126 else 127)"

definition len_ext :: "nat \<Rightarrow> bytes" where
  "len_ext len = (if len \<le> 125 then [] else if len \<le> 0xFFFF then nat_to_be 2 len else nat_to_be 8 len)"

lemma client_header_split:
  "client_header op len fn key = [first_byte op fn, 0x80 OR of_nat (len_field len)] @ len_ext len @ key"
  by (simp add: client_header_def len_field_def len_ext_def)

lemma server_header_split:
  "server_header op len fn = [first_byte op fn, of_nat (len_field len)] @ len_ext len"
  by (simp add: server_header_def len_field_def len_ext_def)

lemma len_field_128: "len_field len < 128"
  by (simp add: len_field_def)

lemma u64_less_of_nat: "n < 2 ^ 64 \<Longrightarrow> (w :: u64) < of_nat n \<longleftrightarrow> unat w < n"
  by (simp add: word_less_nat_alt unat_of_nat)

lemma unat_u64_of_nat: "n < 2 ^ 64 \<Longrightarrow> unat (of_nat n :: u64) = n"
  by (simp add: unat_of_nat)

context duplex
begin

lemma read_exact_Inr:
  assumes "read_exact io n s = (Inr b, s')"
  shows "n \<le> length (rx s)" "length b = n" "rx s = b @ rx s'" "tx s' = tx s"
proof -
  show n: "n \<le> length (rx s)"
  proof (rule ccontr)
    assume "\<not> n \<le> length (rx s)"
    with read_eof [of s n] assms show False by auto
  qed
  with read_ok [OF n] assms show "length b = n" "rx s = b @ rx s'" "tx s' = tx s" by auto
qed

lemma read_exact_Inl:
  assumes "read_exact io n s = (Inl e, s')"
  shows "length (rx s) < n" "tx s' = tx s"
proof -
  show n: "length (rx s) < n"
    using read_ok [of n s] assms by (auto simp: not_le [symmetric])
  with read_eof [OF n] assms show "tx s' = tx s" by auto
qed

lemma read_exact_app:
  assumes "rx s = b @ t" and "length b = n"
  obtains s' where "read_exact io n s = (Inr b, s')" "rx s' = t" "tx s' = tx s"
  using read_ok [of n s] assms by auto

lemma read_exact_tx [preserves_intros]: "preserves tx (read_exact io n)"
  by (rule preservesI) (metis read_exact_Inl(2) read_exact_Inr(4) sum.exhaust)

text \<open>Reading never writes.\<close>

lemma read_frame_tx: "preserves tx (read_frame io mx)"
  unfolding read_frame_def read_ext_len_def read_payload_def
  by (intro preserves_intros)

lemma read_ext_len_Inr:
  assumes "read_ext_len io n s = (Inr l, s')"
  obtains ext where "rx s = ext @ rx s'"
    "ext = [] \<and> n \<le> 125 \<and> l = of_nat n \<or> n = 126 \<and> length ext = 2 \<and> l = of_nat (be_to_nat ext) \<or>
     126 < n \<and> length ext = 8 \<and> l = of_nat (be_to_nat ext)"
proof -
  consider "n \<le> 125" | "n = 126" | "126 < n" by linarith
  then show ?thesis
  proof cases
    case 1
    with assms that [of "[]"] show ?thesis by (auto simp: read_ext_len_def)
  next
    case 2
    with assms obtain b where r: "read_exact io 2 s = (Inr b, s')" and l: "l = of_nat (be_to_nat b)"
      by (auto simp: read_ext_len_def sbind_Inr)
    from read_exact_Inr(2,3) [OF r] 2 l that show ?thesis by blast
  next
    case 3
    with assms obtain b where r: "read_exact io 8 s = (Inr b, s')" and l: "l = of_nat (be_to_nat b)"
      by (auto simp: read_ext_len_def sbind_Inr)
    from read_exact_Inr(2,3) [OF r] 3 l that show ?thesis by blast
  qed
qed

lemma read_payload_Inr:
  assumes "read_payload io fn op l s = (Inr f, s')"
  obtains key body where "rx s = key @ body @ rx s'" "length key = 4" "length body = unat l"
    "f = \<lparr>fin = fn, opcode = op, payload = apply_mask key body\<rparr>"
proof -
  from assms obtain key s1 body where r1: "read_exact io 4 s = (Inr key, s1)"
    and r2: "read_exact io (unat l) s1 = (Inr body, s')"
    and f: "f = \<lparr>fin = fn, opcode = op, payload = apply_mask key body\<rparr>"
    by (auto simp: read_payload_def sbind_Inr)
  note k = read_exact_Inr(2,3) [OF r1] and b = read_exact_Inr(2,3) [OF r2]
  have "rx s = key @ body @ rx s'" by (simp only: k b)
  then show ?thesis using k(1) b(1) f that by blast
qed

lemma read_frame_Inr:
  assumes "read_frame io mx s = (Inr f, s')"
  obtains b0 b1 ext key body where
    "rx s = [b0, b1] @ ext @ key @ body @ rx s'"
    "b0 = first_byte (opcode f) (fin f)" "b1 AND 0x80 \<noteq> 0" "length key = 4"
    "payload f = apply_mask key body" "frame_ok mx f" "length ext \<le> 8"
proof -
  from assms obtain hd s1 op l s2 where
    r1: "read_exact io 2 s = (Inr hd, s1)" and rsv: "hd ! 0 AND 0x70 = 0"
    and m: "hd ! 1 AND 0x80 \<noteq> 0" and op: "opcode_from_u8 (hd ! 0 AND 0x0F) = Some op"
    and ctl: "\<not> (is_control op \<and> (hd ! 0 AND 0x80 = 0 \<or> 125 < unat (hd ! 1 AND 0x7F)))"
    and ext: "read_ext_len io (unat (hd ! 1 AND 0x7F)) s1 = (Inr l, s2)" and le: "\<not> mx < l"
    and pl: "read_payload io (hd ! 0 AND 0x80 \<noteq> 0) op l s2 = (Inr f, s')"
    by (auto simp: read_frame_def sbind_Inr Let_def split: if_splits option.splits)
  obtain b0 b1 where hd: "hd = [b0, b1]"
    using read_exact_Inr(2) [OF r1] by (cases hd; cases "tl hd") auto
  obtain ex where ex: "rx s1 = ex @ rx s2" "length ex \<le> 8"
    and exl: "ex = [] \<and> l = of_nat (unat (b1 AND 0x7F)) \<or> 125 < unat (b1 AND 0x7F)"
    by (rule read_ext_len_Inr [OF ext]) (auto simp: hd)
  obtain key body where kb: "rx s2 = key @ body @ rx s'" "length key = 4" "length body = unat l"
    and f: "f = \<lparr>fin = (b0 AND 0x80 \<noteq> 0), opcode = op, payload = apply_mask key body\<rparr>"
    by (rule read_payload_Inr [OF pl]) (auto simp: hd)
  have rx: "rx s = [b0, b1] @ ex @ key @ body @ rx s'"
    using read_exact_Inr(3) [OF r1] by (simp only: hd ex kb)
  have "unat (of_nat (unat (b1 AND 0x7F)) :: u64) = unat (b1 AND 0x7F)"
    by (rule unat_u64_of_nat, rule less_trans [OF unsigned_less]) simp
  moreover have "length body \<le> unat mx"
    using le kb(3) by (simp add: word_less_nat_alt not_less)
  ultimately have ok: "frame_ok mx f"
    using ctl exl kb(3) by (auto simp: frame_ok_def f hd)
  have b0: "b0 = first_byte (opcode f) (fin f)"
    unfolding f frame.simps by (rule first_byte_unique) (use rsv op in \<open>auto simp: hd opcode_from_u8_Some\<close>)
  have pay: "payload f = apply_mask key body" by (simp add: f)
  from m have "b1 AND 0x80 \<noteq> 0" by (simp add: hd)
  then show ?thesis by (rule that [OF rx b0 _ kb(2) pay ok ex(2)])
qed

text \<open>
  The reader takes exactly one masked client frame off the stream and returns its
  unmasked payload, whatever follows it.
\<close>

lemma read_ext_len_enc:
  assumes "rx s = len_ext n @ t" and "n < 2 ^ 64"
  obtains s' where "read_ext_len io (len_field n) s = (Inr (of_nat n), s')" "rx s' = t" "tx s' = tx s"
proof -
  consider "n \<le> 125" | "125 < n" "n \<le> 0xFFFF" | "0xFFFF < n" by linarith
  then show ?thesis
  proof cases
    case 1
    with assms(1) that [of s] show ?thesis by (simp add: read_ext_len_def len_field_def len_ext_def)
  next
    case 2
    obtain s' where s': "read_exact io 2 s = (Inr (nat_to_be 2 n), s')" "rx s' = t" "tx s' = tx s"
      by (rule read_exact_app [of s "nat_to_be 2 n" t 2]) (use 2 assms(1) in \<open>auto simp: len_ext_def\<close>)
    with 2 that show ?thesis
      by (simp add: read_ext_len_def len_field_def sbind_run be_to_nat_nat_to_be)
  next
    case 3
    obtain s' where s': "read_exact io 8 s = (Inr (nat_to_be 8 n), s')" "rx s' = t" "tx s' = tx s"
      by (rule read_exact_app [of s "nat_to_be 8 n" t 8]) (use 3 assms(1) in \<open>auto simp: len_ext_def\<close>)
    with 3 that assms(2) show ?thesis
      by (simp add: read_ext_len_def len_field_def sbind_run be_to_nat_nat_to_be)
  qed
qed

lemma read_payload_enc:
  assumes "rx s = key @ apply_mask key bs @ t" and "length key = 4" and "length bs = unat l"
  obtains s' where
    "read_payload io fn op l s = (Inr \<lparr>fin = fn, opcode = op, payload = bs\<rparr>, s')" "rx s' = t" "tx s' = tx s"
proof -
  obtain s1 where s1: "read_exact io 4 s = (Inr key, s1)" "rx s1 = apply_mask key bs @ t" "tx s1 = tx s"
    by (rule read_exact_app [of s key "apply_mask key bs @ t" 4]) (use assms in auto)
  obtain s2 where s2: "read_exact io (unat l) s1 = (Inr (apply_mask key bs), s2)" "rx s2 = t" "tx s2 = tx s1"
    by (rule read_exact_app [of s1 "apply_mask key bs" t "unat l"]) (use assms s1 in auto)
  from s1 s2 that show ?thesis by (simp add: read_payload_def sbind_run)
qed

lemma read_frame_client:
  assumes rx: "rx s = client_header (opcode f) (length (payload f)) (fin f) key @
                 apply_mask key (payload f) @ t"
    and key: "length key = 4" and ok: "frame_ok mx f"
  obtains s' where "read_frame io mx s = (Inr f, s')" "rx s' = t" "tx s' = tx s"
proof -
  define n where "n = length (payload f)"
  have n: "n \<le> unat mx" using ok by (simp add: frame_ok_def n_def)
  then have n64: "n < 2 ^ 64" using unsigned_less [of mx, where ?'a = nat] by simp
  let ?hd = "[first_byte (opcode f) (fin f), 0x80 OR of_nat (len_field n)]"
  obtain s1 where s1: "read_exact io 2 s = (Inr ?hd, s1)"
    "rx s1 = len_ext n @ key @ apply_mask key (payload f) @ t" "tx s1 = tx s"
    by (rule read_exact_app [of s ?hd "len_ext n @ key @ apply_mask key (payload f) @ t" 2])
      (use rx in \<open>auto simp: client_header_split n_def\<close>)
  obtain s2 where s2: "read_ext_len io (len_field n) s1 = (Inr (of_nat n), s2)"
    "rx s2 = key @ apply_mask key (payload f) @ t" "tx s2 = tx s1"
    by (rule read_ext_len_enc [OF s1(2) n64])
  obtain s3 where s3: "read_payload io (fin f) (opcode f) (of_nat n) s2 = (Inr f, s3)"
    "rx s3 = t" "tx s3 = tx s2"
    by (rule read_payload_enc [OF s2(2) key, of "of_nat n" "fin f" "opcode f"])
      (use n64 in \<open>auto simp: unat_u64_of_nat n_def\<close>)
  have small: "is_control (opcode f) \<Longrightarrow> fin f \<and> len_field n \<le> 125"
    using ok by (auto simp: frame_ok_def n_def len_field_def)
  have "\<not> mx < of_nat n" using n n64 by (simp add: u64_less_of_nat)
  with s1(1) s2(1) s3(1) small have "read_frame io mx s = (Inr f, s3)"
    by (auto simp: read_frame_def sbind_run mask_bit_len [OF len_field_128] Let_def)
  with s1(3) s2(3) s3 that show ?thesis by simp
qed

text \<open>A server frame, which is never masked, is refused after its two header bytes.\<close>

lemma read_frame_unmasked:
  assumes rx: "rx s = server_header op n fn @ t"
  obtains s' where "read_frame io mx s = (Inl (BodyErr unmasked_msg), s')"
    "rx s' = len_ext n @ t" "tx s' = tx s"
proof -
  let ?hd = "[first_byte op fn, of_nat (len_field n)]"
  obtain s1 where s1: "read_exact io 2 s = (Inr ?hd, s1)" "rx s1 = len_ext n @ t" "tx s1 = tx s"
    by (rule read_exact_app [of s ?hd "len_ext n @ t" 2])
      (use rx in \<open>auto simp: server_header_split\<close>)
  then have "read_frame io mx s = (Inl (BodyErr unmasked_msg), s1)"
    by (simp add: read_frame_def sbind_run high_bit_clear [OF len_field_128] sthrow_def)
  with s1 that show ?thesis by simp
qed

subsection \<open>What the writers put on the wire\<close>

lemma write_all_rx [preserves_intros]: "preserves rx (write_all io bs)"
  by (rule preservesI) (metis write_done write_fail sum.exhaust)

lemma flush_rx [preserves_intros]: "preserves rx (flush_io io)"
  by (rule preservesI) (use flush_keeps in blast)

lemma write_frame_rx [preserves_intros]: "preserves rx (write_frame io op bs fn)"
  unfolding write_frame_def by (intro preserves_intros)

lemma write_frame_masked_rx [preserves_intros]: "preserves rx (write_frame_masked io op bs fn key)"
  unfolding write_frame_masked_def by (intro preserves_intros)

lemma write_frame_Inr:
  "write_frame io op bs fn s = (Inr u, s') \<Longrightarrow> tx s' = tx s @ server_header op (length bs) fn @ bs"
  by (auto simp: write_frame_def sbind_Inr dest!: write_done flush_keeps)

lemma write_frame_masked_Inr:
  "write_frame_masked io op bs fn key s = (Inr u, s') \<Longrightarrow>
   tx s' = tx s @ client_header op (length bs) fn key @ apply_mask key bs"
  by (auto simp: write_frame_masked_def sbind_Inr dest!: write_done flush_keeps)

text \<open>A failed write leaves a prefix of the frame on the wire: nothing else is ever sent.\<close>

lemma write_frame_Inl:
  assumes "write_frame io op bs fn s = (Inl e, s')"
  shows "\<exists>k. tx s' = tx s @ take k (server_header op (length bs) fn @ bs)"
proof -
  let ?h = "server_header op (length bs) fn"
  consider e1 where "write_all io ?h s = (Inl e1, s')"
    | u s1 e1 where "write_all io ?h s = (Inr u, s1)" "write_all io bs s1 = (Inl e1, s')"
    | u s1 u' s2 e1 where "write_all io ?h s = (Inr u, s1)" "write_all io bs s1 = (Inr u', s2)"
        "flush_io io s2 = (Inl e1, s')"
    using assms by (auto simp: write_frame_def sbind_Inl map_err_Inl)
  then show ?thesis
  proof cases
    case 1
    then obtain k where "tx s' = tx s @ take k ?h" using write_fail by blast
    then have "tx s' = tx s @ take (min k (length ?h)) (?h @ bs)"
      by (cases "k \<le> length ?h") (simp_all add: min_def)
    then show ?thesis by blast
  next
    case 2
    then obtain k where "tx s' = (tx s @ ?h) @ take k bs" using write_fail write_done by metis
    then have "tx s' = tx s @ take (length ?h + k) (?h @ bs)" by simp
    then show ?thesis by blast
  next
    case 3
    then have "tx s' = tx s @ take (length ?h + length bs) (?h @ bs)"
      using write_done [of ?h s] write_done [of bs s1] flush_keeps by fastforce
    then show ?thesis by blast
  qed
qed

lemma read_frame_no_mask:
  assumes rx: "rx s = b0 # b1 # t" and rsv: "b0 AND 0x70 = 0" and m: "b1 AND 0x80 = 0"
  shows "\<exists>s'. read_frame io mx s = (Inl (BodyErr unmasked_msg), s') \<and> rx s' = t \<and> tx s' = tx s"
proof -
  obtain s1 where s1: "read_exact io 2 s = (Inr [b0, b1], s1)" "rx s1 = t" "tx s1 = tx s"
    by (rule read_exact_app [of s "[b0, b1]" t 2]) (use rx in auto)
  with rsv m have "read_frame io mx s = (Inl (BodyErr unmasked_msg), s1)"
    by (simp add: read_frame_def sbind_run sthrow_def)
  with s1 show ?thesis by blast
qed

end

lemma server_header_cons:
  "server_header op n fn @ t = first_byte op fn # of_nat (len_field n) # len_ext n @ t"
  by (simp add: server_header_split)

subsection \<open>Properties of the codec\<close>

text \<open>C11. round trip. What \<open>write_frame_masked\<close> puts on the wire for a frame within the cap,
  \<open>read_frame\<close> takes off the wire as the same frame (FIN bit, opcode, unmasked payload),
  and it leaves exactly the bytes that follow the frame.
\<close>

theorem ws_frame_roundtrip:
  assumes "duplex io rx tx"
    and "length key = 4" and "frame_ok mx f"
    and "write_frame_masked io (opcode f) (payload f) (fin f) key s = (Inr u, s1)"
    and "rx s2 = drop (length (tx s)) (tx s1) @ t"
  shows "\<exists>s3. read_frame io mx s2 = (Inr f, s3) \<and> rx s3 = t"
proof -
  have "tx s1 = tx s @ client_header (opcode f) (length (payload f)) (fin f) key @ apply_mask key (payload f)"
    using duplex.write_frame_masked_Inr [OF assms(1,4)] .
  with assms(5) have "rx s2 = client_header (opcode f) (length (payload f)) (fin f) key @
      apply_mask key (payload f) @ t" by simp
  from duplex.read_frame_client [OF assms(1) this assms(2,3)] show ?thesis by blast
qed

definition mem_of :: "bytes \<Rightarrow> mem" where
  "mem_of bs = \<lparr>mem_rx = bs, mem_tx = [], mem_room = 1000\<rparr>"

theorem ws_frame_roundtrip_witness:
  "\<exists>s3. read_frame mem_io 64 (mem_of ([0x82, 0x82, 1, 2, 3, 4, 8, 11] @ [7])) =
     (Inr \<lparr>fin = True, opcode = OpBinary, payload = [9, 9]\<rparr>, s3) \<and> mem_rx s3 = [7]"
proof (rule ws_frame_roundtrip [OF mem.duplex_axioms,
    where key = "[1, 2, 3, 4]" and s = "mem_of []"
      and ?s1.0 = "snd (write_frame_masked mem_io OpBinary [9, 9] True [1, 2, 3, 4] (mem_of []))" and u = "()"])
  show "frame_ok 64 \<lparr>fin = True, opcode = OpBinary, payload = [9, 9]\<rparr>"
    by (simp add: frame_ok_def is_control_def)
qed (simp_all add: write_frame_masked_def sbind_def map_err_def mem_io_def mem_write_def mem_of_def
    client_header_def first_byte_def apply_mask_def)



text \<open>the server role. A frame without the mask bit, in particular every frame the server
  itself writes, is refused after the two header bytes: no length, key or payload byte of it
  is consumed.
\<close>

theorem read_frame_rejects_unmasked:
  assumes "duplex io rx tx" and "rx s = b0 # b1 # t" and "b0 AND 0x70 = 0" and "b1 AND 0x80 = 0"
  shows "\<exists>s'. read_frame io mx s = (Inl (BodyErr unmasked_msg), s') \<and> rx s' = t \<and> tx s' = tx s"
  by (rule duplex.read_frame_no_mask [OF assms])

theorem read_frame_rejects_unmasked_witness:
  "\<exists>s'. read_frame mem_io 64 (mem_of (server_header OpText 5 True @ as_bytes ''hello'')) =
      (Inl (BodyErr unmasked_msg), s') \<and> mem_rx s' = as_bytes ''hello'' \<and> mem_tx s' = []"
  using read_frame_rejects_unmasked [OF mem.duplex_axioms, where mx = 64
      and s = "mem_of (server_header OpText 5 True @ as_bytes ''hello'')"
      and ?b0.0 = "first_byte OpText True" and ?b1.0 = 5 and t = "as_bytes ''hello''"]
  by (simp add: mem_of_def server_header_def)

end
