(* ===== verification/Utf8.thy ===== *)
theory Utf8
  imports Numbers
begin

section \<open>UTF-8: String::from_utf8 and String::from_utf8_lossy\<close>

text \<open>
  The decoder of the Rust standard library, which the server uses for WebSocket text
  messages, close reasons and request bodies. \<open>utf8_step b0 rest\<close> looks at the sequence
  that starts with \<open>b0\<close>: a flag whether it is well formed and how many bytes of \<open>rest\<close>
  belong to it (for an ill-formed one, to the part that is replaced as a whole).
\<close>

unbundle bit_operations_syntax

definition safe_get :: "bytes \<Rightarrow> nat \<Rightarrow> u8" where
  "safe_get bs i = (if i < length bs then bs ! i else 0)"

definition is_cont :: "u8 \<Rightarrow> bool" where
  "is_cont b \<longleftrightarrow> b AND 0xC0 = 0x80"

definition within :: "u8 \<Rightarrow> u8 \<Rightarrow> u8 \<Rightarrow> bool" where
  "within lo hi b \<longleftrightarrow> lo \<le> b \<and> b \<le> hi"

definition utf8_step :: "u8 \<Rightarrow> bytes \<Rightarrow> bool \<times> nat" where
  "utf8_step b0 rest =
     (let b1 = safe_get rest 0; b2 = safe_get rest 1; b3 = safe_get rest 2 in
      if b0 < 0x80 then (True, 0)
      else if within 0xC2 0xDF b0 then (if is_cont b1 then (True, 1) else (False, 0))
      else if within 0xE0 0xEF b0 then
        (if (b0 = 0xE0 \<and> within 0xA0 0xBF b1) \<or> (within 0xE1 0xEC b0 \<and> within 0x80 0xBF b1) \<or>
            (b0 = 0xED \<and> within 0x80 0x9F b1) \<or> (within 0xEE 0xEF b0 \<and> within 0x80 0xBF b1)
         then (if is_cont b2 then (True, 2) else (False, 1))
         else (False, 0))
      else if within 0xF0 0xF4 b0 then
        (if (b0 = 0xF0 \<and> within 0x90 0xBF b1) \<or> (within 0xF1 0xF3 b0 \<and> within 0x80 0xBF b1) \<or>
            (b0 = 0xF4 \<and> within 0x80 0x8F b1)
         then (if is_cont b2 then (if is_cont b3 then (True, 3) else (False, 2)) else (False, 1))
         else (False, 0))
      else (False, 0))"

fun utf8_valid :: "bytes \<Rightarrow> bool" where
  "utf8_valid [] \<longleftrightarrow> True"
| "utf8_valid (b # bs) \<longleftrightarrow> fst (utf8_step b bs) \<and> utf8_valid (drop (snd (utf8_step b bs)) bs)"

definition replacement_char :: bytes where
  "replacement_char = [0xEF, 0xBF, 0xBD]"

fun utf8_lossy :: "bytes \<Rightarrow> bytes" where
  "utf8_lossy [] = []"
| "utf8_lossy (b # bs) =
     (let (ok, n) = utf8_step b bs in
      (if ok then b # take n bs else replacement_char) @ utf8_lossy (drop n bs))"

text \<open>
  \<open>utf8_error 0 bs\<close> is the text of the \<open>Utf8Error\<close> for the first ill-formed sequence, if any;
  \<open>from_utf8\<close> is \<open>String::from_utf8\<close>, an error being its display text.
\<close>

fun utf8_error :: "nat \<Rightarrow> bytes \<Rightarrow> string option" where
  "utf8_error i [] = None"
| "utf8_error i (b # bs) =
     (let (ok, n) = utf8_step b bs in
      if ok then utf8_error (Suc i + n) (drop n bs)
      else Some (if within 0xC2 0xF4 b \<and> length bs \<le> n
                 then ''incomplete utf-8 byte sequence from index '' @ show_nat i
                 else ''invalid utf-8 sequence of '' @ show_nat (Suc n) @ '' bytes from index '' @ show_nat i))"

definition from_utf8 :: "bytes \<Rightarrow> string + string" where
  "from_utf8 bs = (case utf8_error 0 bs of Some e \<Rightarrow> Inl e | None \<Rightarrow> Inr (of_bytes bs))"

definition from_utf8_lossy :: "bytes \<Rightarrow> string" where
  "from_utf8_lossy bs = of_bytes (utf8_lossy bs)"

text \<open>A Rust \<open>str\<close> is a valid UTF-8 sequence: the invariant of every string value.\<close>

definition is_str :: "string \<Rightarrow> bool" where
  "is_str s \<longleftrightarrow> utf8_valid (as_bytes s)"

lemma as_bytes_of_bytes [simp]: "as_bytes (of_bytes bs) = bs"
proof (induction bs)
  case (Cons b bs)
  have "unat b < 2 ^ LENGTH(8)" by (rule unsigned_less)
  then have "unat b < 256" by simp
  then have "of_nat (of_char (char_of (unat b))) = b"
    by (simp add: word_unat_eq_iff unat_of_nat)
  with Cons show ?case by (simp add: of_bytes_def as_bytes_def)
qed (simp add: of_bytes_def)

lemma utf8_error_None: "utf8_error i bs = None \<longleftrightarrow> utf8_valid bs"
proof (induction i bs rule: utf8_error.induct)
  case (2 i b bs)
  obtain ok n where s: "utf8_step b bs = (ok, n)" by fastforce
  with 2 show ?case by simp
qed simp

lemma from_utf8_Inr: "from_utf8 bs = Inr s \<longleftrightarrow> utf8_valid bs \<and> s = of_bytes bs"
  using utf8_error_None [of 0 bs] by (auto simp: from_utf8_def split: option.splits)

lemma from_utf8_as_bytes [roundtrip_simps]: "is_str s \<Longrightarrow> from_utf8 (as_bytes s) = Inr s"
  by (simp add: from_utf8_Inr is_str_def)

lemma from_utf8_is_str: "from_utf8 bs = Inr s \<Longrightarrow> is_str s"
  by (auto simp: from_utf8_Inr is_str_def)

lemma utf8_lossy_valid: "utf8_valid bs \<Longrightarrow> utf8_lossy bs = bs"
proof (induction bs rule: utf8_lossy.induct)
  case (2 b bs)
  obtain ok n where s: "utf8_step b bs = (ok, n)" by fastforce
  with 2 show ?case by auto
qed simp

lemma from_utf8_lossy_str [roundtrip_simps]: "is_str s \<Longrightarrow> from_utf8_lossy (as_bytes s) = s"
  by (simp add: from_utf8_lossy_def is_str_def utf8_lossy_valid)

lemma utf8_step_ascii: "b < 0x80 \<Longrightarrow> utf8_step b bs = (True, 0)"
  by (simp add: utf8_step_def)

lemma utf8_valid_ascii: "(\<And>b. b \<in> set bs \<Longrightarrow> b < 0x80) \<Longrightarrow> utf8_valid bs"
  by (induction bs) (auto simp: utf8_step_ascii)

text \<open>A well-formed sequence lies inside the input and does not depend on what follows it.\<close>

lemma not_cont_0 [simp]: "\<not> is_cont 0"
  by (simp add: is_cont_def)

lemma not_within_0: "0 < lo \<Longrightarrow> \<not> within lo hi 0"
  by (simp add: within_def)

lemma is_cont_safe_get: "is_cont (safe_get bs i) \<Longrightarrow> i < length bs"
  by (cases "i < length bs") (auto simp: safe_get_def)

lemma utf8_step_bound: "utf8_step b bs = (True, n) \<Longrightarrow> n \<le> length bs"
  by (auto simp: utf8_step_def Let_def split: if_splits dest!: is_cont_safe_get simp: Suc_le_eq)

lemma utf8_step_append:
  assumes "utf8_step b bs = (True, n)"
  shows "utf8_step b (bs @ cs) = (True, n)"
proof -
  have same: "i < length bs \<Longrightarrow> safe_get (bs @ cs) i = safe_get bs i" for i
    by (simp add: safe_get_def nth_append)
  have len: "n \<le> length bs" using assms by (rule utf8_step_bound)
  consider "n = 0" | "n = 1" | "n = 2" | "n = 3"
    using assms by (auto simp: utf8_step_def Let_def split: if_splits)
  then show ?thesis
  proof cases
    case 1
    with assms have "b < 0x80" by (auto simp: utf8_step_def Let_def split: if_splits)
    with 1 show ?thesis by (simp add: utf8_step_ascii)
  next
    case 2
    with len have "safe_get (bs @ cs) 0 = safe_get bs 0" using same [of 0] by (cases bs) auto
    with assms 2 show ?thesis by (auto simp: utf8_step_def Let_def split: if_splits)
  next
    case 3
    with len have "safe_get (bs @ cs) 0 = safe_get bs 0" "safe_get (bs @ cs) 1 = safe_get bs 1"
      by (auto intro!: same)
    with assms 3 show ?thesis by (auto simp: utf8_step_def Let_def split: if_splits)
  next
    case 4
    with len have "safe_get (bs @ cs) 0 = safe_get bs 0" "safe_get (bs @ cs) 1 = safe_get bs 1"
      "safe_get (bs @ cs) 2 = safe_get bs 2"
      by (auto intro!: same)
    with assms 4 show ?thesis by (auto simp: utf8_step_def Let_def split: if_splits)
  qed
qed

lemma utf8_valid_append: "utf8_valid bs \<Longrightarrow> utf8_valid (bs @ cs) \<longleftrightarrow> utf8_valid cs"
proof (induction bs rule: utf8_valid.induct)
  case (2 b bs)
  obtain n where n: "utf8_step b bs = (True, n)"
    using 2 by (cases "utf8_step b bs") auto
  from utf8_step_bound [OF n] have "drop n (bs @ cs) = drop n bs @ cs" by simp
  with 2 utf8_step_append [OF n, of cs] n show ?case by simp
qed simp

lemma is_str_append [simp]: "is_str s \<Longrightarrow> is_str t \<Longrightarrow> is_str (s @ t)"
  by (simp add: is_str_def utf8_valid_append)

lemma is_str_ascii:
  assumes "\<And>c. c \<in> set s \<Longrightarrow> of_char c < (128::nat)"
  shows "is_str s"
  unfolding is_str_def
proof (rule utf8_valid_ascii)
  fix b assume "b \<in> set (as_bytes s)"
  then obtain c where "c \<in> set s" "b = of_nat (of_char c)" by (auto simp: as_bytes_def)
  with assms [of c] show "b < 0x80" by (simp add: word_less_nat_alt)
qed

lemma is_str_Nil [simp]: "is_str []"
  by (simp add: is_str_def)

end
