(* ===== verification/WebSocket.thy ===== *)
theory WebSocket
  imports WsFrame Utf8
begin

section \<open>WebSocket connections (oxihttp-server ws.rs)\<close>

text \<open>
  The connection state of \<open>struct WebSocket\<close> over a transport \<open>'s io\<close>, its receive loop with
  fragment reassembly and automatic Pong and Close replies, \<open>send\<close>, \<open>close\<close>, and the
  validation of the upgrade request. One pass of the loop body is \<open>recv_step\<close>; the loop is
  \<open>recv_loop\<close>, a partial function whose value is \<open>None\<close> when it does not return.
\<close>

definition MIN_FRAME_PAYLOAD_CAP :: u64 where
  "MIN_FRAME_PAYLOAD_CAP = 125"

definition WS_MAGIC :: string where
  "WS_MAGIC = ''258EAFA5-E914-47DA-95CA-5AF986DFEC23''"

definition DEFAULT_MAX_MESSAGE_SIZE :: u64 where
  "DEFAULT_MAX_MESSAGE_SIZE = 16 * 1024 * 1024"

record close_frame =
  cf_code :: u16
  cf_reason :: string

datatype message =
    MText string
  | MBinary bytes
  | MPing bytes
  | MPong bytes
  | MClose "close_frame option"

text \<open>\<open>usize\<close> is 64 bits wide, so the limit is a \<open>u64\<close> word.\<close>

record 's websocket =
  stream :: 's
  frag_buf :: bytes
  frag_opcode :: "opcode option"
  closed :: bool
  close_sent :: bool
  max_message_size :: u64

definition ws_new :: "'s \<Rightarrow> 's websocket" where
  "ws_new s = \<lparr>stream = s, frag_buf = [], frag_opcode = None, closed = False, close_sent = False,
               max_message_size = DEFAULT_MAX_MESSAGE_SIZE\<rparr>"

definition set_max_message_size :: "u64 \<Rightarrow> 's websocket \<Rightarrow> 's websocket" where
  "set_max_message_size max_bytes ws = ws\<lparr>max_message_size := max_bytes\<rparr>"

text \<open>An operation on \<open>&mut self.stream\<close>, and an assignment to the fields of \<open>self\<close>.\<close>

definition on_stream :: "('s, 'e, 'a) sresult \<Rightarrow> ('s websocket, 'e, 'a) sresult" where
  "on_stream m ws = (case m (stream ws) of (r, s') \<Rightarrow> (r, ws\<lparr>stream := s'\<rparr>))"

definition modify :: "('w \<Rightarrow> 'w) \<Rightarrow> ('w, 'e, unit) sresult" where
  "modify f ws = (Inr (), f ws)"

definition lift_result :: "('e + 'a) \<Rightarrow> ('w, 'e, 'a) sresult" where
  "lift_result r ws = (r, ws)"

definition check_size_limit :: "nat \<Rightarrow> ('s websocket, oxi_error, unit) sresult" where
  "check_size_limit incoming ws =
     (let total = min (length (frag_buf ws) + incoming) usize_max in
      if unat (max_message_size ws) < total
      then (Inl (BodyErr (''WebSocket: message exceeds maximum of '' @
                   show_nat (unat (max_message_size ws)) @ '' bytes'')),
            ws\<lparr>closed := True, frag_buf := [], frag_opcode := None\<rparr>)
      else (Inr (), ws))"

definition make_data_message :: "opcode \<Rightarrow> bytes \<Rightarrow> message oxi_result" where
  "make_data_message op data =
     (case op of
        OpText \<Rightarrow> (case from_utf8 data of
            Inl e \<Rightarrow> Inl (BodyErr (''WebSocket: invalid UTF-8: '' @ e))
          | Inr s \<Rightarrow> Inr (MText s))
      | OpBinary \<Rightarrow> Inr (MBinary data)
      | _ \<Rightarrow> Inl (BodyErr ''WebSocket: unexpected opcode in make_data_message''))"

definition parse_close_frame :: "bytes \<Rightarrow> close_frame option" where
  "parse_close_frame bs =
     (if length bs < 2 then None
      else Some \<lparr>cf_code = of_nat (be_to_nat (take 2 bs)), cf_reason = from_utf8_lossy (drop 2 bs)\<rparr>)"

text \<open>The match arms of \<open>recv\<close>, in the order of the source; \<open>None\<close> is another round of the loop.\<close>

definition handle_frame :: "'s io \<Rightarrow> frame \<Rightarrow> ('s websocket, oxi_error, message option) sresult" where
  "handle_frame io fr ws =
     (let op = opcode fr; fn = fin fr; p = payload fr;
          data = (op = OpText \<or> op = OpBinary) in
      if op = OpPing then
        sbind (on_stream (write_frame io OpPong p True)) (\<lambda>_. sreturn (Some (MPing p))) ws
      else if op = OpPong then sreturn (Some (MPong p)) ws
      else if op = OpClose then
        sbind (if \<not> close_sent ws then on_stream (write_frame io OpClose p True) else sreturn ()) (\<lambda>_.
        sbind (modify (\<lambda>w. w\<lparr>closed := True\<rparr>)) (\<lambda>_.
        sreturn (Some (MClose (parse_close_frame p))))) ws
      else if data \<and> fn \<and> frag_buf ws = [] then
        sbind (check_size_limit (length p)) (\<lambda>_.
        sbind (lift_result (make_data_message op p)) (\<lambda>m. sreturn (Some m))) ws
      else if data \<and> \<not> fn \<and> frag_buf ws = [] then
        sbind (check_size_limit (length p)) (\<lambda>_.
        sbind (modify (\<lambda>w. w\<lparr>frag_opcode := Some op, frag_buf := frag_buf w @ p\<rparr>)) (\<lambda>_.
        sreturn None)) ws
      else if op = OpContinuation then
        sbind (check_size_limit (length p)) (\<lambda>_.
        sbind (modify (\<lambda>w. w\<lparr>frag_buf := frag_buf w @ p\<rparr>)) (\<lambda>_ w.
          if fn then
            (case frag_opcode w of
               None \<Rightarrow> sthrow (BodyErr ''WebSocket: continuation frame without start frame'') w
             | Some op0 \<Rightarrow>
                 sbind (lift_result (make_data_message op0 (frag_buf w))) (\<lambda>m. sreturn (Some m))
                   (w\<lparr>frag_opcode := None, frag_buf := []\<rparr>))
          else sreturn None w)) ws
      else sthrow (BodyErr ''WebSocket: unexpected frame sequence'') ws)"

definition recv_step :: "'s io \<Rightarrow> ('s websocket, oxi_error, message option) sresult" where
  "recv_step io ws =
     (let frame_cap = max (max_message_size ws) MIN_FRAME_PAYLOAD_CAP in
      case on_stream (read_frame io frame_cap) ws of
        (Inl e, ws') \<Rightarrow> (Inl e, ws'\<lparr>closed := True\<rparr>)
      | (Inr fr, ws') \<Rightarrow> handle_frame io fr ws')"

partial_function (option) recv_loop ::
  "'s io \<Rightarrow> 's websocket \<Rightarrow> (message option oxi_result \<times> 's websocket) option" where
  "recv_loop io ws =
     (case recv_step io ws of
        (Inl e, ws') \<Rightarrow> Some (Inl e, ws')
      | (Inr (Some m), ws') \<Rightarrow> Some (Inr (Some m), ws')
      | (Inr None, ws') \<Rightarrow> recv_loop io ws')"

definition recv :: "'s io \<Rightarrow> 's websocket \<Rightarrow> (message option oxi_result \<times> 's websocket) option" where
  "recv io ws = (if closed ws then Some (Inr None, ws) else recv_loop io ws)"

definition close_payload :: "close_frame option \<Rightarrow> bytes" where
  "close_payload cf =
     (case cf of None \<Rightarrow> [] | Some c \<Rightarrow> nat_to_be 2 (unat (cf_code c)) @ as_bytes (cf_reason c))"

fun send :: "'s io \<Rightarrow> message \<Rightarrow> ('s websocket, oxi_error, unit) sresult" where
  "send io (MText s) ws = on_stream (write_frame io OpText (as_bytes s) True) ws"
| "send io (MBinary b) ws = on_stream (write_frame io OpBinary b True) ws"
| "send io (MPing p) ws = on_stream (write_frame io OpPing p True) ws"
| "send io (MPong p) ws = on_stream (write_frame io OpPong p True) ws"
| "send io (MClose cf) ws =
     sbind (modify (\<lambda>w. w\<lparr>close_sent := True, closed := True\<rparr>)) (\<lambda>_.
     on_stream (write_frame io OpClose (close_payload cf) True)) ws"

partial_function (option) close_drain :: "'s io \<Rightarrow> 's websocket \<Rightarrow> 's websocket option" where
  "close_drain io ws =
     (case recv io ws of
        None \<Rightarrow> None
      | Some (Inr (Some m), ws') \<Rightarrow>
          (case m of MClose _ \<Rightarrow> Some ws' | _ \<Rightarrow> close_drain io ws')
      | Some (_, ws') \<Rightarrow> Some ws')"

definition ws_close :: "'s io \<Rightarrow> u16 \<Rightarrow> string \<Rightarrow> 's websocket \<Rightarrow> (unit oxi_result \<times> 's websocket) option" where
  "ws_close io code reason ws =
     (let p = nat_to_be 2 (unat code) @ as_bytes reason in
      case on_stream (write_frame io OpClose p True) (ws\<lparr>close_sent := True\<rparr>) of
        (Inl e, ws') \<Rightarrow> Some (Inl e, ws')
      | (Inr _, ws') \<Rightarrow> map_option (\<lambda>w. (Inr (), w)) (close_drain io ws'))"

subsection \<open>The upgrade request\<close>

text \<open>
  \<open>hget n\<close> is \<open>headers.get(n).and_then(|v| v.to_str().ok())\<close>. The SHA-1 and Base64 of the
  external crates are the parameters \<open>sha1\<close> and \<open>base64\<close>.
\<close>

definition validate_upgrade_request :: "(string \<Rightarrow> string option) \<Rightarrow> string oxi_result" where
  "validate_upgrade_request hget =
     (case hget ''upgrade'' of
        None \<Rightarrow> Inl (BodyErr ''WebSocket: missing Upgrade header'')
      | Some upgrade \<Rightarrow>
          if \<not> eq_ignore_case upgrade ''websocket'' then
            Inl (BodyErr (''WebSocket: Upgrade header is '' @ [CHR 0x27] @ upgrade @ [CHR 0x27] @
              '', expected '' @ [CHR 0x27] @ ''websocket'' @ [CHR 0x27]))
          else (case hget ''sec-websocket-version'' of
              None \<Rightarrow> Inl (BodyErr ''WebSocket: missing Sec-WebSocket-Version header'')
            | Some version \<Rightarrow>
                if version \<noteq> ''13'' then
                  Inl (BodyErr (''WebSocket: unsupported version '' @ [CHR 0x27] @ version @ [CHR 0x27] @
                    '', only version 13 is supported''))
                else (case hget ''sec-websocket-key'' of
                    None \<Rightarrow> Inl (BodyErr ''WebSocket: missing Sec-WebSocket-Key header'')
                  | Some key \<Rightarrow> Inr key)))"

definition compute_accept_key :: "(bytes \<Rightarrow> bytes) \<Rightarrow> (bytes \<Rightarrow> string) \<Rightarrow> string \<Rightarrow> string" where
  "compute_accept_key sha1 base64 key = base64 (sha1 (as_bytes key @ as_bytes WS_MAGIC))"


subsection \<open>Invariants of the receive path\<close>

text \<open>
  The reassembly buffer never exceeds the limit. A \<open>Vec\<close> holds at most \<open>isize::MAX\<close> bytes,
  so a limit of \<open>usize::MAX\<close> is no limit at all and is set aside (the saturating addition
  of \<open>check_size_limit\<close> could not detect an overflow there).
\<close>

definition ws_inv :: "'s websocket \<Rightarrow> bool" where
  "ws_inv ws \<longleftrightarrow> length (frag_buf ws) \<le> unat (max_message_size ws) \<and>
     unat (max_message_size ws) < usize_max"

lemma on_stream_iff:
  "on_stream m ws = (r, ws') \<longleftrightarrow> (\<exists>s'. m (stream ws) = (r, s') \<and> ws' = ws\<lparr>stream := s'\<rparr>)"
  by (auto simp: on_stream_def split: prod.splits)

lemma modify_iff [simp]: "modify f ws = (r, ws') \<longleftrightarrow> r = Inr () \<and> ws' = f ws"
  by (auto simp: modify_def)

lemma lift_result_iff [simp]: "lift_result r0 ws = (r, ws') \<longleftrightarrow> r = r0 \<and> ws' = ws"
  by (auto simp: lift_result_def)

lemma check_size_limit_Inr:
  assumes "check_size_limit n ws = (Inr u, ws')" and "ws_inv ws"
  shows "ws' = ws \<and> length (frag_buf ws) + n \<le> unat (max_message_size ws)"
  using assms by (auto simp: check_size_limit_def ws_inv_def Let_def split: if_splits)

lemma check_size_limit_Inl:
  "check_size_limit n ws = (Inl e, ws') \<Longrightarrow>
     ws' = ws\<lparr>closed := True, frag_buf := [], frag_opcode := None\<rparr>"
  by (auto simp: check_size_limit_def Let_def split: if_splits)

lemma check_size_limit_ok:
  "length (frag_buf ws) + n \<le> unat (max_message_size ws) \<Longrightarrow> check_size_limit n ws = (Inr (), ws)"
  by (simp add: check_size_limit_def)

text \<open>The cases of \<open>handle_frame\<close> in one elimination rule: what it returns and where it leaves the state.\<close>

lemma handle_frame_None:
  assumes "handle_frame io fr ws = (Inr None, ws')" and inv: "ws_inv ws"
  shows "stream ws' = stream ws" "ws_inv ws'" "max_message_size ws' = max_message_size ws"
    "closed ws' = closed ws" "frag_buf ws' = frag_buf ws @ payload fr"
  using assms(1) check_size_limit_Inr [OF _ inv, of "length (payload fr)"] inv
  by (auto simp: handle_frame_def sbind_Inr Let_def ws_inv_def split: if_splits option.splits)

text \<open>What a received message may be under the limit \<open>mx\<close>: a control message comes from a payload of at most
  125 bytes, also a Close, whose code and reason are what such a payload parses to.\<close>

definition msg_bounded :: "u64 \<Rightarrow> message \<Rightarrow> bool" where
  "msg_bounded mx m =
     (case m of
        MText s \<Rightarrow> length s \<le> unat mx
      | MBinary b \<Rightarrow> length b \<le> unat mx
      | MPing p \<Rightarrow> length p \<le> 125
      | MPong p \<Rightarrow> length p \<le> 125
      | MClose c \<Rightarrow> (\<exists>p. length p \<le> 125 \<and> c = parse_close_frame p))"

lemma make_data_message_bounded:
  "make_data_message op d = Inr m \<Longrightarrow> length d \<le> unat mx \<Longrightarrow> msg_bounded mx m"
  by (auto simp: make_data_message_def msg_bounded_def from_utf8_Inr
      split: opcode.splits sum.splits)

lemma handle_frame_Some:
  assumes "handle_frame io fr ws = (Inr (Some m), ws')" and inv: "ws_inv ws" and "frame_ok cap fr"
  shows "msg_bounded (max_message_size ws) m"
  using assms(1,3) check_size_limit_Inr [OF _ inv, of "length (payload fr)"]
  by (auto simp: handle_frame_def sbind_Inr Let_def frame_ok_def is_control_def
      split: if_splits option.splits intro: make_data_message_bounded)
    (auto simp: msg_bounded_def)

lemma check_size_limit_keeps [keeps_intros]: "keeps ws_inv (check_size_limit n)"
  by (rule keepsI) (auto simp: check_size_limit_def ws_inv_def Let_def split: if_splits)

lemma on_stream_keeps [keeps_intros]: "keeps ws_inv (on_stream m)"
  by (rule keepsI) (auto simp: on_stream_iff ws_inv_def)

lemma handle_frame_keeps: "keeps ws_inv (handle_frame io fr)"
proof (rule keepsI)
  fix ws r ws' assume h: "handle_frame io fr ws = (r, ws')" and inv: "ws_inv ws"
  show "ws_inv ws'"
  proof (cases "r = Inr None")
    case True
    with h inv show ?thesis by (auto dest: handle_frame_None)
  next
    case False
    have cs: "\<And>u w. check_size_limit (length (payload fr)) ws = (Inr u, w) \<Longrightarrow>
        w = ws \<and> length (frag_buf ws) + length (payload fr) \<le> unat (max_message_size ws)"
      using inv by (rule check_size_limit_Inr [rotated])
    show ?thesis
    proof (cases r)
      case (Inl e)
      with h inv show ?thesis
        by (auto simp: handle_frame_def sbind_Inl sbind_Inr Let_def on_stream_iff ws_inv_def
            split: if_splits option.splits dest!: cs check_size_limit_Inl)
    next
      case (Inr m)
      with False h inv show ?thesis
        by (auto simp: handle_frame_def sbind_Inr Let_def on_stream_iff ws_inv_def
            split: if_splits option.splits dest!: cs)
    qed
  qed
qed

subsection \<open>One round of the loop\<close>

definition frame_cap :: "'s websocket \<Rightarrow> u64" where
  "frame_cap ws = max (max_message_size ws) MIN_FRAME_PAYLOAD_CAP"

text \<open>The bytes of a masked frame on the wire.\<close>

definition wire_frame :: "bytes \<Rightarrow> frame \<Rightarrow> bytes" where
  "wire_frame key f =
     client_header (opcode f) (length (payload f)) (fin f) key @ apply_mask key (payload f)"

lemma recv_step_eq:
  "recv_step io ws =
     (case read_frame io (frame_cap ws) (stream ws) of
        (Inl e, s') \<Rightarrow> (Inl e, ws\<lparr>stream := s', closed := True\<rparr>)
      | (Inr fr, s') \<Rightarrow> handle_frame io fr (ws\<lparr>stream := s'\<rparr>))"
  by (simp add: recv_step_def on_stream_def frame_cap_def split: prod.splits sum.splits)

lemma recv_step_keeps: "keeps ws_inv (recv_step io)"
proof (rule keepsI)
  fix ws r ws' assume "recv_step io ws = (r, ws')" and inv: "ws_inv ws"
  then show "ws_inv ws'"
    by (auto simp: recv_step_eq ws_inv_def split: prod.splits sum.splits
        dest!: keepsD [OF handle_frame_keeps])
qed

lemma recv_loop_stop:
  "recv_step io ws = (map_sum id Some r, ws') \<Longrightarrow> recv_loop io ws = Some (map_sum id Some r, ws')"
  by (cases r) (simp_all add: recv_loop.simps [of io ws])

lemma recv_loop_continue:
  "recv_step io ws = (Inr None, ws') \<Longrightarrow> recv_loop io ws = recv_loop io ws'"
  by (simp add: recv_loop.simps [of io ws])

lemma recv_step_None:
  assumes "recv_step io ws = (Inr None, ws')" and "ws_inv ws"
  obtains fr s' where "read_frame io (frame_cap ws) (stream ws) = (Inr fr, s')" "stream ws' = s'"
    "max_message_size ws' = max_message_size ws" "ws_inv ws'" "closed ws' = closed ws"
    "frag_buf ws' = frag_buf ws @ payload fr"
proof -
  from assms(1) obtain fr s' where r: "read_frame io (frame_cap ws) (stream ws) = (Inr fr, s')"
    and h: "handle_frame io fr (ws\<lparr>stream := s'\<rparr>) = (Inr None, ws')"
    by (auto simp: recv_step_eq split: prod.splits sum.splits)
  have "ws_inv (ws\<lparr>stream := s'\<rparr>)" using assms(2) by (simp add: ws_inv_def)
  from handle_frame_None [OF h this] r that show ?thesis by simp
qed

context duplex
begin

lemma read_frame_shrinks:
  assumes "read_frame io mx s = (Inr f, s')" shows "length (rx s') < length (rx s)"
proof -
  from assms obtain b0 b1 ext key body where "rx s = [b0, b1] @ ext @ key @ body @ rx s'"
    by (rule read_frame_Inr)
  then show ?thesis by simp
qed

text \<open>
  The loop ends: a round that continues has taken a frame off the stream, and the peer has
  delivered only finitely many bytes.
\<close>

lemma recv_loop_returns: "ws_inv ws \<Longrightarrow> \<exists>r. recv_loop io ws = Some r"
proof (induction "length (rx (stream ws))" arbitrary: ws rule: less_induct)
  case less
  obtain r ws' where st: "recv_step io ws = (r, ws')" by fastforce
  show ?case
  proof (cases "r = Inr None")
    case True
    with st less.prems obtain fr where
      "read_frame io (frame_cap ws) (stream ws) = (Inr fr, stream ws')" "ws_inv ws'"
      by (auto elim: recv_step_None)
    with less.hyps [of ws'] have "\<exists>r. recv_loop io ws' = Some r"
      by (auto dest: read_frame_shrinks)
    with True st show ?thesis by (simp add: recv_loop.simps [of io ws])
  next
    case False
    with st show ?thesis by (auto simp: recv_loop.simps [of io ws] split: sum.splits option.splits)
  qed
qed

text \<open>
  A property of the loop's outcome follows from the property of one round: every round
  keeps the invariant \<open>I\<close>, and a round that ends the loop from a state with \<open>I\<close>
  establishes \<open>Q\<close>.
\<close>

lemma recv_loop_rule:
  assumes "recv_loop io ws = Some (r, ws')" and "I ws" and "ws_inv ws"
    and cont: "\<And>w w'. I w \<Longrightarrow> ws_inv w \<Longrightarrow> recv_step io w = (Inr None, w') \<Longrightarrow> I w'"
    and stop: "\<And>w r w'. I w \<Longrightarrow> ws_inv w \<Longrightarrow> recv_step io w = (r, w') \<Longrightarrow> r \<noteq> Inr None \<Longrightarrow> Q r w'"
  shows "Q r ws'"
  using assms(1-3)
proof (induction "length (rx (stream ws))" arbitrary: ws rule: less_induct)
  case less
  obtain r1 w1 where st: "recv_step io ws = (r1, w1)" by fastforce
  show ?case
  proof (cases "r1 = Inr None")
    case True
    with st less.prems obtain fr where
      f: "read_frame io (frame_cap ws) (stream ws) = (Inr fr, stream w1)" "ws_inv w1"
      by (auto elim: recv_step_None)
    have "recv_loop io w1 = Some (r, ws')"
      using less.prems(1) True st by (simp add: recv_loop.simps [of io ws])
    moreover have "I w1" using cont [OF less.prems(2,3)] st True by simp
    ultimately show ?thesis using less.hyps [of w1] f by (auto dest: read_frame_shrinks)
  next
    case False
    with st less.prems(1) have "r = r1" "ws' = w1"
      by (auto simp: recv_loop.simps [of io ws] split: sum.splits option.splits)
    with stop [OF less.prems(2,3) st False] show ?thesis by simp
  qed
qed

lemma recv_step_Some_bounded:
  assumes "recv_step io ws = (Inr (Some m), ws')" and inv: "ws_inv ws"
  shows "msg_bounded (max_message_size ws) m"
proof -
  from assms(1) obtain fr s' where r: "read_frame io (frame_cap ws) (stream ws) = (Inr fr, s')"
    and h: "handle_frame io fr (ws\<lparr>stream := s'\<rparr>) = (Inr (Some m), ws')"
    by (auto simp: recv_step_eq split: prod.splits sum.splits)
  from r have "frame_ok (frame_cap ws) fr" by (rule read_frame_Inr)
  moreover have "ws_inv (ws\<lparr>stream := s'\<rparr>)" using inv by (simp add: ws_inv_def)
  ultimately show ?thesis using handle_frame_Some [OF h] by simp
qed

lemma recv_bounded:
  assumes "recv io ws = Some (r, ws')" and inv: "ws_inv ws"
  shows "ws_inv ws' \<and> (\<forall>m. r = Inr (Some m) \<longrightarrow> msg_bounded (max_message_size ws) m)"
proof (cases "closed ws")
  case True
  with assms show ?thesis by (auto simp: recv_def)
next
  case False
  with assms(1) have l: "recv_loop io ws = Some (r, ws')" by (simp add: recv_def)
  show ?thesis
  proof (rule recv_loop_rule [where I = "\<lambda>w. max_message_size w = max_message_size ws"
        and Q = "\<lambda>r w. ws_inv w \<and> (\<forall>m. r = Inr (Some m) \<longrightarrow> msg_bounded (max_message_size ws) m)",
        OF l refl inv])
    fix w w' assume "max_message_size w = max_message_size ws" "ws_inv w" "recv_step io w = (Inr None, w')"
    then show "max_message_size w' = max_message_size ws" by (auto elim: recv_step_None)
  next
    fix w r w' assume m: "max_message_size w = max_message_size ws" and i: "ws_inv w"
      and st: "recv_step io w = (r, w')"
    then show "ws_inv w' \<and> (\<forall>m. r = Inr (Some m) \<longrightarrow> msg_bounded (max_message_size ws) m)"
      using keepsD [OF recv_step_keeps st i] recv_step_Some_bounded [OF _ i] by auto
  qed
qed

lemma recv_returns: "ws_inv ws \<Longrightarrow> \<exists>r. recv io ws = Some r"
  using recv_loop_returns [of ws] by (auto simp: recv_def simp del: split_paired_Ex)

lemma recv_step_frame:
  assumes "rx (stream ws) = wire_frame key f @ t" and "length key = 4" and "frame_ok (frame_cap ws) f"
  obtains s' where "recv_step io ws = handle_frame io f (ws\<lparr>stream := s'\<rparr>)"
    "rx s' = t" "tx s' = tx (stream ws)"
proof -
  obtain s' where "read_frame io (frame_cap ws) (stream ws) = (Inr f, s')" "rx s' = t"
    "tx s' = tx (stream ws)"
    by (rule read_frame_client [of "stream ws" f key t]) (use assms in \<open>auto simp: wire_frame_def\<close>)
  with that show ?thesis by (simp add: recv_step_eq)
qed

end

subsection \<open>Reassembly of a fragmented message\<close>

text \<open>
  A message in the fragments \<open>p # ps\<close>: a first frame with the message's opcode, then
  continuation frames, FIN on the last one. Each fragment comes with its masking key.
\<close>

fun continuation_frames :: "(bytes \<times> bytes) list \<Rightarrow> (bytes \<times> frame) list" where
  "continuation_frames [] = []"
| "continuation_frames ((k, q) # qs) =
     (k, \<lparr>fin = (qs = []), opcode = OpContinuation, payload = q\<rparr>) # continuation_frames qs"

fun fragment_frames :: "opcode \<Rightarrow> (bytes \<times> bytes) list \<Rightarrow> (bytes \<times> frame) list" where
  "fragment_frames op [] = []"
| "fragment_frames op ((k, p) # ps) =
     (k, \<lparr>fin = (ps = []), opcode = op, payload = p\<rparr>) # continuation_frames ps"

definition wire_frames :: "(bytes \<times> frame) list \<Rightarrow> bytes" where
  "wire_frames fs = concat (map (\<lambda>(k, f). wire_frame k f) fs)"

lemma wire_frames_simps [simp]:
  "wire_frames [] = []" "wire_frames ((k, f) # fs) = wire_frame k f @ wire_frames fs"
  by (simp_all add: wire_frames_def)

lemma frame_cap_ge: "unat (max_message_size ws) \<le> unat (frame_cap ws)"
  by (simp add: frame_cap_def word_le_nat_alt [symmetric])

lemma data_frame_ok:
  "\<not> is_control op \<Longrightarrow> length p \<le> unat (max_message_size ws) \<Longrightarrow>
   frame_ok (frame_cap ws) \<lparr>fin = fn, opcode = op, payload = p\<rparr>"
  using frame_cap_ge [of ws] by (simp add: frame_ok_def)

context duplex
begin

lemma recv_continuations:
  assumes "rx (stream ws) = wire_frames (continuation_frames qs) @ t" and "qs \<noteq> []"
    and "\<forall>(k, q) \<in> set qs. length k = 4" and "frag_opcode ws = Some op"
    and "length (frag_buf ws) + length (concat (map snd qs)) \<le> unat (max_message_size ws)"
  shows "\<exists>s'. rx s' = t \<and> tx s' = tx (stream ws) \<and> recv_loop io ws =
    Some (map_sum id Some (make_data_message op (frag_buf ws @ concat (map snd qs))),
          ws\<lparr>stream := s', frag_buf := [], frag_opcode := None\<rparr>)"
  using assms
proof (induction qs arbitrary: ws)
  case (Cons kq qs)
  obtain k q where kq: "kq = (k, q)" by fastforce
  let ?f = "\<lparr>fin = (qs = []), opcode = OpContinuation, payload = q\<rparr>"
  have ok: "frame_ok (frame_cap ws) ?f"
    using Cons.prems(5) by (intro data_frame_ok) (auto simp: kq is_control_def)
  obtain s' where st: "recv_step io ws = handle_frame io ?f (ws\<lparr>stream := s'\<rparr>)"
    and s': "rx s' = wire_frames (continuation_frames qs) @ t" "tx s' = tx (stream ws)"
    by (rule recv_step_frame [of ws k ?f "wire_frames (continuation_frames qs) @ t"])
      (use Cons.prems ok in \<open>auto simp: kq\<close>)
  let ?w = "ws\<lparr>stream := s', frag_buf := frag_buf ws @ q\<rparr>"
  have chk: "check_size_limit (length q) (ws\<lparr>stream := s'\<rparr>) = (Inr (), ws\<lparr>stream := s'\<rparr>)"
    using Cons.prems(5) by (intro check_size_limit_ok) (simp add: kq)
  show ?case
  proof (cases "qs = []")
    case True
    have "recv_step io ws = (map_sum id Some (make_data_message op (frag_buf ws @ q)),
            ?w\<lparr>frag_buf := [], frag_opcode := None\<rparr>)"
      using True Cons.prems(4) by (simp add: st handle_frame_def chk sbind_def
          modify_def lift_result_def sreturn_def split: sum.splits)
    from recv_loop_stop [OF this] True s' show ?thesis by (auto simp: kq id_def intro!: exI [of _ s'])
  next
    case False
    have "recv_step io ws = (Inr None, ?w)"
      using False by (simp add: st handle_frame_def chk sbind_def modify_def sreturn_def)
    then have loop: "recv_loop io ws = recv_loop io ?w" by (rule recv_loop_continue)
    have "\<exists>s'. rx s' = t \<and> tx s' = tx (stream ?w) \<and> recv_loop io ?w =
      Some (map_sum id Some (make_data_message op (frag_buf ?w @ concat (map snd qs))),
            ?w\<lparr>stream := s', frag_buf := [], frag_opcode := None\<rparr>)"
      using Cons.prems False s'(1) by (intro Cons.IH) (auto simp: kq)
    with loop s'(2) show ?thesis by (simp add: kq id_def)
  qed
qed simp

lemma recv_fragmented:
  assumes rx: "rx (stream ws) = wire_frames (fragment_frames op ps) @ t" and ne: "ps \<noteq> []"
    and keys: "\<forall>(k, q) \<in> set ps. length k = 4" and op: "op = OpText \<or> op = OpBinary"
    and idle: "frag_buf ws = []" "frag_opcode ws = None" "\<not> closed ws"
    and len: "length (concat (map snd ps)) \<le> unat (max_message_size ws)"
  shows "\<exists>s'. rx s' = t \<and> tx s' = tx (stream ws) \<and> recv io ws =
    Some (map_sum id Some (make_data_message op (concat (map snd ps))), ws\<lparr>stream := s'\<rparr>)"
proof -
  obtain k p qs where ps: "ps = (k, p) # qs" using ne by (cases ps) auto
  let ?f = "\<lparr>fin = (qs = []), opcode = op, payload = p\<rparr>"
  have ok: "frame_ok (frame_cap ws) ?f"
    using len op by (intro data_frame_ok) (auto simp: ps is_control_def)
  obtain s' where st: "recv_step io ws = handle_frame io ?f (ws\<lparr>stream := s'\<rparr>)"
    and s': "rx s' = wire_frames (continuation_frames qs) @ t" "tx s' = tx (stream ws)"
    by (rule recv_step_frame [of ws k ?f "wire_frames (continuation_frames qs) @ t"])
      (use rx keys ok in \<open>auto simp: ps\<close>)
  have chk: "check_size_limit (length p) (ws\<lparr>stream := s'\<rparr>) = (Inr (), ws\<lparr>stream := s'\<rparr>)"
    using len idle by (intro check_size_limit_ok) (simp add: ps)
  have rl: "recv io ws = recv_loop io ws" using idle by (simp add: recv_def)
  show ?thesis
  proof (cases "qs = []")
    case True
    have "recv_step io ws = (map_sum id Some (make_data_message op p), ws\<lparr>stream := s'\<rparr>)"
      using True op idle by (auto simp: st handle_frame_def chk sbind_def
          lift_result_def sreturn_def split: sum.splits)
    from recv_loop_stop [OF this] True s' show ?thesis by (auto simp: ps rl id_def intro!: exI [of _ s'])
  next
    case False
    let ?w = "ws\<lparr>stream := s', frag_opcode := Some op, frag_buf := p\<rparr>"
    have "recv_step io ws = (Inr None, ?w)"
      using False op idle by (auto simp: st handle_frame_def chk sbind_def modify_def sreturn_def)
    then have loop: "recv io ws = recv_loop io ?w" by (simp add: rl recv_loop_continue)
    have "\<exists>s'. rx s' = t \<and> tx s' = tx (stream ?w) \<and> recv_loop io ?w =
      Some (map_sum id Some (make_data_message op (frag_buf ?w @ concat (map snd qs))),
            ?w\<lparr>stream := s', frag_buf := [], frag_opcode := None\<rparr>)"
      using False s'(1) keys len by (intro recv_continuations) (auto simp: ps)
    moreover have "?w\<lparr>stream := s2, frag_buf := [], frag_opcode := None\<rparr> = ws\<lparr>stream := s2\<rparr>" for s2
      using idle by simp
    ultimately show ?thesis using loop s'(2) by (simp add: ps id_def)
  qed
qed

text \<open>A control frame between fragments is answered and returned; the reassembly state stays.\<close>

lemma recv_ping:
  assumes rx: "rx (stream ws) = wire_frame key \<lparr>fin = True, opcode = OpPing, payload = p\<rparr> @ t"
    and "length key = 4" "length p \<le> 125" "\<not> closed ws"
    and res: "recv io ws = Some (Inr m, ws')"
  shows "m = Some (MPing p) \<and> ws' = ws\<lparr>stream := stream ws'\<rparr> \<and> rx (stream ws') = t \<and>
    tx (stream ws') = tx (stream ws) @ server_header OpPong (length p) True @ p"
proof -
  let ?f = "\<lparr>fin = True, opcode = OpPing, payload = p\<rparr>"
  have "125 \<le> unat (frame_cap ws)"
    by (simp add: frame_cap_def MIN_FRAME_PAYLOAD_CAP_def max_def word_le_nat_alt)
  with assms(3) have "frame_ok (frame_cap ws) ?f" by (simp add: frame_ok_def)
  with assms(1,2) obtain s' where st: "recv_step io ws = handle_frame io ?f (ws\<lparr>stream := s'\<rparr>)"
    and s': "rx s' = t" "tx s' = tx (stream ws)"
    by (rule recv_step_frame)
  have "recv io ws = recv_loop io ws" using assms(4) by (simp add: recv_def)
  with res have "recv_loop io ws = Some (Inr m, ws')" by simp
  then obtain s2 where w: "write_frame io OpPong p True s' = (Inr (), s2)"
    and m: "m = Some (MPing p)" and ws': "ws' = ws\<lparr>stream := s2\<rparr>"
    by (auto simp: recv_loop.simps [of io ws] st handle_frame_def sbind_def on_stream_def sreturn_def
        split: prod.splits sum.splits)
  from write_frame_Inr [OF w] preservesD [OF write_frame_rx w] s' m ws' show ?thesis by simp
qed

lemma handle_frame_rx: "preserves (rx \<circ> stream) (handle_frame io fr)"
proof (rule preservesI)
  fix ws r ws' assume h: "handle_frame io fr ws = (r, ws')"
  show "(rx \<circ> stream) ws' = (rx \<circ> stream) ws"
    using h unfolding handle_frame_def
    by (cases r) (auto simp: sbind_Inr sbind_Inl Let_def on_stream_iff check_size_limit_def
        split: if_splits option.splits dest!: preservesD [OF write_frame_rx])
qed

text \<open>A message that is received has taken at least one frame off the stream.\<close>

lemma recv_step_shrinks:
  assumes "recv_step io ws = (Inr m, ws')"
  shows "length (rx (stream ws')) < length (rx (stream ws))"
proof -
  from assms obtain fr s' where r: "read_frame io (frame_cap ws) (stream ws) = (Inr fr, s')"
    and h: "handle_frame io fr (ws\<lparr>stream := s'\<rparr>) = (Inr m, ws')"
    by (auto simp: recv_step_eq split: prod.splits sum.splits)
  from preservesD [OF handle_frame_rx h] read_frame_shrinks [OF r] show ?thesis by simp
qed

lemma recv_shrinks:
  assumes "recv io ws = Some (Inr (Some m), ws')" and inv: "ws_inv ws"
  shows "length (rx (stream ws')) < length (rx (stream ws))"
proof -
  from assms(1) have l: "recv_loop io ws = Some (Inr (Some m), ws')"
    by (auto simp: recv_def split: if_splits)
  define n where "n = length (rx (stream ws))"
  define Q where "Q = (\<lambda>(r :: message option oxi_result) (w :: 's websocket). \<forall>m. r = Inr (Some m) \<longrightarrow> length (rx (stream w)) < n)"
  have "Q (Inr (Some m)) ws'"
    by (rule recv_loop_rule [where I = "\<lambda>w. length (rx (stream w)) \<le> n" and Q = Q, OF l _ inv])
      (auto simp: Q_def n_def dest: recv_step_shrinks)
  then show ?thesis by (simp add: Q_def n_def)
qed

lemma close_drain_returns: "ws_inv ws \<Longrightarrow> \<exists>w. close_drain io ws = Some w"
proof (induction "length (rx (stream ws))" arbitrary: ws rule: less_induct)
  case less
  obtain r w where rc: "recv io ws = Some (r, w)"
    using recv_returns [OF less.prems] by auto
  show ?case
  proof (cases "\<exists>m. r = Inr (Some m) \<and> (\<forall>c. m \<noteq> MClose c)")
    case True
    then obtain m where m: "r = Inr (Some m)" "\<And>c. m \<noteq> MClose c" by blast
    have "\<exists>w'. close_drain io w = Some w'"
      using less.hyps [of w] recv_shrinks [OF _ less.prems] recv_bounded [OF rc less.prems] rc m(1) by auto
    with rc m show ?thesis
      by (subst close_drain.simps) (auto split: message.splits)
  next
    case False
    with rc show ?thesis
      by (subst close_drain.simps) (auto split: sum.splits option.splits message.splits)
  qed
qed

end

subsection \<open>Properties of a connection\<close>

lemma ws_new_inv: "ws_inv (ws_new s)"
  by (simp add: ws_inv_def ws_new_def DEFAULT_MAX_MESSAGE_SIZE_def usize_max_def)

text \<open>C19. \<open>recv\<close> and \<open>close\<close> return on any transport on which every read ends: with the bytes asked for or,
  once the finitely many bytes of the peer are used up, with an error (end of stream, reset). So
  neither a flood of fragments, empty ones included, nor a flood of messages in reply to the Close
  frame keeps them in their loops, and every message handed out has taken bytes off the stream, so
  that only finitely many come. A peer that stays silent on an open connection is outside this
  claim: the reads have no timeout, so both wait for it. The limit must be below \<open>usize::MAX\<close> and the
  reassembly buffer within it, as \<open>ws_inv\<close> says, which holds of a new connection and is kept.
\<close>

theorem ws_recv_terminates:
  assumes "duplex io rx tx" and "ws_inv ws"
  shows "(\<exists>r. recv io ws = Some r) \<and> (\<exists>r. ws_close io code reason ws = Some r)
    \<and> (\<forall>m ws'. recv io ws = Some (Inr (Some m), ws') \<longrightarrow> length (rx (stream ws')) < length (rx (stream ws)))"
proof (intro conjI allI impI)
  show "length (rx (stream ws')) < length (rx (stream ws))" if "recv io ws = Some (Inr (Some m), ws')" for m ws'
    by (rule duplex.recv_shrinks [OF assms(1) that assms(2)])
  show "\<exists>r. recv io ws = Some r" by (rule duplex.recv_returns [OF assms])
  obtain r w where w: "on_stream (write_frame io OpClose (nat_to_be 2 (unat code) @ as_bytes reason) True)
      (ws\<lparr>close_sent := True\<rparr>) = (r, w)"
    by fastforce
  then have "ws_inv w" using assms(2) by (auto simp: on_stream_iff ws_inv_def)
  from duplex.close_drain_returns [OF assms(1) this] w
  show "\<exists>r. ws_close io code reason ws = Some r"
    by (auto simp: ws_close_def split: sum.splits)
qed

theorem ws_recv_terminates_witness:
  "(\<exists>r. recv mem_io (ws_new (mem_of [0x01, 0x80, 0, 0, 0, 0])) = Some r) \<and>
   (\<exists>r. ws_close mem_io 1000 ''bye'' (ws_new (mem_of [0x01, 0x80, 0, 0, 0, 0])) = Some r)"
  using ws_recv_terminates [OF mem.duplex_axioms ws_new_inv] by blast

text \<open>C6. memory bound. Along any sequence of receives the reassembly buffer stays within
  \<open>max_message_size\<close>, and a returned message is at most that long; a control message comes from a
  payload of at most 125 bytes: a Ping or Pong is that payload, a Close carries the code and reason
  parsed from it. The limit must be below \<open>usize::MAX\<close>, where the saturating addition of the check
  can no longer refuse anything; under such a limit every new connection starts within the bound
  (\<open>ws_inv\<close>).
\<close>

theorem ws_recv_bounded:
  assumes "duplex io rx tx" and "ws_inv ws" and "recv io ws = Some (r, ws')"
  shows "ws_inv ws' \<and> (\<forall>m. r = Inr (Some m) \<longrightarrow> msg_bounded (max_message_size ws) m)
    \<and> (\<forall>mx s. unat mx < usize_max \<longrightarrow> ws_inv (set_max_message_size mx (ws_new s)))"
  using duplex.recv_bounded [OF assms(1,3,2)] by (simp add: ws_inv_def set_max_message_size_def ws_new_def)

lemmas frame_eval = read_frame_def read_ext_len_def read_payload_def sbind_def map_err_def sreturn_def
  sthrow_def mem_io_def mem_read_def mem_write_def opcode_from_u8_def is_control_def apply_mask_def
  write_frame_def server_header_def first_byte_def mem_of_def

lemmas recv_eval = recv_def recv_loop.simps recv_step_def on_stream_def handle_frame_def
  check_size_limit_def modify_def lift_result_def make_data_message_def ws_new_def
  DEFAULT_MAX_MESSAGE_SIZE_def MIN_FRAME_PAYLOAD_CAP_def usize_max_def max_def

theorem ws_recv_bounded_witness:
  "msg_bounded DEFAULT_MAX_MESSAGE_SIZE (MBinary [9, 9])"
proof -
  let ?ws = "ws_new (mem_of [0x82, 0x82, 0, 0, 0, 0, 9, 9])"
  have "recv mem_io ?ws = Some (Inr (Some (MBinary [9, 9])), ?ws\<lparr>stream := mem_of []\<rparr>)"
    by (simp add: recv_eval frame_eval)
  from conjunct1 [OF conjunct2 [OF ws_recv_bounded [OF mem.duplex_axioms ws_new_inv this]]] show ?thesis
    by (simp add: ws_new_def)
qed

text \<open>C1. reassembly. If the stream starts with the frames of a message cut into any number of
  fragments whose total length is within the limit, one \<open>recv\<close> returns the message of the
  concatenated payload (or its UTF-8 error), takes exactly these frames off the stream, writes
  nothing and leaves the connection as it found it.
\<close>

theorem ws_recv_reassembles:
  assumes "duplex io rx tx"
    and "rx (stream ws) = wire_frames (fragment_frames op ps) @ t" and "ps \<noteq> []"
    and "\<forall>(k, q) \<in> set ps. length k = 4" and "op = OpText \<or> op = OpBinary"
    and "frag_buf ws = []" and "frag_opcode ws = None" and "\<not> closed ws"
    and "length (concat (map snd ps)) \<le> unat (max_message_size ws)"
  shows "\<exists>s'. rx s' = t \<and> tx s' = tx (stream ws) \<and> recv io ws =
    Some (map_sum id Some (make_data_message op (concat (map snd ps))), ws\<lparr>stream := s'\<rparr>)"
  by (rule duplex.recv_fragmented [OF assms])

theorem ws_recv_reassembles_witness:
  "\<exists>s'. mem_rx s' = [5] \<and> mem_tx s' = [] \<and>
     recv mem_io (ws_new (mem_of (wire_frames (fragment_frames OpText
        [([1, 2, 3, 4], as_bytes ''he''), ([5, 6, 7, 8], []), ([9, 9, 9, 9], as_bytes ''llo'')]) @ [5]))) =
     Some (Inr (Some (MText ''hello'')), (ws_new s'))"
proof -
  let ?ps = "[([1, 2, 3, 4], as_bytes ''he''), ([5, 6, 7, 8], []), ([9, 9, 9, 9], as_bytes ''llo'')] ::
    (bytes \<times> bytes) list"
  let ?s = "mem_of (wire_frames (fragment_frames OpText ?ps) @ [5])"
  have "is_str ''hello''" by (rule is_str_ascii) auto
  then have "make_data_message OpText (concat (map snd ?ps)) = Inr (MText ''hello'')"
    using from_utf8_as_bytes [of "''hello''"] by (simp add: make_data_message_def as_bytes_def)
  with ws_recv_reassembles [OF mem.duplex_axioms, of "ws_new ?s" OpText ?ps "[5]"]
  show ?thesis by (auto simp: ws_new_def mem_of_def DEFAULT_MAX_MESSAGE_SIZE_def)
qed

text \<open>a Ping, also one that arrives between two fragments, is answered by exactly one Pong
  with the same payload and handed to the caller; the reassembly state is untouched.
\<close>

theorem ws_recv_ping:
  assumes "duplex io rx tx"
    and "rx (stream ws) = wire_frame key \<lparr>fin = True, opcode = OpPing, payload = p\<rparr> @ t"
    and "length key = 4" and "length p \<le> 125" and "\<not> closed ws"
    and "recv io ws = Some (Inr m, ws')"
  shows "m = Some (MPing p) \<and> ws' = ws\<lparr>stream := stream ws'\<rparr> \<and> rx (stream ws') = t \<and>
    tx (stream ws') = tx (stream ws) @ server_header OpPong (length p) True @ p"
  by (rule duplex.recv_ping [OF assms])

theorem ws_recv_ping_witness:
  "mem_tx (stream (snd (the (recv mem_io (ws_new (mem_of
     (wire_frame [0, 0, 0, 0] \<lparr>fin = True, opcode = OpPing, payload = [7]\<rparr>))))))) = [0x8A, 1, 7]"
proof -
  let ?ws = "ws_new (mem_of (wire_frame [0, 0, 0, 0] \<lparr>fin = True, opcode = OpPing, payload = [7]\<rparr>))"
  obtain ws' where r: "recv mem_io ?ws = Some (Inr (Some (MPing [7])), ws')"
    by (simp add: recv_eval frame_eval wire_frame_def client_header_def Let_def)
  from ws_recv_ping [OF mem.duplex_axioms _ _ _ _ r, of "[0, 0, 0, 0]" "[7]" "[]"]
  have "mem_tx (stream ws') = [0x8A, 1, 7]"
    by (simp add: ws_new_def mem_of_def server_header_def first_byte_def)
  with r show ?thesis by simp
qed

text \<open>the closing handshake. On a Close frame \<open>recv\<close> returns the parsed close reason and echoes
  the frame once, unless this side had sent its own Close before; from then on every further
  \<open>recv\<close> is \<open>Ok(None)\<close> and touches nothing.
\<close>

theorem ws_recv_close:
  assumes d: "duplex io rx tx"
    and rx: "rx (stream ws) = wire_frame key \<lparr>fin = True, opcode = OpClose, payload = p\<rparr> @ t"
    and key: "length key = 4" and len: "length p \<le> 125" and op: "\<not> closed ws"
    and res: "recv io ws = Some (Inr m, ws')"
  shows "m = Some (MClose (parse_close_frame p)) \<and> rx (stream ws') = t \<and>
    tx (stream ws') = tx (stream ws) @ (if close_sent ws then [] else server_header OpClose (length p) True @ p) \<and>
    recv io ws' = Some (Inr None, ws')"
proof -
  let ?f = "\<lparr>fin = True, opcode = OpClose, payload = p\<rparr>"
  have "125 \<le> unat (frame_cap ws)"
    by (simp add: frame_cap_def MIN_FRAME_PAYLOAD_CAP_def max_def word_le_nat_alt)
  with len have "frame_ok (frame_cap ws) ?f" by (simp add: frame_ok_def)
  with rx key obtain s' where st: "recv_step io ws = handle_frame io ?f (ws\<lparr>stream := s'\<rparr>)"
    and s': "rx s' = t" "tx s' = tx (stream ws)"
    by (rule duplex.recv_step_frame [OF d])
  from res op have l: "recv_loop io ws = Some (Inr m, ws')" by (simp add: recv_def)
  obtain r w where hr: "handle_frame io ?f (ws\<lparr>stream := s'\<rparr>) = (r, w)" by fastforce
  then have "r \<noteq> Inr None" by (auto simp: handle_frame_def sbind_Inr)
  with l st hr have h: "handle_frame io ?f (ws\<lparr>stream := s'\<rparr>) = (Inr m, ws')"
    by (auto simp: recv_loop.simps [of io ws] split: sum.splits option.splits)
  show ?thesis
  proof (cases "close_sent ws")
    case True
    with h s' show ?thesis
      by (auto simp: handle_frame_def sbind_def modify_def sreturn_def recv_def)
  next
    case False
    with h obtain s2 u where w: "write_frame io OpClose p True s' = (Inr u, s2)"
      and ws': "ws' = ws\<lparr>stream := s2, closed := True\<rparr>" "m = Some (MClose (parse_close_frame p))"
      by (auto simp: handle_frame_def sbind_Inr on_stream_iff)
    from duplex.write_frame_Inr [OF d w] preservesD [OF duplex.write_frame_rx [OF d] w] False s' ws'
    show ?thesis by (simp add: recv_def)
  qed
qed

theorem ws_recv_close_witness:
  "(let ws = ws_new (mem_of (wire_frame [0, 0, 0, 0]
       \<lparr>fin = True, opcode = OpClose, payload = [3, 232]\<rparr>)) in
    \<exists>ws'. recv mem_io ws = Some (Inr (Some (MClose (Some \<lparr>cf_code = 1000, cf_reason = []\<rparr>))), ws') \<and>
          mem_tx (stream ws') = [0x88, 2, 3, 232] \<and> recv mem_io ws' = Some (Inr None, ws'))"
proof -
  let ?ws = "ws_new (mem_of (wire_frame [0, 0, 0, 0] \<lparr>fin = True, opcode = OpClose, payload = [3, 232]\<rparr>))"
  obtain m ws' where r: "recv mem_io ?ws = Some (Inr m, ws')"
    by (simp add: recv_eval frame_eval wire_frame_def client_header_def Let_def)
  from ws_recv_close [OF mem.duplex_axioms _ _ _ _ r, of "[0, 0, 0, 0]" "[3, 232]" "[]"]
  have "m = Some (MClose (parse_close_frame [3, 232]))" "mem_tx (stream ws') = [0x88, 2, 3, 232]"
    "recv mem_io ws' = Some (Inr None, ws')"
    by (simp_all add: ws_new_def mem_of_def server_header_def first_byte_def)
  with r show ?thesis
    by (simp add: parse_close_frame_def be_to_nat_def from_utf8_lossy_def of_bytes_def)
qed

text \<open>how a new data frame inside an unfinished message is treated. Reassembly in progress is
  recognised by a non-empty buffer: after a non-empty first fragment a new Text or Binary frame
  is refused (the connection stays open and the buffer stays as it was), but after an empty
  first fragment it is accepted as a message of its own, and the pending opcode stays behind.
\<close>

theorem ws_fragment_interleaving:
  assumes d: "duplex io rx tx"
    and rx: "rx (stream ws) = wire_frame k1 \<lparr>fin = False, opcode = OpText, payload = q\<rparr> @
                wire_frame k2 \<lparr>fin = True, opcode = OpBinary, payload = p\<rparr> @ t"
    and k: "length k1 = 4" "length k2 = 4"
    and idle: "frag_buf ws = []" "\<not> closed ws"
    and len: "length q + length p \<le> unat (max_message_size ws)"
  shows "\<exists>s'. rx s' = t \<and> tx s' = tx (stream ws) \<and> recv io ws =
    (if q = [] then Some (Inr (Some (MBinary p)), ws\<lparr>stream := s', frag_opcode := Some OpText\<rparr>)
     else Some (Inl (BodyErr ''WebSocket: unexpected frame sequence''),
                ws\<lparr>stream := s', frag_opcode := Some OpText, frag_buf := q\<rparr>))"
proof -
  let ?f1 = "\<lparr>fin = False, opcode = OpText, payload = q\<rparr>"
  let ?f2 = "\<lparr>fin = True, opcode = OpBinary, payload = p\<rparr>"
  have ok1: "frame_ok (frame_cap ws) ?f1"
    using len by (intro data_frame_ok) (auto simp: is_control_def)
  obtain s1 where st1: "recv_step io ws = handle_frame io ?f1 (ws\<lparr>stream := s1\<rparr>)"
    and s1: "rx s1 = wire_frame k2 ?f2 @ t" "tx s1 = tx (stream ws)"
    by (rule duplex.recv_step_frame [OF d rx k(1) ok1])
  let ?w = "ws\<lparr>stream := s1, frag_opcode := Some OpText, frag_buf := q\<rparr>"
  have "check_size_limit (length q) (ws\<lparr>stream := s1\<rparr>) = (Inr (), ws\<lparr>stream := s1\<rparr>)"
    using len idle by (intro check_size_limit_ok) simp
  then have "recv_step io ws = (Inr None, ?w)"
    using idle by (simp add: st1 handle_frame_def sbind_def modify_def sreturn_def)
  with idle have loop: "recv io ws = recv_loop io ?w" by (simp add: recv_def recv_loop_continue)
  have ok2: "frame_ok (frame_cap ?w) ?f2"
    using len by (intro data_frame_ok) (auto simp: is_control_def)
  obtain s2 where st2: "recv_step io ?w = handle_frame io ?f2 (?w\<lparr>stream := s2\<rparr>)"
    and s2: "rx s2 = t" "tx s2 = tx (stream ?w)"
    by (rule duplex.recv_step_frame [OF d _ k(2) ok2, of t]) (use s1 in auto)
  have chk: "check_size_limit (length p) (?w\<lparr>stream := s2\<rparr>) = (Inr (), ?w\<lparr>stream := s2\<rparr>)"
    using len by (intro check_size_limit_ok) simp
  have "recv_step io ?w =
    (if q = [] then (Inr (Some (MBinary p)), ?w\<lparr>stream := s2\<rparr>)
     else (Inl (BodyErr ''WebSocket: unexpected frame sequence''), ?w\<lparr>stream := s2\<rparr>))"
    by (cases "q = []") (use st2 chk in \<open>simp_all add: handle_frame_def sbind_def lift_result_def
        make_data_message_def sreturn_def sthrow_def\<close>)
  with loop s1 s2 idle show ?thesis
    by (auto simp: recv_loop.simps [of io ?w] intro!: exI [of _ s2])
qed

theorem ws_fragment_interleaving_witness:
  "recv mem_io (ws_new (mem_of (wire_frame [0, 0, 0, 0] \<lparr>fin = False, opcode = OpText, payload = []\<rparr> @
      wire_frame [0, 0, 0, 0] \<lparr>fin = True, opcode = OpBinary, payload = [7]\<rparr> @ []))) =
   Some (Inr (Some (MBinary [7])), (ws_new (mem_of []))\<lparr>frag_opcode := Some OpText\<rparr>)"
proof -
  let ?ws = "ws_new (mem_of (wire_frame [0, 0, 0, 0] \<lparr>fin = False, opcode = OpText, payload = []\<rparr> @
      wire_frame [0, 0, 0, 0] \<lparr>fin = True, opcode = OpBinary, payload = [7]\<rparr> @ []))"
  have "mem_rx (stream ?ws) = wire_frame [0, 0, 0, 0] \<lparr>fin = False, opcode = OpText, payload = []\<rparr> @
      wire_frame [0, 0, 0, 0] \<lparr>fin = True, opcode = OpBinary, payload = [7]\<rparr> @ []"
    by (simp add: ws_new_def mem_of_def)
  from ws_fragment_interleaving [OF mem.duplex_axioms this]
  obtain s' where "recv mem_io ?ws =
    Some (Inr (Some (MBinary [7])), ?ws\<lparr>stream := s', frag_opcode := Some OpText\<rparr>)"
    by (auto simp: ws_new_def DEFAULT_MAX_MESSAGE_SIZE_def)
  moreover have "recv mem_io ?ws = Some (Inr (Some (MBinary [7])), (ws_new (mem_of []))\<lparr>frag_opcode := Some OpText\<rparr>)"
    by (simp add: recv_eval frame_eval wire_frame_def client_header_def Let_def)
  ultimately show ?thesis by simp
qed

text \<open>the upgrade check accepts exactly the requests with an \<open>Upgrade\<close> header that is
  \<open>websocket\<close> in any case, version 13 and some key, and then returns that key as it stands,
  the empty key included.
\<close>

theorem validate_upgrade_iff:
  "validate_upgrade_request hget = Inr key \<longleftrightarrow>
     (\<exists>u. hget ''upgrade'' = Some u \<and> eq_ignore_case u ''websocket'') \<and>
     hget ''sec-websocket-version'' = Some ''13'' \<and> hget ''sec-websocket-key'' = Some key"
  by (auto simp: validate_upgrade_request_def split: option.splits if_splits)

end
