(* ===== verification/HttpDate.thy ===== *)
theory HttpDate
  imports Numbers
begin

section \<open>HTTP dates (oxihttp-server static_files.rs)\<close>

text \<open>
  Parsing of the three HTTP-date formats, conversion between civil dates and days since the
  Unix epoch, and the IMF-fixdate printer. \<open>u32\<close> and \<open>u64\<close> values are \<open>nat\<close> with the
  width in the parser; the addition that can leave \<open>u32\<close> (the two-digit year) is reduced modulo
  \<open>2 ^ 32\<close> as a release build does. \<open>i64\<close> values are \<open>int\<close>: the largest intermediate value,
  from a year below \<open>2 ^ 32\<close>, stays far below \<open>2 ^ 63\<close>. Division of the source is on
  non-negative operands or \<open>div_euclid\<close>, so it is \<open>div\<close>.
\<close>

subsection \<open>Definitions\<close>

definition parse_month :: "string \<Rightarrow> nat option" where
  "parse_month s =
     (if s = ''Jan'' then Some 1 else if s = ''Feb'' then Some 2 else if s = ''Mar'' then Some 3
      else if s = ''Apr'' then Some 4 else if s = ''May'' then Some 5 else if s = ''Jun'' then Some 6
      else if s = ''Jul'' then Some 7 else if s = ''Aug'' then Some 8 else if s = ''Sep'' then Some 9
      else if s = ''Oct'' then Some 10 else if s = ''Nov'' then Some 11 else if s = ''Dec'' then Some 12
      else None)"

definition days_since_epoch :: "int \<Rightarrow> int \<Rightarrow> int \<Rightarrow> int option" where
  "days_since_epoch year month day =
     (let m = (if month \<le> 2 then month + 9 else month - 3);
          y = (if month \<le> 2 then year - 1 else year);
          era = y div 400;
          yoe = y mod 400;
          doy = (153 * m + 2) div 5 + day - 1;
          doe = yoe * 365 + yoe div 4 - yoe div 100 + doy;
          result = era * 146097 + doe - 719468
      in if result < 0 then None else Some result)"

definition date_to_unix :: "nat \<Rightarrow> nat \<Rightarrow> nat \<Rightarrow> nat \<Rightarrow> nat \<Rightarrow> nat \<Rightarrow> nat option" where
  "date_to_unix year month day hour mins secn =
     (if \<not> (1 \<le> month \<and> month \<le> 12) \<or> \<not> (1 \<le> day \<and> day \<le> 31) \<or> year < 1970 then None
      else (case days_since_epoch (int year) (int month) (int day) of
          None \<Rightarrow> None
        | Some days \<Rightarrow> Some (nat days * 86400 + hour * 3600 + mins * 60 + secn)))"

text \<open>The \<open>HH:MM:SS\<close> field, read the same way in all three formats.\<close>

definition parse_time :: "string \<Rightarrow> (nat \<times> nat \<times> nat) option" where
  "parse_time s =
     (case split_on CHR '':'' s of
        [h, m, sc] \<Rightarrow> Option.bind (parse_u32 h) (\<lambda>hour.
                     Option.bind (parse_u32 m) (\<lambda>mins.
                     Option.bind (parse_u32 sc) (\<lambda>secn. Some (hour, mins, secn))))
      | _ \<Rightarrow> None)"

definition parse_imf_fixdate :: "string \<Rightarrow> nat option" where
  "parse_imf_fixdate s =
     Option.bind (split_once_str '', '' s) (\<lambda>(_, rest).
       case split_ws rest of
         [d, mo, y, t, z] \<Rightarrow>
           if z \<noteq> ''GMT'' then None
           else Option.bind (parse_u32 d) (\<lambda>day.
                Option.bind (parse_month mo) (\<lambda>month.
                Option.bind (parse_u32 y) (\<lambda>year.
                Option.bind (parse_time t) (\<lambda>(hour, mins, secn).
                date_to_unix year month day hour mins secn))))
       | _ \<Rightarrow> None)"

definition rfc850_year :: "nat \<Rightarrow> nat" where
  "rfc850_year yy = (if yy < 70 then 2000 + yy else (1900 + yy) mod 2 ^ 32)"

definition parse_rfc850_date :: "string \<Rightarrow> nat option" where
  "parse_rfc850_date s =
     Option.bind (split_once_str '', '' s) (\<lambda>(_, rest).
     Option.bind (split_once CHR '' '' rest) (\<lambda>(date_part, time_tz).
       case split_on CHR ''-'' date_part of
         [d, mo, y] \<Rightarrow>
           Option.bind (parse_u32 d) (\<lambda>day.
           Option.bind (parse_month mo) (\<lambda>month.
           Option.bind (parse_u32 y) (\<lambda>yy.
           Option.bind (rsplit_once CHR '' '' time_tz) (\<lambda>(time_part, tz).
             if tz \<noteq> ''GMT'' then None
             else Option.bind (parse_time time_part) (\<lambda>(hour, mins, secn).
               date_to_unix (rfc850_year yy) month day hour mins secn)))))
       | _ \<Rightarrow> None))"

definition parse_asctime :: "string \<Rightarrow> nat option" where
  "parse_asctime s =
     (case split_ws s of
        [_, mo, d, t, y] \<Rightarrow>
          Option.bind (parse_month mo) (\<lambda>month.
          Option.bind (parse_u32 d) (\<lambda>day.
          Option.bind (parse_time t) (\<lambda>(hour, mins, secn).
          Option.bind (parse_u32 y) (\<lambda>year.
          date_to_unix year month day hour mins secn))))
      | _ \<Rightarrow> None)"

definition parse_http_date :: "string \<Rightarrow> nat option" where
  "parse_http_date s0 =
     (let s = trim s0 in
      case parse_imf_fixdate s of Some u \<Rightarrow> Some u
      | None \<Rightarrow> (case parse_rfc850_date s of Some u \<Rightarrow> Some u
      | None \<Rightarrow> (case parse_asctime s of Some u \<Rightarrow> Some u | None \<Rightarrow> None)))"

definition unix_days_to_civil :: "int \<Rightarrow> int \<times> int \<times> int" where
  "unix_days_to_civil days =
     (let z = days + 719468;
          era = z div 146097;
          doe = z mod 146097;
          yoe = (doe - doe div 1460 + doe div 36524 - doe div 146096) div 365;
          y = yoe + era * 400;
          doy = doe - (365 * yoe + yoe div 4 - yoe div 100);
          mp = (5 * doy + 2) div 153;
          d = doy - (153 * mp + 2) div 5 + 1;
          m = (if mp < 10 then mp + 3 else mp - 9);
          y = (if m \<le> 2 then y + 1 else y)
      in (y, m, d))"

definition dow_names :: "string list" where
  "dow_names = [''Sun'', ''Mon'', ''Tue'', ''Wed'', ''Thu'', ''Fri'', ''Sat'']"

definition month_names :: "string list" where
  "month_names = ['''', ''Jan'', ''Feb'', ''Mar'', ''Apr'', ''May'', ''Jun'', ''Jul'', ''Aug'',
     ''Sep'', ''Oct'', ''Nov'', ''Dec'']"

text \<open>\<open>{:0k}\<close> of an \<open>i64\<close>: the sign counts towards the width.\<close>

definition show_int_pad :: "nat \<Rightarrow> int \<Rightarrow> string" where
  "show_int_pad k i =
     (if i < 0 then CHR ''-'' # pad_left (k - 1) (show_nat (nat (- i))) else pad_left k (show_nat (nat i)))"

text \<open>The cast \<open>secs as i64\<close>.\<close>

definition as_i64 :: "nat \<Rightarrow> int" where
  "as_i64 n = (if n < 2 ^ 63 then int n else int n - 2 ^ 64)"

definition format_http_date :: "nat \<Rightarrow> string" where
  "format_http_date secs0 =
     (let secs = as_i64 secs0;
          days = secs div 86400;
          time_of_day = secs mod 86400;
          hour = time_of_day div 3600;
          mins = (time_of_day mod 3600) div 60;
          secn = time_of_day mod 60;
          dow = nat ((days + 4) mod 7)
      in case unix_days_to_civil days of (year, month, day) \<Rightarrow>
        dow_names ! dow @ '', '' @ show_int_pad 2 day @ '' '' @ month_names ! nat month @ '' '' @
        show_int_pad 4 year @ '' '' @ show_int_pad 2 hour @ '':'' @ show_int_pad 2 mins @ '':'' @
        show_int_pad 2 secn @ '' GMT'')"

subsection \<open>Civil dates and days\<close>

text \<open>
  The year of the era: for a day of a 400-year era the formula of the source finds the year
  in which that day falls. The century is fixed first, then the year within it.
\<close>

lemma century:
  fixes doe a b q :: int
  assumes "36524 * b \<le> doe" "doe < 36524 * b + 36524" "0 \<le> b" "b \<le> 3"
    and "1460 * a \<le> doe" "doe < 1460 * a + 1460"
    and "365 * q \<le> doe - a + b" "doe - a + b < 365 * q + 365"
  shows "100 * b \<le> q" "q < 100 * b + 100"
  using assms by linarith+

lemma in_century:
  fixes doe a b q q4 :: int
  assumes "36524 * b \<le> doe" "doe < 36524 * b + 36524" "0 \<le> b" "b \<le> 3"
    and "1460 * a \<le> doe" "doe < 1460 * a + 1460"
    and "365 * q \<le> doe - a + b" "doe - a + b < 365 * q + 365"
    and "4 * q4 \<le> q" "q < 4 * q4 + 4" and "0 \<le> doe"
  shows "365 * q + q4 - b \<le> doe" "doe \<le> 365 * q + q4 - b + 365"
proof -
  show "365 * q + q4 - b \<le> doe"
  proof (rule ccontr)
    assume "\<not> 365 * q + q4 - b \<le> doe"
    then have "a \<le> q4 - 1" using assms by linarith
    then have "a \<le> b - 1" using assms by linarith
    then show False using assms by linarith
  qed
  show "doe \<le> 365 * q + q4 - b + 365"
  proof (rule ccontr)
    assume "\<not> doe \<le> 365 * q + q4 - b + 365"
    then have "q4 + 2 \<le> a" using assms by linarith
    then show False using assms by linarith
  qed
qed
lemma yoe_bounds:
  fixes doe :: int
  assumes "0 \<le> doe" and "doe \<le> 146096"
  defines "yoe \<equiv> (doe - doe div 1460 + doe div 36524 - doe div 146096) div 365"
  defines "doy \<equiv> doe - (365 * yoe + yoe div 4 - yoe div 100)"
  shows "0 \<le> yoe \<and> yoe \<le> 399 \<and> 0 \<le> doy \<and> doy \<le> 365"
proof (cases "doe = 146096")
  case True
  then show ?thesis by (simp add: yoe_def doy_def)
next
  case False
  define b where "b = doe div 36524"
  define a where "a = doe div 1460"
  define q4 where "q4 = yoe div 4"
  have b: "36524 * b \<le> doe" "doe < 36524 * b + 36524" unfolding b_def by auto
  have a: "1460 * a \<le> doe" "doe < 1460 * a + 1460" unfolding a_def by auto
  from b False assms(1,2) have b03: "0 \<le> b" "b \<le> 3" by linarith+
  have "doe div 146096 = 0" using False assms(1,2) by (simp add: div_pos_pos_trivial)
  then have "yoe = (doe - a + b) div 365" by (simp add: yoe_def a_def b_def)
  then have q: "365 * yoe \<le> doe - a + b" "doe - a + b < 365 * yoe + 365" by auto
  have q4: "4 * q4 \<le> yoe" "yoe < 4 * q4 + 4" unfolding q4_def by auto
  note c = century [OF b b03 a q]
  have "yoe div 100 = b" using c by linarith
  with in_century [OF b b03 a q q4 assms(1)] c b03 show ?thesis
    by (auto simp: doy_def q4_def [symmetric])
qed
text \<open>Day of the year to month and day: \<open>mp\<close> counts the months from March.\<close>

lemma month_bounds:
  fixes doy :: int
  assumes "0 \<le> doy" and "doy \<le> 365"
  defines "mp \<equiv> (5 * doy + 2) div 153"
  defines "d \<equiv> doy - (153 * mp + 2) div 5 + 1"
  shows "0 \<le> mp \<and> mp \<le> 11 \<and> 1 \<le> d \<and> d \<le> 31"
proof -
  define x where "x = (153 * mp + 2) div 5"
  have "153 * mp \<le> 5 * doy + 2" "5 * doy + 2 < 153 * mp + 153" unfolding mp_def by auto
  moreover have "5 * x \<le> 153 * mp + 2" "153 * mp + 2 < 5 * x + 5" unfolding x_def by auto
  moreover have "d = doy - x + 1" by (simp add: d_def x_def)
  ultimately show ?thesis using assms(1,2) by (intro conjI; linarith)
qed

text \<open>The conversion to a civil date, with its intermediate values named and bounded.\<close>

lemma civil_parts:
  obtains era doe yoe doy mp d where
    "days + 719468 = 146097 * era + doe" "0 \<le> doe" "doe \<le> 146096"
    "0 \<le> yoe" "yoe \<le> 399" "doy = doe - (365 * yoe + yoe div 4 - yoe div 100)" "0 \<le> doy" "doy \<le> 365"
    "0 \<le> mp" "mp \<le> 11" "1 \<le> d" "d \<le> 31" "doy = (153 * mp + 2) div 5 + d - 1"
    "mp = (5 * doy + 2) div 153"
    "unix_days_to_civil days =
       (yoe + era * 400 + (if mp < 10 then 0 else 1), if mp < 10 then mp + 3 else mp - 9, d)"
proof -
  define z where "z = days + 719468"
  define era where "era = z div 146097"
  define doe where "doe = z mod 146097"
  define yoe where "yoe = (doe - doe div 1460 + doe div 36524 - doe div 146096) div 365"
  define doy where "doy = doe - (365 * yoe + yoe div 4 - yoe div 100)"
  define mp where "mp = (5 * doy + 2) div 153"
  define d where "d = doy - (153 * mp + 2) div 5 + 1"
  have doe: "0 \<le> doe" "doe \<le> 146096"
    using pos_mod_bound [of 146097 z] pos_mod_sign [of 146097 z] unfolding doe_def by linarith+
  have z: "days + 719468 = 146097 * era + doe"
    unfolding era_def doe_def z_def [symmetric] by simp
  have yoe: "0 \<le> yoe \<and> yoe \<le> 399 \<and> 0 \<le> doy \<and> doy \<le> 365"
    unfolding doy_def yoe_def by (rule yoe_bounds [OF doe])
  have mp: "0 \<le> mp \<and> mp \<le> 11 \<and> 1 \<le> d \<and> d \<le> 31"
    unfolding d_def mp_def using yoe by (intro month_bounds) auto
  have "unix_days_to_civil days =
      (if (if mp < 10 then mp + 3 else mp - 9) \<le> 2 then yoe + era * 400 + 1 else yoe + era * 400,
       if mp < 10 then mp + 3 else mp - 9, d)"
    unfolding unix_days_to_civil_def Let_def d_def mp_def doy_def yoe_def doe_def era_def z_def
    by (rule refl)
  moreover have "(if (if mp < 10 then mp + 3 else mp - 9) \<le> 2 then yoe + era * 400 + 1 else yoe + era * 400) =
      yoe + era * 400 + (if mp < 10 then 0 else 1)"
    using mp by simp
  ultimately have "unix_days_to_civil days =
       (yoe + era * 400 + (if mp < 10 then 0 else 1), if mp < 10 then mp + 3 else mp - 9, d)"
    by simp
  note civil = this
  have dd: "doy = (153 * mp + 2) div 5 + d - 1" unfolding d_def by simp
  show ?thesis
    by (rule that [OF z doe yoe [THEN conjunct1] yoe [THEN conjunct2, THEN conjunct1] doy_def
          yoe [THEN conjunct2, THEN conjunct2, THEN conjunct1]
          yoe [THEN conjunct2, THEN conjunct2, THEN conjunct2] mp [THEN conjunct1]
          mp [THEN conjunct2, THEN conjunct1] mp [THEN conjunct2, THEN conjunct2, THEN conjunct1]
          mp [THEN conjunct2, THEN conjunct2, THEN conjunct2] dd mp_def civil])
qed

lemma civil_ranges:
  assumes "unix_days_to_civil days = (y, m, d)"
  shows "1 \<le> m \<and> m \<le> 12 \<and> 1 \<le> d \<and> d \<le> 31"
proof -
  obtain yr mp d' where *: "(0::int) \<le> mp" "mp \<le> 11" "1 \<le> d'" "d' \<le> 31"
    "unix_days_to_civil days = (yr, if mp < 10 then mp + 3 else mp - 9, d')"
    by (rule civil_parts [of days]) blast
  then show ?thesis using assms by (cases "mp < 10") auto
qed

lemma civil_year:
  assumes "unix_days_to_civil days = (y, m, d)" and "0 \<le> days" and "days < 2 ^ 40"
  shows "1970 \<le> y \<and> y < 2 ^ 32"
proof -
  obtain era doe yoe doy mp d' where *:
    "days + 719468 = 146097 * era + doe" "0 \<le> doe" "doe \<le> 146096"
    "0 \<le> yoe" "yoe \<le> 399" "doy = doe - (365 * yoe + yoe div 4 - yoe div 100)" "0 \<le> doy" "doy \<le> 365"
    "0 \<le> mp" "mp \<le> 11" "1 \<le> d'" "d' \<le> 31" "doy = (153 * mp + 2) div 5 + d' - 1"
    "mp = (5 * doy + 2) div 153"
    "unix_days_to_civil days =
       (yoe + era * 400 + (if mp < 10 then 0 else 1), if mp < 10 then mp + 3 else mp - 9, d')"
    by (rule civil_parts)
  have y: "y = yoe + era * 400 + (if mp < 10 then 0 else 1)" using *(15) assms(1) by simp
  define x where "x = (153 * mp + 2) div 5"
  define q4 where "q4 = yoe div 4"
  define q100 where "q100 = yoe div 100"
  have q: "4 * q4 \<le> yoe" "100 * q100 \<le> yoe" "yoe < 100 * q100 + 100" "yoe < 4 * q4 + 4"
    unfolding q4_def q100_def by auto
  have x: "5 * x \<le> 153 * mp + 2" "153 * mp + 2 < 5 * x + 5" unfolding x_def by auto
  have doe: "doe = 365 * yoe + q4 - q100 + doy" using *(6) by (simp add: q4_def q100_def)
  have doy: "doy = x + d' - 1" using *(13) by (simp add: x_def)
  have era: "4 \<le> era" using *(1,3) assms(2) by linarith
  have "1970 \<le> y"
  proof (rule ccontr)
    assume "\<not> 1970 \<le> y"
    then have le: "y \<le> 1969" by simp
    then have e4: "era = 4" using era y *(4) by (simp split: if_splits)
    have "719468 \<le> 584388 + doe" using *(1) assms(2) e4 by simp
    then have doe2: "135080 \<le> doe" by simp
    have "yoe \<le> 369" using le y e4 by (simp split: if_splits)
    moreover have "mp < 10 \<or> yoe \<le> 368" using le y e4 by (auto split: if_splits)
    moreover have "mp < 10 \<Longrightarrow> doy \<le> 305" using doy x *(12) by linarith
    moreover have "q4 \<le> 92" "q100 = 3 \<or> yoe < 300" using q calculation(1) by linarith+
    ultimately show False using doe doe2 q *(8) by linarith
  qed
  moreover have "era < 10000000" using *(1,2) assms(3) by simp
  then have "y < 2 ^ 32" using y *(5) by (simp split: if_splits)
  ultimately show ?thesis by simp
qed

text \<open>Going to the civil date and back is the identity.\<close>

lemma days_civil_days:
  assumes "unix_days_to_civil days = (y, m, d)" and "0 \<le> days"
  shows "days_since_epoch y m d = Some days"
proof -
  obtain era doe yoe doy mp d' where *:
    "days + 719468 = 146097 * era + doe" "0 \<le> doe" "doe \<le> 146096"
    "0 \<le> yoe" "yoe \<le> 399" "doy = doe - (365 * yoe + yoe div 4 - yoe div 100)" "0 \<le> doy" "doy \<le> 365"
    "0 \<le> mp" "mp \<le> 11" "1 \<le> d'" "d' \<le> 31" "doy = (153 * mp + 2) div 5 + d' - 1"
    "mp = (5 * doy + 2) div 153"
    "unix_days_to_civil days =
       (yoe + era * 400 + (if mp < 10 then 0 else 1), if mp < 10 then mp + 3 else mp - 9, d')"
    by (rule civil_parts)
  have mm: "(if m \<le> 2 then m + 9 else m - 3) = mp"
    and yy: "(if m \<le> 2 then y - 1 else y) = yoe + era * 400" and d: "d = d'"
    using *(9,10,15) assms(1) by (auto split: if_splits)
  have q: "(yoe + era * 400) div 400 = era" "(yoe + era * 400) mod 400 = yoe"
    using *(4,5) by auto
  have "era * 146097 + (yoe * 365 + yoe div 4 - yoe div 100 + ((153 * mp + 2) div 5 + d' - 1)) - 719468 = days"
    using *(1,6,13) by linarith
  then show ?thesis
    unfolding days_since_epoch_def Let_def mm yy q d using assms(2) by simp
qed

subsection \<open>Printing and parsing\<close>

text \<open>A word of the printed date: not empty and without white space, comma or colon.\<close>

definition plain_word :: "string \<Rightarrow> bool" where
  "plain_word w \<longleftrightarrow> w \<noteq> [] \<and> (\<forall>c \<in> set w. \<not> is_ws c \<and> c \<noteq> CHR '','' \<and> c \<noteq> CHR '':'')"

lemma plain_num: "plain_word (pad_left k (show_nat n))"
  unfolding plain_word_def
proof (intro conjI ballI)
  show "pad_left k (show_nat n) \<noteq> []" by (simp add: pad_left_nonempty)
  fix c assume "c \<in> set (pad_left k (show_nat n))"
  then have d: "is_digit c" by (rule pad_left_digits) (auto intro: show_nat_digits)
  then show "\<not> is_ws c" by (rule is_digit_not_ws)
  show "c \<noteq> CHR '',''" "c \<noteq> CHR '':''" using d by (auto simp: is_digit_def)
qed

lemma plain_names:
  "w \<in> set dow_names \<Longrightarrow> plain_word w" "w \<in> set month_names \<Longrightarrow> w \<noteq> [] \<Longrightarrow> plain_word w"
  by (auto simp: plain_word_def dow_names_def month_names_def is_ws_def)

lemma split_once_str_comma:
  "CHR '','' \<notin> set a \<Longrightarrow> split_once_str '', '' (a @ '', '' @ b) = Some (a, b)"
  by (induction a) (auto simp: starts_with_def)

lemma month_name_index:
  assumes "1 \<le> m" and "m \<le> 12"
  shows "parse_month (month_names ! m) = Some m \<and> month_names ! m \<in> set month_names
    \<and> month_names ! m \<noteq> []"
proof -
  have "m \<in> {1, 2, 3, 4, 5, 6, 7, 8, 9, 10, 11, 12}"
    using assms unfolding insert_iff empty_iff by presburger
  then show ?thesis by (elim insertE) (auto simp: parse_month_def month_names_def)
qed

lemma parse_time_printed:
  assumes "h < 2 ^ 32" and "m < 2 ^ 32" and "s < 2 ^ 32"
  shows "parse_time (pad_left k (show_nat h) @ '':'' @ pad_left k (show_nat m) @ '':'' @
    pad_left k (show_nat s)) = Some (h, m, s)"
proof -
  have no: "CHR '':'' \<notin> set (pad_left k (show_nat n))" for n
    using plain_num [of k n] by (auto simp: plain_word_def)
  show ?thesis
    by (simp add: parse_time_def split_on_append split_on_id no parse_radix_pad_left [OF assms(1)]
        parse_radix_pad_left [OF assms(2)] parse_radix_pad_left [OF assms(3)])
qed

lemma plain_time:
  "pad_left k (show_nat h) @ '':'' @ pad_left k (show_nat m) @ '':'' @ pad_left k (show_nat s) \<noteq> []"
  "c \<in> set (pad_left k (show_nat h) @ '':'' @ pad_left k (show_nat m) @ '':'' @
    pad_left k (show_nat s)) \<Longrightarrow> \<not> is_ws c"
proof -
  have colon: "\<not> is_ws CHR '':''" by (simp add: is_ws_def)
  show "pad_left k (show_nat h) @ '':'' @ pad_left k (show_nat m) @ '':'' @ pad_left k (show_nat s) \<noteq> []"
    by simp
  assume "c \<in> set (pad_left k (show_nat h) @ '':'' @ pad_left k (show_nat m) @ '':'' @
    pad_left k (show_nat s))"
  then consider "c \<in> set (pad_left k (show_nat h))" | "c = CHR '':''"
    | "c \<in> set (pad_left k (show_nat m))" | "c \<in> set (pad_left k (show_nat s))"
    unfolding set_append Un_iff by auto
  then show "\<not> is_ws c"
    using plain_num [of k h] plain_num [of k m] plain_num [of k s] colon
    unfolding plain_word_def by cases blast+
qed

text \<open>An IMF-fixdate printed from in-range fields is read back to the same fields.\<close>

lemma parse_imf_printed:
  assumes dow: "dow \<in> set dow_names" and m: "1 \<le> month" "month \<le> 12"
    and b: "day < 2 ^ 32" "year < 2 ^ 32" "h < 2 ^ 32" "mi < 2 ^ 32" "se < 2 ^ 32"
  defines "t \<equiv> pad_left 2 (show_nat h) @ '':'' @ pad_left 2 (show_nat mi) @ '':'' @ pad_left 2 (show_nat se)"
  shows "parse_imf_fixdate (dow @ '', '' @ pad_left 2 (show_nat day) @ '' '' @ month_names ! month @ '' '' @
      pad_left 4 (show_nat year) @ '' '' @ t @ '' GMT'') = date_to_unix year month day h mi se"
proof -
  note mn = month_name_index [OF m]
  have w: "\<And>n. pad_left k (show_nat n) \<noteq> []" "\<And>n c. c \<in> set (pad_left k (show_nat n)) \<Longrightarrow> \<not> is_ws c" for k
    using plain_num [of k] by (auto simp: plain_word_def)
  have pm: "plain_word (month_names ! month)" using mn plain_names(2) by blast
  then have wm: "month_names ! month \<noteq> []" "\<And>c. c \<in> set (month_names ! month) \<Longrightarrow> \<not> is_ws c"
    by (auto simp: plain_word_def)
  have wt: "t \<noteq> []" "\<And>c. c \<in> set t \<Longrightarrow> \<not> is_ws c"
    unfolding t_def by (rule plain_time(1), rule plain_time(2))
  have gmt: "split_ws ''GMT'' = [''GMT'']" by (simp add: split_ws_def is_ws_def)
  have comma: "CHR '','' \<notin> set dow" using plain_names(1) [OF dow] by (auto simp: plain_word_def)
  have words: "split_ws (pad_left 2 (show_nat day) @ CHR '' '' # month_names ! month @ CHR '' '' #
      pad_left 4 (show_nat year) @ CHR '' '' # t @ CHR '' '' # ''GMT'')
    = [pad_left 2 (show_nat day), month_names ! month, pad_left 4 (show_nat year), t, ''GMT'']"
    by (simp only: split_ws_cons [OF w] split_ws_cons [OF wm] split_ws_cons [OF wt] gmt)
  have time: "parse_time t = Some (h, mi, se)"
    unfolding t_def by (rule parse_time_printed [OF b(3-5)])
  show ?thesis
    unfolding parse_imf_fixdate_def split_once_str_comma [OF comma]
    using words mn
    by (simp add: time parse_radix_pad_left [OF b(1)] parse_radix_pad_left [OF b(2)])
qed

lemma trim_printed:
  assumes "plain_word w" shows "trim (w @ s @ '' GMT'') = w @ s @ '' GMT''"
  unfolding trim_def
proof (rule trim_by_id)
  have "\<not> is_ws (hd w)" and "w \<noteq> []" using assms by (auto simp: plain_word_def)
  then show "\<not> is_ws (hd (w @ s @ '' GMT'')) \<and> \<not> is_ws (last (w @ s @ '' GMT''))"
    by (simp add: is_ws_def)
qed

lemma date_to_unix_civil:
  assumes civil: "unix_days_to_civil days = (y, m, d)" and days: "0 \<le> days" "days < 2 ^ 40"
  shows "date_to_unix (nat y) (nat m) (nat d) h mi se = Some (nat days * 86400 + h * 3600 + mi * 60 + se)"
proof -
  note r = civil_ranges [OF civil] and y = civil_year [OF civil days]
  have "1 \<le> nat m \<and> nat m \<le> 12 \<and> 1 \<le> nat d \<and> nat d \<le> 31 \<and> 1970 \<le> nat y"
    using r y by auto
  moreover have "int (nat y) = y" "int (nat m) = m" "int (nat d) = d" using r y by auto
  ultimately show ?thesis
    unfolding date_to_unix_def using days_civil_days [OF civil days(1)] by simp
qed

text \<open>The printed date in terms of its fields.\<close>

lemma format_http_date_fields:
  assumes "secs < 2 ^ 56"
  obtains y m d dow where
    "unix_days_to_civil (int secs div 86400) = (y, m, d)" "dow \<in> set dow_names"
    "format_http_date secs = dow @ '', '' @ pad_left 2 (show_nat (nat d)) @ '' '' @
      month_names ! nat m @ '' '' @ pad_left 4 (show_nat (nat y)) @ '' '' @
      (pad_left 2 (show_nat (secs mod 86400 div 3600)) @ '':'' @
       pad_left 2 (show_nat (secs mod 86400 mod 3600 div 60)) @ '':'' @
       pad_left 2 (show_nat (secs mod 86400 mod 60))) @ '' GMT''"
proof -
  obtain y m d where civil: "unix_days_to_civil (int secs div 86400) = (y, m, d)"
    by (cases "unix_days_to_civil (int secs div 86400)") auto
  have days: "0 \<le> int secs div 86400" "int secs div 86400 < 2 ^ 40" using assms by auto
  note r = civil_ranges [OF civil] and yr = civil_year [OF civil days]
  have i64: "as_i64 secs = int secs" using assms by (simp add: as_i64_def)
  have n: "nat (int a div 3600) = a div 3600" "nat (int a div 60) = a div 60"
    "nat (int a mod 60) = a mod 60" for a
    by (simp_all add: nat_div_distrib nat_mod_distrib)
  have f: "nat (int secs mod 86400 div 3600) = secs mod 86400 div 3600"
    "nat (int secs mod 86400 mod 3600 div 60) = secs mod 86400 mod 3600 div 60"
    "nat (int secs mod 86400 mod 60) = secs mod 86400 mod 60"
    by (simp_all only: nat_div_distrib nat_mod_distrib nat_int pos_mod_sign zero_less_numeral
      of_nat_0_le_iff zero_le_numeral nat_numeral)
  let ?dow = "dow_names ! nat ((int secs div 86400 + 4) mod 7)"
  have dow: "?dow \<in> set dow_names"
  proof (rule nth_mem)
    have "(int secs div 86400 + 4) mod 7 < 7" "0 \<le> (int secs div 86400 + 4) mod 7" by simp_all
    then show "nat ((int secs div 86400 + 4) mod 7) < length dow_names"
      by (simp add: dow_names_def nat_less_iff)
  qed
  have nn: "\<not> d < 0" "\<not> y < 0" using r yr by auto
  have nt: "\<not> int secs mod 86400 div 3600 < 0" "\<not> int secs mod 86400 mod 3600 div 60 < 0"
    "\<not> int secs mod 86400 mod 60 < 0"
    by (simp_all add: not_less pos_imp_zdiv_nonneg_iff)
  show ?thesis
  proof (rule that [OF civil dow])
    show "format_http_date secs = ?dow @ '', '' @ pad_left 2 (show_nat (nat d)) @ '' '' @
      month_names ! nat m @ '' '' @ pad_left 4 (show_nat (nat y)) @ '' '' @
      (pad_left 2 (show_nat (secs mod 86400 div 3600)) @ '':'' @
       pad_left 2 (show_nat (secs mod 86400 mod 3600 div 60)) @ '':'' @
       pad_left 2 (show_nat (secs mod 86400 mod 60))) @ '' GMT''"
      unfolding format_http_date_def Let_def i64 civil prod.case show_int_pad_def
      by (simp only: nn nt f if_False append_assoc)
  qed
qed

lemma parse_format_http_date:
  assumes "secs < 2 ^ 56"
  shows "parse_http_date (format_http_date secs) = Some secs"
proof -
  obtain y m d dow where civil: "unix_days_to_civil (int secs div 86400) = (y, m, d)"
    and dow: "dow \<in> set dow_names"
    and fmt: "format_http_date secs = dow @ '', '' @ pad_left 2 (show_nat (nat d)) @ '' '' @
      month_names ! nat m @ '' '' @ pad_left 4 (show_nat (nat y)) @ '' '' @
      (pad_left 2 (show_nat (secs mod 86400 div 3600)) @ '':'' @
       pad_left 2 (show_nat (secs mod 86400 mod 3600 div 60)) @ '':'' @
       pad_left 2 (show_nat (secs mod 86400 mod 60))) @ '' GMT''"
    using format_http_date_fields [OF assms] by blast
  have days: "0 \<le> int secs div 86400" "int secs div 86400 < 2 ^ 40" using assms by auto
  note r = civil_ranges [OF civil] and yr = civil_year [OF civil days]
  have "parse_imf_fixdate (format_http_date secs) =
      date_to_unix (nat y) (nat m) (nat d) (secs mod 86400 div 3600) (secs mod 86400 mod 3600 div 60)
        (secs mod 86400 mod 60)"
    unfolding fmt
  proof (rule parse_imf_printed [OF dow])
    show "1 \<le> nat m" "nat m \<le> 12" "nat d < 2 ^ 32" "nat y < 2 ^ 32" using r yr by auto
    have "secs mod 86400 < 86400" by simp
    then show "secs mod 86400 div 3600 < 2 ^ 32" "secs mod 86400 mod 3600 div 60 < 2 ^ 32"
      "secs mod 86400 mod 60 < 2 ^ 32" by simp_all
  qed
  also have "\<dots> = Some secs"
  proof -
    have "nat (int secs div 86400) = secs div 86400" by (simp add: nat_div_distrib)
    moreover have "secs mod 86400 mod 60 = secs mod 86400 mod 3600 mod 60" by (simp add: mod_mod_cancel)
    ultimately show ?thesis by (simp add: date_to_unix_civil [OF civil days])
  qed
  finally have p: "parse_imf_fixdate (format_http_date secs) = Some secs" .
  have "trim (format_http_date secs) = format_http_date secs"
    unfolding fmt
    using trim_printed [OF plain_names(1) [OF dow], of "'', '' @ pad_left 2 (show_nat (nat d)) @ '' '' @
      month_names ! nat m @ '' '' @ pad_left 4 (show_nat (nat y)) @ '' '' @
      (pad_left 2 (show_nat (secs mod 86400 div 3600)) @ '':'' @
       pad_left 2 (show_nat (secs mod 86400 mod 3600 div 60)) @ '':'' @
       pad_left 2 (show_nat (secs mod 86400 mod 60)))"]
    by (simp only: append_assoc)
  with p show ?thesis by (simp add: parse_http_date_def)
qed

text \<open>C20. HTTP dates: every file time before the year 2.28e9 (2 ^ 56 seconds), printed by
  \<open>format_http_date\<close> as \<open>Last-Modified\<close> and sent back by the client as
  \<open>If-Modified-Since\<close>, is parsed by \<open>parse_http_date\<close> to exactly the same second.\<close>

theorem http_date_roundtrip:
  assumes "secs < 2 ^ 56"
  shows "parse_http_date (format_http_date secs) = Some secs"
  by (rule parse_format_http_date [OF assms])

theorem http_date_roundtrip_witness:
  "parse_http_date (format_http_date 784111777) = Some 784111777"
  by (rule http_date_roundtrip) simp

lemmas date_eval = parse_http_date_def parse_imf_fixdate_def parse_rfc850_date_def parse_asctime_def
  parse_time_def parse_month_def date_to_unix_def days_since_epoch_def rfc850_year_def
  trim_def trim_by_def is_ws_def split_ws_def starts_with_def rsplit_once_def parse_radix_def
  digit_of_def Let_def

text \<open>The three formats of RFC 7231 name the same instant: the standard's own example,
  \<open>Sun, 06 Nov 1994 08:49:37 GMT\<close> and its RFC 850 and asctime spellings, all parse to the
  same second.\<close>

theorem http_date_formats:
  "parse_http_date ''Sun, 06 Nov 1994 08:49:37 GMT'' = Some 784111777
   \<and> parse_http_date ''Sunday, 06-Nov-94 08:49:37 GMT'' = Some 784111777
   \<and> parse_http_date ''Sun Nov  6 08:49:37 1994'' = Some 784111777"
  by (intro conjI; simp add: date_eval)

end
