(* ===== verification/Body.thy ===== *)
theory Body
  imports Utf8 OxiError
begin

section \<open>Bodies and responses (oxihttp-core body.rs, response_ext.rs)\<close>

text \<open>
  A \<open>Stream\<close> of byte chunks is a state of type \<open>'s\<close> with its \<open>poll_next\<close>, of type
  \<open>'s \<Rightarrow> 's \<times> polled\<close>; the trait object of the source hides both. \<open>drain\<close> is a consumer that
  polls until the end, as \<open>http_body_util\<close>'s \<open>collect\<close> does: it may never end, so it is a
  \<open>partial_function\<close> and not returning is \<open>None\<close>. Responses of the \<open>http\<close> crate are a status, the
  headers in the order they were appended and a body; the crate's check of a header value is the
  parameter \<open>hv_err\<close>, which gives the text of the crate's error.
\<close>

subsection \<open>Streams\<close>

datatype 'a poll = Pending | Ready 'a

text \<open>\<open>Poll<Option<Result<Bytes, OxiHttpError>>>\<close>\<close>

type_synonym polled = "(oxi_error + bytes) option poll"

type_synonym 's poller = "'s \<Rightarrow> 's \<times> polled"

datatype 's body = BodyEmpty | BodyFull "bytes option" | BodyStream 's

definition body_full :: "bytes \<Rightarrow> 's body" where
  "body_full d = BodyFull (Some d)"

definition body_from :: "bytes \<Rightarrow> 's body" where
  "body_from b = (if b = [] then BodyEmpty else body_full b)"

fun content_length :: "'s body \<Rightarrow> nat option" where
  "content_length BodyEmpty = Some 0"
| "content_length (BodyFull d) = map_option length d"
| "content_length (BodyStream s) = None"

datatype 's pinned_body = PinnedEmpty | PinnedFull "bytes option" | PinnedStream 's

fun into_pinned :: "'s body \<Rightarrow> 's pinned_body" where
  "into_pinned BodyEmpty = PinnedEmpty"
| "into_pinned (BodyFull d) = PinnedFull d"
| "into_pinned (BodyStream s) = PinnedStream s"

text \<open>\<open>Frame::data\<close> is the only kind of frame, so a frame is its bytes.\<close>

fun poll_frame :: "'s poller \<Rightarrow> 's pinned_body poller" where
  "poll_frame next PinnedEmpty = (PinnedEmpty, Ready None)"
| "poll_frame next (PinnedFull data) =
     (PinnedFull None, case data of Some d \<Rightarrow> (if d \<noteq> [] then Ready (Some (Inr d)) else Ready None)
                       | None \<Rightarrow> Ready None)"
| "poll_frame next (PinnedStream inner) =
     (case next inner of (inner', p) \<Rightarrow> (PinnedStream inner',
        case p of Ready (Some (Inr chunk)) \<Rightarrow> Ready (Some (Inr chunk))
        | Ready (Some (Inl e)) \<Rightarrow> Ready (Some (Inl e))
        | Ready None \<Rightarrow> Ready None
        | Pending \<Rightarrow> Pending))"

fun is_end_stream :: "'s pinned_body \<Rightarrow> bool" where
  "is_end_stream PinnedEmpty \<longleftrightarrow> True"
| "is_end_stream (PinnedFull data) \<longleftrightarrow> data = None"
| "is_end_stream (PinnedStream _) \<longleftrightarrow> False"

text \<open>The exact size hint, \<open>None\<close> for the default hint.\<close>

fun size_hint :: "'s pinned_body \<Rightarrow> nat option" where
  "size_hint PinnedEmpty = Some 0"
| "size_hint (PinnedFull data) = Some (case data of Some d \<Rightarrow> length d | None \<Rightarrow> 0)"
| "size_hint (PinnedStream _) = None"

text \<open>Polling a body to its end. A pending poll is polled again when its waker fires.\<close>

partial_function (option) drain :: "'s poller \<Rightarrow> 's \<Rightarrow> bytes \<Rightarrow> ((oxi_error + bytes) \<times> 's) option" where
  "drain next s acc =
     (case next s of (s', p) \<Rightarrow>
       (case p of Pending \<Rightarrow> drain next s' acc
        | Ready r \<Rightarrow> (case r of None \<Rightarrow> Some (Inr acc, s')
          | Some it \<Rightarrow> (case it of Inl e \<Rightarrow> Some (Inl e, s')
            | Inr chunk \<Rightarrow> drain next s' (acc @ chunk)))))"

lemma drain_Pending: "next s = (s', Pending) \<Longrightarrow> drain next s acc = drain next s' acc"
  by (subst drain.simps) simp

lemma drain_end: "next s = (s', Ready None) \<Longrightarrow> drain next s acc = Some (Inr acc, s')"
  by (subst drain.simps) simp

lemma drain_err: "next s = (s', Ready (Some (Inl e))) \<Longrightarrow> drain next s acc = Some (Inl e, s')"
  by (subst drain.simps) simp

lemma drain_chunk:
  "next s = (s', Ready (Some (Inr c))) \<Longrightarrow> drain next s acc = drain next s' (acc @ c)"
  by (subst drain.simps) simp

lemmas drain_eqs = drain_Pending drain_end drain_err drain_chunk

text \<open>\<open>ResponseExt::body_bytes\<close> and \<open>body_text\<close>: the display text of a failed body is kept.\<close>

definition body_bytes :: "'s poller \<Rightarrow> 's body \<Rightarrow> (bytes oxi_result) option" where
  "body_bytes next b =
     map_option (\<lambda>(r, _). map_sum (\<lambda>e. BodyErr (error_to_string e)) id r)
       (drain (poll_frame next) (into_pinned b) [])"

definition body_text :: "'s poller \<Rightarrow> 's body \<Rightarrow> (string oxi_result) option" where
  "body_text next b =
     map_option (\<lambda>r. case r of Inl e \<Rightarrow> Inl e
       | Inr bs \<Rightarrow> map_sum (\<lambda>e. BodyErr (''invalid UTF-8: '' @ e)) id (from_utf8 bs))
       (body_bytes next b)"

text \<open>The bytes of a body that is not a stream.\<close>

fun body_data :: "'s body \<Rightarrow> bytes option" where
  "body_data BodyEmpty = Some []"
| "body_data (BodyFull d) = Some (case d of Some b \<Rightarrow> b | None \<Rightarrow> [])"
| "body_data (BodyStream s) = None"

lemma body_bytes_data:
  assumes "body_data b = Some d" shows "body_bytes next b = Some (Inr d)"
proof (cases b)
  case BodyEmpty
  with assms show ?thesis by (simp add: body_bytes_def drain_end)
next
  case (BodyFull o')
  show ?thesis
  proof (cases o')
    case None
    with assms BodyFull show ?thesis by (simp add: body_bytes_def drain_end)
  next
    case (Some x)
    have "drain (poll_frame next) (PinnedFull (Some x)) [] = Some (Inr x, PinnedFull None)"
    proof (cases "x = []")
      case False
      then have "drain (poll_frame next) (PinnedFull (Some x)) [] = drain (poll_frame next) (PinnedFull None) ([] @ x)"
        by (intro drain_chunk) simp
      then show ?thesis by (simp add: drain_end)
    qed (simp add: drain_end)
    with assms BodyFull Some show ?thesis by (simp add: body_bytes_def)
  qed
qed (use assms in simp)

text \<open>Draining a stream body through \<open>PinnedBody\<close> is draining the stream.\<close>

lemma poll_frame_stream:
  "next s = (s', p) \<Longrightarrow> poll_frame next (PinnedStream s) = (PinnedStream s', p)"
  by (cases p) (auto split: option.splits sum.splits)

subsection \<open>Results\<close>

text \<open>\<open>let x = r?; f(x)\<close> on plain results.\<close>

fun rbind :: "'e + 'a \<Rightarrow> ('a \<Rightarrow> 'e + 'b) \<Rightarrow> 'e + 'b" where
  "rbind (Inl e) f = Inl e"
| "rbind (Inr a) f = f a"

lemma rbind_Inr: "rbind r f = Inr b \<longleftrightarrow> (\<exists>a. r = Inr a \<and> f a = Inr b)"
  by (cases r) auto

lemma rbind_Inl: "rbind r f = Inl e \<longleftrightarrow> r = Inl e \<or> (\<exists>a. r = Inr a \<and> f a = Inl e)"
  by (cases r) auto

lemma map_sum_id_Inr [simp]: "map_sum f id r = Inr a \<longleftrightarrow> r = Inr a"
  by (cases r) auto

subsection \<open>Responses\<close>

record 'b response =
  resp_status :: nat
  resp_headers :: "(string \<times> string) list"
  resp_body :: 'b

text \<open>\<open>Response::builder().status(st).header(..)..body(b)?\<close>: the builder remembers the first
  header that the crate refuses and \<open>body\<close> returns it.\<close>

definition build_response ::
  "(string \<Rightarrow> string option) \<Rightarrow> nat \<Rightarrow> (string \<times> string) list \<Rightarrow> 'b \<Rightarrow> 'b response oxi_result" where
  "build_response hv_err st hs b =
     (case List.map_filter (\<lambda>(k, v). hv_err v) hs of
        e # _ \<Rightarrow> Inl (HttpErr e)
      | [] \<Rightarrow> Inr \<lparr>resp_status = st, resp_headers = hs, resp_body = b\<rparr>)"

lemma build_response_Inr:
  "build_response hv_err st hs b = Inr r \<longleftrightarrow>
     (\<forall>(k, v) \<in> set hs. hv_err v = None) \<and> r = \<lparr>resp_status = st, resp_headers = hs, resp_body = b\<rparr>"
proof -
  have "List.map_filter (\<lambda>(k, v). hv_err v) hs = [] \<longleftrightarrow> (\<forall>(k, v) \<in> set hs. hv_err v = None)"
    by (induction hs) (auto simp: List.map_filter_def)
  then show ?thesis
    unfolding build_response_def
    by (cases "List.map_filter (\<lambda>(k, v). hv_err v) hs") auto
qed

end
