(* ===== verification/StaticFiles.thy ===== *)
theory StaticFiles
  imports HttpDate Body
begin

section \<open>Static files (oxihttp-server static_files.rs)\<close>

text \<open>
  \<open>ServeDir\<close> and \<open>ServeFile\<close>: path resolution, conditional requests, byte ranges and the chunked
  body stream. The file system is the parameter \<open>fs\<close>, one snapshot that answers the calls of
  the source (\<open>canonicalize\<close>, \<open>is_file\<close>, \<open>metadata\<close>, \<open>open\<close>, \<open>seek\<close>); \<open>mime_guess\<close> and the
  header-value check of the \<open>http\<close> crate are parameters too. A request header is read by
  \<open>hget\<close>, the source's \<open>get\<close> followed by \<open>to_str\<close>. A \<open>SystemTime\<close> is the signed number of
  nanoseconds since the epoch. Paths are strings, split into components as \<open>std::path\<close> does on
  Unix.
\<close>

subsection \<open>Paths of the standard library\<close>

datatype component = RootDir | CurDir | ParentDir | Normal string

text \<open>\<open>Path::components\<close>: repeated slashes and inner \<open>.\<close> vanish, a leading \<open>.\<close> stays.\<close>

definition inner_component :: "string \<Rightarrow> component list" where
  "inner_component s =
     (if s = '''' \<or> s = ''.'' then [] else if s = ''..'' then [ParentDir] else [Normal s])"

definition components :: "string \<Rightarrow> component list" where
  "components p =
     (let parts = split_on CHR ''/'' p in
      if starts_with ''/'' p then RootDir # concat (map inner_component parts)
      else (if hd parts = ''.'' then [CurDir] else []) @ concat (map inner_component parts))"

definition path_join :: "string \<Rightarrow> string \<Rightarrow> string" where
  "path_join base p =
     (if starts_with ''/'' p then p
      else if base = '''' \<or> ends_with ''/'' base then base @ p
      else base @ ''/'' @ p)"

definition path_starts_with :: "string \<Rightarrow> string \<Rightarrow> bool" where
  "path_starts_with p base \<longleftrightarrow> starts_with (components base) (components p)"

text \<open>\<open>file_path.extension()\<close>, \<open>''\<close> when there is none.\<close>

definition path_extension :: "string \<Rightarrow> string" where
  "path_extension p =
     (case components p of [] \<Rightarrow> ''''
      | cs \<Rightarrow> (case last cs of
          Normal f \<Rightarrow> (case rsplit_once CHR ''.'' f of
              Some (stem, ext) \<Rightarrow> if stem = '''' then '''' else ext
            | None \<Rightarrow> '''')
        | _ \<Rightarrow> ''''))"

subsection \<open>Entity tags and conditional requests\<close>

definition compute_etag_from_metadata :: "nat \<Rightarrow> int option \<Rightarrow> string" where
  "compute_etag_from_metadata len mtime =
     (case Option.bind mtime (\<lambda>mt. if 0 \<le> mt then Some (nat mt) else None) of
        Some d \<Rightarrow> [CHR 0x22] @ show_hex d @ ''-'' @ show_hex len @ [CHR 0x22]
      | None \<Rightarrow> [CHR 0x22] @ show_hex len @ [CHR 0x22])"

definition etag_matches :: "string \<Rightarrow> string \<Rightarrow> bool" where
  "etag_matches if_none_match etag =
     (let inm = trim if_none_match in
      if inm = ''*'' then True
      else list_ex (\<lambda>e. e = etag) (map trim (split_on CHR '','' inm)))"

definition nanos_as_secs :: "nat \<Rightarrow> nat" where
  "nanos_as_secs n = n div 1000000000"

definition is_modified_since :: "int \<Rightarrow> string \<Rightarrow> bool" where
  "is_modified_since mtime ims =
     (case parse_http_date ims of
        Some ims_secs \<Rightarrow>
          (let mtime_secs = (if 0 \<le> mtime then nanos_as_secs (nat mtime) else 0)
           in ims_secs < mtime_secs)
      | None \<Rightarrow> True)"

subsection \<open>Ranges\<close>

datatype range_error = MultiRange | RangeInvalid

definition parse_single_range :: "string \<Rightarrow> nat \<Rightarrow> range_error + nat \<times> nat" where
  "parse_single_range range0 file_len =
     (let range = trim range0 in
      if \<not> starts_with ''bytes='' range then Inl RangeInvalid
      else let spec = drop (length ''bytes='') range in
      if CHR '','' \<in> set spec then Inl MultiRange
      else case split_once CHR ''-'' spec of None \<Rightarrow> Inl RangeInvalid
      | Some (start_str, end_str) \<Rightarrow>
        rbind
          (if start_str = '''' then
             (case parse_usize end_str of None \<Rightarrow> Inl RangeInvalid
              | Some suffix \<Rightarrow>
                  if suffix = 0 then Inl RangeInvalid else Inr (file_len - suffix, file_len - 1))
           else
             (case parse_usize start_str of None \<Rightarrow> Inl RangeInvalid
              | Some start \<Rightarrow>
                  if end_str = '''' then Inr (start, file_len - 1)
                  else (case parse_usize end_str of None \<Rightarrow> Inl RangeInvalid
                        | Some en \<Rightarrow> Inr (start, en))))
          (\<lambda>(start, en).
            if file_len = 0 \<or> file_len \<le> start \<or> file_len \<le> en \<or> en < start
            then Inl RangeInvalid else Inr (start, en)))"

subsection \<open>Path safety\<close>

text \<open>The loop over the candidate's components: \<open>..\<close> pops, \<open>.\<close> is skipped.\<close>

fun normalize_components :: "component list \<Rightarrow> component list \<Rightarrow> component list" where
  "normalize_components acc [] = acc"
| "normalize_components acc (ParentDir # cs) = normalize_components (butlast acc) cs"
| "normalize_components acc (CurDir # cs) = normalize_components acc cs"
| "normalize_components acc (c # cs) = normalize_components (acc @ [c]) cs"

definition is_path_safe :: "string \<Rightarrow> string \<Rightarrow> bool" where
  "is_path_safe root candidate =
     (let root_components = components root;
          cand_components = normalize_components [] (components candidate)
      in if length cand_components < length root_components then False
         else root_components = take (length root_components) cand_components)"

subsection \<open>The body stream\<close>

text \<open>\<open>'f\<close> is the open file; \<open>poll_read f n\<close> fills a buffer of \<open>n\<close> bytes, or fails, or is pending.\<close>

type_synonym 'f reader = "'f \<Rightarrow> nat \<Rightarrow> 'f \<times> (string + bytes) poll"

record 'f file_range_stream =
  frs_file :: 'f
  remaining :: nat

definition CHUNK_SIZE :: nat where
  "CHUNK_SIZE = 64 * 1024"

definition frs_poll_next :: "'f reader \<Rightarrow> 'f file_range_stream poller" where
  "frs_poll_next poll_read this =
     (if remaining this = 0 then (this, Ready None)
      else let want = min (remaining this) CHUNK_SIZE in
        case poll_read (frs_file this) want of
          (f', Ready (Inr buf)) \<Rightarrow>
            (let n = length buf in
             if n = 0 then (this\<lparr>frs_file := f', remaining := 0\<rparr>, Ready None)
             else (this\<lparr>frs_file := f', remaining := remaining this - n\<rparr>, Ready (Some (Inr buf))))
        | (f', Ready (Inl e)) \<Rightarrow> (this\<lparr>frs_file := f', remaining := 0\<rparr>, Ready (Some (Inl (IoErr e))))
        | (f', Pending) \<Rightarrow> (this\<lparr>frs_file := f'\<rparr>, Pending))"

subsection \<open>The file system\<close>

record 'f fs =
  fs_canonicalize :: "string \<Rightarrow> string + string"
  fs_is_file :: "string \<Rightarrow> bool"
  fs_metadata :: "string \<Rightarrow> string + nat \<times> int option"
  fs_open :: "string \<Rightarrow> string + 'f"
  fs_seek :: "'f \<Rightarrow> nat \<Rightarrow> string + 'f"

definition stream_file_range ::
  "('f, 'z) fs_scheme \<Rightarrow> string \<Rightarrow> nat \<Rightarrow> nat \<Rightarrow> 'f file_range_stream body oxi_result" where
  "stream_file_range fs path start len =
     rbind (map_sum IoErr id (fs_open fs path)) (\<lambda>file.
     rbind (if 0 < start then map_sum IoErr id (fs_seek fs file start) else Inr file) (\<lambda>file.
     Inr (BodyStream \<lparr>frs_file = file, remaining = len\<rparr>)))"

subsection \<open>Responses\<close>

type_synonym 'f file_response = "'f file_range_stream body response oxi_result"

definition cache_header :: "string option \<Rightarrow> (string \<times> string) list" where
  "cache_header cache_control = (case cache_control of Some cc \<Rightarrow> [(''Cache-Control'', cc)] | None \<Rightarrow> [])"

definition last_modified_header :: "int option \<Rightarrow> (string \<times> string) list" where
  "last_modified_header mtime =
     (case mtime of
        Some mt \<Rightarrow> (if 0 \<le> mt then [(''Last-Modified'', format_http_date (nanos_as_secs (nat mt)))] else [])
      | None \<Rightarrow> [])"

definition not_modified_by_etag :: "(string \<Rightarrow> string option) \<Rightarrow> string \<Rightarrow> bool" where
  "not_modified_by_etag hget etag =
     (case hget ''if-none-match'' of Some v \<Rightarrow> etag_matches v etag | None \<Rightarrow> False)"

definition not_modified_by_date :: "(string \<Rightarrow> string option) \<Rightarrow> int option \<Rightarrow> bool" where
  "not_modified_by_date hget mtime =
     (case mtime of None \<Rightarrow> False
      | Some mt \<Rightarrow> (case hget ''if-modified-since'' of
          Some ims_str \<Rightarrow> \<not> is_modified_since mt ims_str | None \<Rightarrow> False))"

definition respond_partial where
  "respond_partial fs hv_err file_path mthd mime cache_control file_len etag start en =
     (let range_len = en - start + 1;
          content_range = ''bytes '' @ show_nat start @ ''-'' @ show_nat en @ ''/'' @ show_nat file_len
      in rbind (if mthd = ''HEAD'' then Inr BodyEmpty else stream_file_range fs file_path start range_len) (\<lambda>body.
         build_response hv_err 206
           ([(''Content-Type'', mime), (''Content-Range'', content_range),
             (''Content-Length'', show_nat range_len), (''ETag'', etag)] @ cache_header cache_control) body))"

definition respond_full where
  "respond_full fs hv_err file_path mthd mime cache_control file_len mtime etag =
     rbind (if mthd = ''HEAD'' then Inr BodyEmpty else stream_file_range fs file_path 0 file_len) (\<lambda>body.
       build_response hv_err 200
         ([(''Content-Type'', mime), (''Content-Length'', show_nat file_len), (''ETag'', etag)]
          @ cache_header cache_control @ last_modified_header mtime) body)"

definition respond_with_file ::
  "('f, 'z) fs_scheme \<Rightarrow> (string \<Rightarrow> string option) \<Rightarrow> string \<Rightarrow> string \<Rightarrow> (string \<Rightarrow> string option) \<Rightarrow>
   string \<Rightarrow> string option \<Rightarrow> 'f file_response" where
  "respond_with_file fs hv_err file_path mthd hget mime cache_control =
     rbind (map_sum IoErr id (fs_metadata fs file_path)) (\<lambda>(file_len, mtime).
       let etag = compute_etag_from_metadata file_len mtime in
       if not_modified_by_etag hget etag then build_response hv_err 304 [(''ETag'', etag)] BodyEmpty
       else if not_modified_by_date hget mtime then build_response hv_err 304 [(''ETag'', etag)] BodyEmpty
       else case hget ''range'' of
         Some range_str \<Rightarrow>
           (let file_len_for_range = (if file_len \<le> usize_max then file_len else usize_max) in
            case parse_single_range range_str file_len_for_range of
              Inr (start, en) \<Rightarrow>
                respond_partial fs hv_err file_path mthd mime cache_control file_len etag start en
            | Inl _ \<Rightarrow>
                build_response hv_err 416 [(''Content-Range'', ''bytes */'' @ show_nat file_len)] BodyEmpty)
       | None \<Rightarrow> respond_full fs hv_err file_path mthd mime cache_control file_len mtime etag)"

subsection \<open>ServeDir and ServeFile\<close>

record serve_dir =
  sd_root :: string
  sd_index :: "string option"
  sd_fallback :: "string option"
  sd_cache_control :: "string option"
  mime_overrides :: "string \<rightharpoonup> string"
  deny_symlink_escapes :: bool

definition serve_dir_new :: "string \<Rightarrow> serve_dir" where
  "serve_dir_new root =
     \<lparr>sd_root = root, sd_index = None, sd_fallback = None, sd_cache_control = None,
      mime_overrides = (\<lambda>_. None), deny_symlink_escapes = False\<rparr>"

definition with_index :: "string \<Rightarrow> serve_dir \<Rightarrow> serve_dir" where
  "with_index name sd = sd\<lparr>sd_index := Some name\<rparr>"

definition with_fallback :: "string \<Rightarrow> serve_dir \<Rightarrow> serve_dir" where
  "with_fallback path sd = sd\<lparr>sd_fallback := Some path\<rparr>"

definition with_cache_control :: "string \<Rightarrow> serve_dir \<Rightarrow> serve_dir" where
  "with_cache_control v sd = sd\<lparr>sd_cache_control := Some v\<rparr>"

definition add_mime_override :: "string \<Rightarrow> string \<Rightarrow> serve_dir \<Rightarrow> serve_dir" where
  "add_mime_override ext mime sd = sd\<lparr>mime_overrides := (mime_overrides sd)(ext \<mapsto> mime)\<rparr>"

definition with_symlink_protection :: "bool \<Rightarrow> serve_dir \<Rightarrow> serve_dir" where
  "with_symlink_protection deny_escapes sd = sd\<lparr>deny_symlink_escapes := deny_escapes\<rparr>"

text \<open>The file that a request path resolves to, or the status of the early return.\<close>

definition resolve_path ::
  "('f, 'z) fs_scheme \<Rightarrow> serve_dir \<Rightarrow> string \<Rightarrow> (nat + string \<times> string) oxi_result" where
  "resolve_path fs sd path =
     (let rel_path = dropWhile (\<lambda>c. c = CHR ''/'') path in
      case (if rel_path = '''' then sd_index sd else Some rel_path) of
        None \<Rightarrow> Inr (Inl 404)
      | Some rel_path \<Rightarrow>
          rbind (map_sum IoErr id (fs_canonicalize fs (sd_root sd))) (\<lambda>abs_root.
            let joined = path_join abs_root rel_path in
            if \<not> is_path_safe abs_root joined then Inr (Inl 403)
            else if fs_is_file fs joined then Inr (Inr (abs_root, joined))
            else case sd_fallback sd of
                None \<Rightarrow> Inr (Inl 404)
              | Some fallback \<Rightarrow>
                  (let fb = path_join abs_root fallback in
                   if fs_is_file fs fb then Inr (Inr (abs_root, fb)) else Inr (Inl 404))))"

text \<open>The second half of \<open>serve\<close>, once the file is known to exist.\<close>

definition serve_resolved ::
  "('f, 'z) fs_scheme \<Rightarrow> (string \<Rightarrow> string option) \<Rightarrow> (string \<Rightarrow> string) \<Rightarrow> serve_dir \<Rightarrow> string \<Rightarrow>
   (string \<Rightarrow> string option) \<Rightarrow> string \<Rightarrow> string \<Rightarrow> 'f file_response" where
  "serve_resolved fs hv_err mime_guess sd mthd hget abs_root file_path =
     rbind
       (if deny_symlink_escapes sd
        then rbind (map_sum IoErr id (fs_canonicalize fs file_path)) (\<lambda>resolved.
               Inr (\<not> path_starts_with resolved abs_root))
        else Inr False) (\<lambda>escapes.
     if escapes then build_response hv_err 403 [] BodyEmpty
     else let ext = path_extension file_path;
              mime = (case mime_overrides sd ext of Some m \<Rightarrow> m | None \<Rightarrow> mime_guess file_path)
          in respond_with_file fs hv_err file_path mthd hget mime (sd_cache_control sd))"

definition serve_dir_serve ::
  "('f, 'z) fs_scheme \<Rightarrow> (string \<Rightarrow> string option) \<Rightarrow> (string \<Rightarrow> string) \<Rightarrow> serve_dir \<Rightarrow> string \<Rightarrow> string \<Rightarrow>
   (string \<Rightarrow> string option) \<Rightarrow> 'f file_response" where
  "serve_dir_serve fs hv_err mime_guess sd mthd path hget =
     (if mthd \<noteq> ''GET'' \<and> mthd \<noteq> ''HEAD'' then build_response hv_err 405 [] BodyEmpty
      else rbind (resolve_path fs sd path) (\<lambda>r.
        case r of Inl st \<Rightarrow> build_response hv_err st [] BodyEmpty
        | Inr (abs_root, file_path) \<Rightarrow>
            serve_resolved fs hv_err mime_guess sd mthd hget abs_root file_path))"

record serve_file =
  sf_path :: string
  sf_cache_control :: "string option"
  mime_override :: "string option"

definition serve_file_new :: "string \<Rightarrow> serve_file" where
  "serve_file_new path = \<lparr>sf_path = path, sf_cache_control = None, mime_override = None\<rparr>"

definition sf_with_cache_control :: "string \<Rightarrow> serve_file \<Rightarrow> serve_file" where
  "sf_with_cache_control v sf = sf\<lparr>sf_cache_control := Some v\<rparr>"

definition sf_with_mime :: "string \<Rightarrow> serve_file \<Rightarrow> serve_file" where
  "sf_with_mime v sf = sf\<lparr>mime_override := Some v\<rparr>"

definition serve_file_serve ::
  "('f, 'z) fs_scheme \<Rightarrow> (string \<Rightarrow> string option) \<Rightarrow> (string \<Rightarrow> string) \<Rightarrow> serve_file \<Rightarrow> string \<Rightarrow>
   (string \<Rightarrow> string option) \<Rightarrow> 'f file_response" where
  "serve_file_serve fs hv_err mime_guess sf mthd hget =
     (if mthd \<noteq> ''GET'' \<and> mthd \<noteq> ''HEAD'' then build_response hv_err 405 [] BodyEmpty
      else let mime = (case mime_override sf of Some m \<Rightarrow> m | None \<Rightarrow> mime_guess (sf_path sf))
           in respond_with_file fs hv_err (sf_path sf) mthd hget mime (sf_cache_control sf))"


subsection \<open>Ranges: lemmas and properties\<close>

lemma parse_usize_show: "n \<le> usize_max \<Longrightarrow> parse_usize (show_nat n) = Some n"
  by (rule parse_radix_show_base) (simp_all add: usize_max_def)

lemma show_nat_chars: "c \<in> set (show_nat n) \<Longrightarrow> c \<noteq> CHR ''-'' \<and> c \<noteq> CHR '','' \<and> \<not> is_ws c"
  using show_nat_digits [of c n] is_digit_not_ws [of c] by (auto simp: is_digit_def)

text \<open>A range specification built from numbers is not changed by trimming and has no comma.\<close>

lemma range_spec_trim:
  assumes "\<And>c. c \<in> set spec \<Longrightarrow> \<not> is_ws c"
  shows "trim (''bytes='' @ spec) = ''bytes='' @ spec"
  by (rule trim_no_ws) (use assms in \<open>auto simp: is_ws_def\<close>)

lemma parse_single_range_spec:
  assumes "\<And>c. c \<in> set a \<Longrightarrow> c \<noteq> CHR ''-'' \<and> c \<noteq> CHR '','' \<and> \<not> is_ws c"
    and "\<And>c. c \<in> set b \<Longrightarrow> c \<noteq> CHR '','' \<and> \<not> is_ws c"
  shows "parse_single_range (''bytes='' @ a @ ''-'' @ b) len =
    rbind
      (if a = '''' then
         (case parse_usize b of None \<Rightarrow> Inl RangeInvalid
          | Some suffix \<Rightarrow> if suffix = 0 then Inl RangeInvalid else Inr (len - suffix, len - 1))
       else
         (case parse_usize a of None \<Rightarrow> Inl RangeInvalid
          | Some start \<Rightarrow>
              if b = '''' then Inr (start, len - 1)
              else (case parse_usize b of None \<Rightarrow> Inl RangeInvalid | Some en \<Rightarrow> Inr (start, en))))
      (\<lambda>(start, en).
        if len = 0 \<or> len \<le> start \<or> len \<le> en \<or> en < start then Inl RangeInvalid else Inr (start, en))"
proof -
  have ws: "trim (''bytes='' @ a @ ''-'' @ b) = ''bytes='' @ a @ ''-'' @ b"
    by (rule range_spec_trim) (use assms in \<open>auto simp: is_ws_def\<close>)
  have comma: "CHR '','' \<notin> set (a @ ''-'' @ b)" using assms by auto
  have once: "split_once CHR ''-'' (a @ ''-'' @ b) = Some (a, b)"
    using split_once_append [of "CHR ''-''" a b] assms(1) by auto
  have pre: "starts_with ''bytes='' (''bytes='' @ a @ ''-'' @ b)" by (rule starts_with_append)
  have drp: "drop (length ''bytes='') (''bytes='' @ a @ ''-'' @ b) = a @ ''-'' @ b" by simp
  show ?thesis
    unfolding parse_single_range_def Let_def ws drp once using pre comma by simp
qed

text \<open>Every range that \<open>parse_single_range\<close> accepts lies inside the file: the offsets are
  in order and below the file length, so the slice that is served is never empty and never reads
  past the end.\<close>

theorem parse_single_range_sound:
  assumes "parse_single_range hdr file_len = Inr (start, en)"
  shows "start \<le> en \<and> en < file_len"
  using assms by (auto simp: parse_single_range_def Let_def rbind_Inr split: if_splits option.splits prod.splits)

theorem parse_single_range_sound_witness: "(2::nat) \<le> 4 \<and> (4::nat) < 5"
  by (rule parse_single_range_sound [of "''bytes=2-''"])
    (simp add: parse_single_range_def trim_def trim_by_def is_ws_def starts_with_def parse_radix_def
      digit_of_def usize_max_def)

text \<open>The three forms of a single byte range are read as RFC 7233 gives them: \<open>bytes=a-b\<close> is
  the offsets \<open>a..b\<close>, \<open>bytes=a-\<close> runs to the end of the file, and \<open>bytes=-n\<close> is the last \<open>n\<close>
  bytes, the whole file when it is shorter; and an end past the file makes the range
  unsatisfiable instead of being cut to the last byte.\<close>

theorem parse_single_range_forms:
  assumes "0 < len" and "len \<le> usize_max" and "a \<le> b" and "b \<le> usize_max" and "0 < n" and "n \<le> usize_max"
  shows "parse_single_range (''bytes='' @ show_nat a @ ''-'' @ show_nat b) len =
      (if b < len then Inr (a, b) else Inl RangeInvalid)
    \<and> parse_single_range (''bytes='' @ show_nat a @ ''-'') len =
      (if a < len then Inr (a, len - 1) else Inl RangeInvalid)
    \<and> parse_single_range (''bytes='' @ ''-'' @ show_nat n) len = Inr (len - n, len - 1)"
proof (intro conjI)
  have a: "parse_usize (show_nat a) = Some a" using assms by (intro parse_usize_show) simp
  show "parse_single_range (''bytes='' @ show_nat a @ ''-'' @ show_nat b) len =
      (if b < len then Inr (a, b) else Inl RangeInvalid)"
    using assms by (subst parse_single_range_spec) (auto simp: show_nat_chars a parse_usize_show)
  show "parse_single_range (''bytes='' @ show_nat a @ ''-'') len =
      (if a < len then Inr (a, len - 1) else Inl RangeInvalid)"
    using parse_single_range_spec [of "show_nat a" "[]" len] assms by (auto simp: show_nat_chars a)
  show "parse_single_range (''bytes='' @ ''-'' @ show_nat n) len = Inr (len - n, len - 1)"
    using parse_single_range_spec [of "[]" "show_nat n" len] assms
    by (auto simp: show_nat_chars parse_usize_show)
qed

theorem parse_single_range_forms_witness:
  "parse_single_range (''bytes='' @ show_nat 2 @ ''-'' @ show_nat 9) 5 = Inl RangeInvalid
    \<and> parse_single_range (''bytes='' @ ''-'' @ show_nat 3) 5 = Inr (2, 4)"
  using parse_single_range_forms [of 5 2 9 3] by (simp add: usize_max_def)

subsection \<open>The body stream: lemmas\<close>

text \<open>
  What the stream relies on of \<open>tokio::fs::File\<close>: a read gives at most as many bytes as the buffer
  holds, they are the next bytes of the file (\<open>rest\<close>), an empty read means the end of the file,
  and a pending read is woken up after finitely many polls (\<open>wait\<close>). Reads may fail.
\<close>

locale file_reader =
  fixes rd :: "'f reader"
    and rest :: "'f \<Rightarrow> bytes"
    and wait :: "'f \<Rightarrow> nat"
  assumes read_ready: "rd f n = (f', Ready (Inr b)) \<Longrightarrow> 0 < n \<Longrightarrow>
      length b \<le> n \<and> rest f = b @ rest f' \<and> (b = [] \<longrightarrow> rest f = [])"
    and read_pending: "rd f n = (f', Pending) \<Longrightarrow> rest f' = rest f \<and> wait f' < wait f"
begin

text \<open>A chunk is never longer than the chunk size or than what remains of the range.\<close>

lemma frs_chunk_bound:
  assumes "frs_poll_next rd s = (s', Ready (Some (Inr c)))"
  shows "length c \<le> CHUNK_SIZE \<and> 0 < length c \<and> remaining s = length c + remaining s' \<and>
    rest (frs_file s) = c @ rest (frs_file s')"
proof (cases "remaining s = 0")
  case False
  let ?want = "min (remaining s) CHUNK_SIZE"
  obtain f' p where rd: "rd (frs_file s) ?want = (f', p)" by fastforce
  with assms False have p: "p = Ready (Inr c)" and c: "length c \<noteq> 0"
    and s': "s' = s\<lparr>frs_file := f', remaining := remaining s - length c\<rparr>"
    by (auto simp: frs_poll_next_def Let_def split: poll.splits sum.splits if_splits)
  have "0 < ?want" using False by (simp add: CHUNK_SIZE_def)
  from read_ready [OF rd [unfolded p] this] c s' show ?thesis by auto
qed (use assms in \<open>simp add: frs_poll_next_def\<close>)

lemma frs_poll_cases:
  obtains (ended) s' where "frs_poll_next rd s = (s', Ready None)" "take (remaining s) (rest (frs_file s)) = []"
  | (chunk) s' c where "frs_poll_next rd s = (s', Ready (Some (Inr c)))" "remaining s' < remaining s"
      "take (remaining s) (rest (frs_file s)) = c @ take (remaining s') (rest (frs_file s'))"
  | (err) s' e where "frs_poll_next rd s = (s', Ready (Some (Inl (IoErr e))))"
  | (pending) s' where "frs_poll_next rd s = (s', Pending)" "remaining s' = remaining s"
      "rest (frs_file s') = rest (frs_file s)" "wait (frs_file s') < wait (frs_file s)"
proof (cases "remaining s = 0")
  case True
  then show ?thesis using ended [of s] by (simp add: frs_poll_next_def)
next
  case False
  let ?want = "min (remaining s) CHUNK_SIZE"
  have want: "0 < ?want" using False by (simp add: CHUNK_SIZE_def)
  obtain f' p where rd: "rd (frs_file s) ?want = (f', p)" by fastforce
  show ?thesis
  proof (cases p)
    case Pending
    with rd False read_pending [of "frs_file s" ?want f']
    show ?thesis by (intro pending [of "s\<lparr>frs_file := f'\<rparr>"]) (auto simp: frs_poll_next_def)
  next
    case (Ready r)
    show ?thesis
    proof (cases r)
      case (Inl e)
      with rd False Ready show ?thesis
        by (intro err [of "s\<lparr>frs_file := f', remaining := 0\<rparr>" e]) (auto simp: frs_poll_next_def)
    next
      case (Inr c)
      note rr = read_ready [OF rd [unfolded Ready Inr] want]
      show ?thesis
      proof (cases "c = []")
        case True
        with rr rd False Ready Inr show ?thesis
          by (intro ended [of "s\<lparr>frs_file := f', remaining := 0\<rparr>"]) (auto simp: frs_poll_next_def)
      next
        case c: False
        let ?s' = "s\<lparr>frs_file := f', remaining := remaining s - length c\<rparr>"
        have poll: "frs_poll_next rd s = (?s', Ready (Some (Inr c)))"
          using rd False Ready Inr c by (simp add: frs_poll_next_def Let_def)
        have "take (remaining s) (rest (frs_file s)) = c @ take (remaining s - length c) (rest f')"
          using rr by simp
        then show ?thesis using c False by (intro chunk [OF poll]) auto
      qed
    qed
  qed
qed

text \<open>Draining the stream ends, and gives the range or an I/O error.\<close>

lemma frs_drain:
  "\<exists>r s'. drain (frs_poll_next rd) s acc = Some (r, s') \<and>
     (r = Inr (acc @ take (remaining s) (rest (frs_file s))) \<or> (\<exists>e. r = Inl (IoErr e)))"
proof (induction s arbitrary: acc
    rule: wf_induct [OF wf_measures [of "[remaining, \<lambda>s. wait (frs_file s)]"]])
  case (1 s)
  have IH: "\<exists>r s''. drain (frs_poll_next rd) s' acc = Some (r, s'') \<and>
       (r = Inr (acc @ take (remaining s') (rest (frs_file s'))) \<or> (\<exists>e. r = Inl (IoErr e)))"
    if "remaining s' < remaining s \<or>
       remaining s' = remaining s \<and> wait (frs_file s') < wait (frs_file s)" for s' acc
  proof -
    have "(s', s) \<in> measures [remaining, \<lambda>s. wait (frs_file s)]" using that by auto
    then show ?thesis using 1 by blast
  qed
  show ?case
  proof (cases s rule: frs_poll_cases)
    case (ended s')
    then show ?thesis by (simp add: drain_end)
  next
    case (chunk s' c)
    with IH [of s' "acc @ c"] show ?thesis by (auto simp: drain_chunk)
  next
    case (err s' e)
    then show ?thesis by (simp add: drain_err)
  next
    case (pending s')
    with IH [of s' acc] show ?thesis by (auto simp: drain_Pending)
  qed
qed

end

text \<open>A file system whose \<open>open\<close> starts at the first byte of the file and whose \<open>seek\<close> skips bytes.\<close>

locale file_system = file_reader rd rest wait
  for rd :: "'f reader" and rest :: "'f \<Rightarrow> bytes" and wait :: "'f \<Rightarrow> nat" +
  fixes fs :: "'f fs" and content :: "string \<Rightarrow> bytes"
  assumes open_start: "fs_open fs p = Inr f \<Longrightarrow> rest f = content p"
    and seek_skips: "fs_seek fs f n = Inr f' \<Longrightarrow> rest f' = drop n (rest f)"
begin

lemma stream_file_range_drain:
  assumes "stream_file_range fs p start len = Inr (BodyStream s)"
  shows "\<exists>r s'. drain (frs_poll_next rd) s [] = Some (r, s') \<and>
    (r = Inr (take len (drop start (content p))) \<or> (\<exists>e. r = Inl (IoErr e)))"
proof -
  obtain f f' where f: "fs_open fs p = Inr f"
    and f': "(if 0 < start then map_sum IoErr id (fs_seek fs f start) else Inr f) = Inr f'"
    and s: "s = \<lparr>frs_file = f', remaining = len\<rparr>"
    using assms by (auto simp: stream_file_range_def rbind_Inr)
  have "rest f' = drop start (content p)"
    using f' open_start [OF f] seek_skips [of f start f'] by (auto split: if_splits)
  with frs_drain [of s "[]"] show ?thesis by (simp add: s)
qed

end

text \<open>Files in memory. The schedule gives the sizes of the reads, \<open>0\<close> for a pending poll.\<close>

record mem_file =
  mf_rest :: bytes
  mf_sched :: "nat list"

fun mem_file_read :: "mem_file reader" where
  "mem_file_read f n =
     (case mf_sched f of
        [] \<Rightarrow> (f\<lparr>mf_rest := drop n (mf_rest f)\<rparr>, Ready (Inr (take n (mf_rest f))))
      | k # ks \<Rightarrow>
         (if k = 0 then (f\<lparr>mf_sched := ks\<rparr>, Pending)
          else (f\<lparr>mf_rest := drop (min k n) (mf_rest f), mf_sched := ks\<rparr>,
                Ready (Inr (take (min k n) (mf_rest f))))))"

definition mem_content :: "(string \<rightharpoonup> bytes) \<Rightarrow> string \<Rightarrow> bytes" where
  "mem_content files p = (case files p of Some c \<Rightarrow> c | None \<Rightarrow> [])"

definition mem_fs :: "nat list \<Rightarrow> (string \<rightharpoonup> bytes) \<Rightarrow> mem_file fs" where
  "mem_fs sched files =
     \<lparr>fs_canonicalize = Inr, fs_is_file = (\<lambda>p. files p \<noteq> None),
      fs_metadata = (\<lambda>p. case files p of Some c \<Rightarrow> Inr (length c, Some 0) | None \<Rightarrow> Inl ''not found''),
      fs_open = (\<lambda>p. case files p of Some c \<Rightarrow> Inr \<lparr>mf_rest = c, mf_sched = sched\<rparr> | None \<Rightarrow> Inl ''not found''),
      fs_seek = (\<lambda>f n. Inr (f\<lparr>mf_rest := drop n (mf_rest f)\<rparr>))\<rparr>"

interpretation mem_files: file_system mem_file_read mf_rest "\<lambda>f. length (mf_sched f)"
  "mem_fs sched files" "mem_content files"
proof unfold_locales
  fix f f' :: mem_file and n :: nat and b :: bytes
  show "mem_file_read f n = (f', Ready (Inr b)) \<Longrightarrow> 0 < n \<Longrightarrow>
      length b \<le> n \<and> mf_rest f = b @ mf_rest f' \<and> (b = [] \<longrightarrow> mf_rest f = [])"
    by (auto split: list.splits if_splits)
  show "mem_file_read f n = (f', Pending) \<Longrightarrow>
      mf_rest f' = mf_rest f \<and> length (mf_sched f') < length (mf_sched f)"
    by (auto split: list.splits if_splits)
next
  fix p f n f'
  show "fs_open (mem_fs sched files) p = Inr f \<Longrightarrow> mf_rest f = mem_content files p"
    by (auto simp: mem_fs_def mem_content_def split: option.splits)
  show "fs_seek (mem_fs sched files) f n = Inr f' \<Longrightarrow> mf_rest f' = drop n (mf_rest f)"
    by (auto simp: mem_fs_def)
qed

subsection \<open>Responses: lemmas and properties\<close>

lemma stream_file_range_form:
  assumes "stream_file_range fs p start len = Inr b"
  obtains s where "b = BodyStream s"
  using assms by (auto simp: stream_file_range_def rbind_Inr)

lemma respond_partial_Inr:
  assumes "respond_partial fs hv_err p mthd mime cc len etag a b = Inr r"
  shows "resp_status r = 206
    \<and> (''Content-Length'', show_nat (b - a + 1)) \<in> set (resp_headers r)
    \<and> (''Content-Range'', ''bytes '' @ show_nat a @ ''-'' @ show_nat b @ ''/'' @ show_nat len) \<in> set (resp_headers r)
    \<and> (if mthd = ''HEAD'' then resp_body r = BodyEmpty else stream_file_range fs p a (b - a + 1) = Inr (resp_body r))"
  using assms by (auto simp: respond_partial_def Let_def rbind_Inr build_response_Inr split: if_splits)

lemma respond_full_Inr:
  assumes "respond_full fs hv_err p mthd mime cc len mt etag = Inr r"
  shows "resp_status r = 200 \<and> (''Content-Length'', show_nat len) \<in> set (resp_headers r)
    \<and> (if mthd = ''HEAD'' then resp_body r = BodyEmpty else stream_file_range fs p 0 len = Inr (resp_body r))"
  using assms by (auto simp: respond_full_def rbind_Inr build_response_Inr split: if_splits)

text \<open>The branches of \<open>respond_with_file\<close>, by the status of the response.\<close>

lemma respond_with_file_cases:
  assumes "respond_with_file fs hv_err p mthd hget mime cc = Inr r"
    and "fs_metadata fs p = Inr (len, mt)"
  obtains (not_modified) "resp_status r = 304" "resp_body r = BodyEmpty"
  | (unsatisfiable) "resp_status r = 416" "resp_body r = BodyEmpty"
  | (partial) a b where "a \<le> b" "b < len"
      "respond_partial fs hv_err p mthd mime cc len (compute_etag_from_metadata len mt) a b = Inr r"
  | (full) "respond_full fs hv_err p mthd mime cc len mt (compute_etag_from_metadata len mt) = Inr r"
proof -
  let ?etag = "compute_etag_from_metadata len mt"
  let ?len = "if len \<le> usize_max then len else usize_max"
  have r: "(if not_modified_by_etag hget ?etag then build_response hv_err 304 [(''ETag'', ?etag)] BodyEmpty
       else if not_modified_by_date hget mt then build_response hv_err 304 [(''ETag'', ?etag)] BodyEmpty
       else case hget ''range'' of
         Some range_str \<Rightarrow>
           (case parse_single_range range_str ?len of
              Inr (start, en) \<Rightarrow> respond_partial fs hv_err p mthd mime cc len ?etag start en
            | Inl _ \<Rightarrow>
                build_response hv_err 416 [(''Content-Range'', ''bytes */'' @ show_nat len)] BodyEmpty)
       | None \<Rightarrow> respond_full fs hv_err p mthd mime cc len mt ?etag) = Inr r"
    using assms(1) unfolding respond_with_file_def assms(2)
    by (simp only: map_sum.simps rbind.simps prod.case Let_def id_apply)
  consider "not_modified_by_etag hget ?etag \<or> not_modified_by_date hget mt"
    | range_str where "\<not> (not_modified_by_etag hget ?etag \<or> not_modified_by_date hget mt)"
        "hget ''range'' = Some range_str"
    | "\<not> (not_modified_by_etag hget ?etag \<or> not_modified_by_date hget mt)" "hget ''range'' = None"
    by (cases "hget ''range''") auto
  then show ?thesis
  proof cases
    case 1
    with r show ?thesis by (intro not_modified) (auto simp: build_response_Inr split: if_splits)
  next
    case 2
    show ?thesis
    proof (cases "parse_single_range range_str ?len")
      case (Inl e)
      with r 2 show ?thesis by (intro unsatisfiable) (auto simp: build_response_Inr)
    next
      case (Inr ab)
      obtain a b where ab: "ab = (a, b)" by fastforce
      have "a \<le> b \<and> b < ?len"
        using Inr unfolding ab
        by (auto simp: parse_single_range_def Let_def rbind_Inr split: if_splits option.splits prod.splits)
      then show ?thesis using r 2 Inr ab by (intro partial [of a b]) (auto split: if_splits)
    qed
  next
    case 3
    with r show ?thesis by (intro full) auto
  qed
qed

text \<open>C8. A body served by \<open>GET\<close> is exactly the file, or exactly the requested range of it: polling
  the response body to its end always ends, and unless the disk reports an error the bytes
  delivered are the whole content (200) or the slice named by \<open>Content-Range\<close> (206), their
  number is the announced \<open>Content-Length\<close>. The chunk schedule of the disk is arbitrary.\<close>

theorem served_body:
  assumes "file_system rd rest wait fs content"
    and "fs_metadata fs p = Inr (length (content p), mt)"
    and "respond_with_file fs hv_err p ''GET'' hget mime cc = Inr r"
    and "resp_body r = BodyStream s"
  shows "\<exists>res s'. drain (frs_poll_next rd) s [] = Some (res, s') \<and>
    (\<forall>d. res = Inr d \<longrightarrow>
      (''Content-Length'', show_nat (length d)) \<in> set (resp_headers r) \<and>
      (resp_status r = 200 \<and> d = content p \<or>
       resp_status r = 206 \<and>
       (\<exists>a b. a \<le> b \<and> b < length (content p) \<and> d = take (b - a + 1) (drop a (content p)) \<and>
         (''Content-Range'', ''bytes '' @ show_nat a @ ''-'' @ show_nat b @ ''/'' @
            show_nat (length (content p))) \<in> set (resp_headers r))))"
proof -
  note drn = file_system.stream_file_range_drain [OF assms(1)]
  from assms(3,2) show ?thesis
  proof (cases rule: respond_with_file_cases)
    case (partial a b)
    note rp = respond_partial_Inr [OF partial(3)]
    have st: "stream_file_range fs p a (b - a + 1) = Inr (BodyStream s)" using rp assms(4) by simp
    have "length (take (b - a + 1) (drop a (content p))) = b - a + 1" using partial(1,2) by simp
    with drn [OF st] rp partial(1,2) show ?thesis by fastforce
  next
    case full
    note rf = respond_full_Inr [OF full]
    have st: "stream_file_range fs p 0 (length (content p)) = Inr (BodyStream s)" using rf assms(4) by simp
    from drn [OF st] rf show ?thesis by fastforce
  qed (use assms(4) in auto)
qed

lemmas serve_eval = respond_with_file_def respond_full_def respond_partial_def stream_file_range_def
  not_modified_by_etag_def not_modified_by_date_def cache_header_def last_modified_header_def
  build_response_def List.map_filter_def

lemma mem_fs_simps [simp]:
  "fs_metadata (mem_fs sched files) p =
     (case files p of Some c \<Rightarrow> Inr (length c, Some 0) | None \<Rightarrow> Inl ''not found'')"
  "fs_open (mem_fs sched files) p =
     (case files p of Some c \<Rightarrow> Inr \<lparr>mf_rest = c, mf_sched = sched\<rparr> | None \<Rightarrow> Inl ''not found'')"
  "fs_seek (mem_fs sched files) f n = Inr (f\<lparr>mf_rest := drop n (mf_rest f)\<rparr>)"
  "fs_canonicalize (mem_fs sched files) p = Inr p"
  "fs_is_file (mem_fs sched files) p = (files p \<noteq> None)"
  by (simp_all add: mem_fs_def)

lemma eval_range: "parse_single_range ''bytes=1-3'' 5 = Inr (1, 3)"
  by (simp add: parse_single_range_def trim_def trim_by_def is_ws_def starts_with_def parse_radix_def
      digit_of_def)

theorem served_body_witness:
  "\<exists>res s'. drain (frs_poll_next mem_file_read)
      \<lparr>frs_file = \<lparr>mf_rest = as_bytes ''ello'', mf_sched = [0, 2]\<rparr>, remaining = 3\<rparr> [] = Some (res, s') \<and>
    (\<forall>d. res = Inr d \<longrightarrow> (\<exists>a b. d = take (b - a + 1) (drop a (as_bytes ''hello''))))"
proof -
  define c where "c = as_bytes ''hello''"
  let ?files = "[''/f'' \<mapsto> c]"
  let ?r = "\<lparr>resp_status = 206, resp_headers = [(''Content-Type'', ''text/plain''), (''Content-Range'', ''bytes 1-3/5''),
      (''Content-Length'', ''3''), (''ETag'', compute_etag_from_metadata 5 (Some 0))],
      resp_body = BodyStream \<lparr>frs_file = \<lparr>mf_rest = as_bytes ''ello'', mf_sched = [0, 2]\<rparr>, remaining = 3\<rparr>\<rparr>"
  have c: "length c = 5" "drop (Suc 0) c = as_bytes ''ello''" by (simp_all add: c_def as_bytes_def)
  have m: "mem_content ?files ''/f'' = c" by (simp add: mem_content_def)
  have d: "show_nat (Suc 0) = ''1''" "show_nat 3 = ''3''" "show_nat 5 = ''5''"
    by code_simp+
  have "respond_with_file (mem_fs [0, 2] ?files) (\<lambda>_. None) ''/f'' ''GET''
      [''range'' \<mapsto> ''bytes=1-3''] ''text/plain'' None = Inr ?r"
    by (simp add: serve_eval eval_range [unfolded One_nat_def] usize_max_def d c)
  from served_body [OF mem_files.file_system_axioms _ this, of "Some 0"] show ?thesis
    by (simp add: m c) (metis c_def)
qed

subsection \<open>Path resolution: lemmas and properties\<close>

lemma split_on_append_gen: "split_on c (xs @ c # ys) = split_on c xs @ split_on c ys"
proof (induction xs)
  case (Cons x xs)
  obtain p ps where "split_on c xs = p # ps" by (cases "split_on c xs") auto
  with Cons show ?case by auto
qed simp

lemma starts_with_slash: "starts_with ''/'' p \<longleftrightarrow> (\<exists>t. p = CHR ''/'' # t)"
  by (auto simp: starts_with_iff)

text \<open>Below an absolute root, the components of a joined path are those of the root followed by
  those of the relative path.\<close>

definition rel_components :: "string \<Rightarrow> component list" where
  "rel_components rel = concat (map inner_component (split_on CHR ''/'' rel))"

lemma components_join:
  assumes root: "starts_with ''/'' root" and rel: "\<not> starts_with ''/'' rel"
  shows "components (path_join root rel) = components root @ rel_components rel"
proof (cases "ends_with ''/'' root")
  case True
  then obtain r where r: "root = r @ ''/''" by (auto simp: ends_with_iff)
  have "split_on CHR ''/'' (root @ rel) = split_on CHR ''/'' r @ split_on CHR ''/'' rel"
    using split_on_append_gen [of _ r rel] by (simp add: r)
  moreover have "split_on CHR ''/'' root = split_on CHR ''/'' r @ [[]]"
    using split_on_append_gen [of _ r "[]"] by (simp add: r)
  moreover have "starts_with ''/'' (root @ rel)" using root by (auto simp: starts_with_iff)
  ultimately show ?thesis
    using root rel True
    by (simp add: path_join_def components_def rel_components_def inner_component_def)
next
  case False
  have "starts_with ''/'' (root @ ''/'' @ rel)" using root by (auto simp: starts_with_iff)
  moreover have "root \<noteq> ''''" using root by (auto simp: starts_with_iff)
  ultimately show ?thesis
    using root rel False split_on_append_gen [of "CHR ''/''" root rel]
    by (simp add: path_join_def components_def rel_components_def)
qed

lemma normalize_append:
  "normalize_components acc (cs @ ds) = normalize_components (normalize_components acc cs) ds"
  by (induction acc cs rule: normalize_components.induct) auto

lemma normalize_plain:
  "\<forall>c \<in> set cs. c \<noteq> ParentDir \<and> c \<noteq> CurDir \<Longrightarrow> normalize_components acc cs = acc @ cs"
proof (induction cs arbitrary: acc)
  case (Cons c cs)
  then show ?case by (cases c) auto
qed simp

lemma inner_component_plain: "c \<in> set (inner_component s) \<Longrightarrow> c = ParentDir \<or> c = Normal s"
  by (auto simp: inner_component_def split: if_splits)

lemma is_path_safe_iff:
  "is_path_safe root p \<longleftrightarrow> starts_with (components root) (normalize_components [] (components p))"
  unfolding is_path_safe_def Let_def starts_with_def
  by (metis leI length_take min.absorb4 min.commute nat_less_le)

text \<open>C2. Containment: whenever \<open>ServeDir\<close> serves bytes, they are those of one existing file, and
  the lexical normal form of its path lies below the canonical root, unless it is the fallback
  configured by the operator; and with symlink protection on, the path that the file system
  resolves it to lies below the canonical root, fallback included.\<close>

theorem serve_dir_contained:
  assumes "serve_dir_serve fs hv_err guess sd mthd path hget = Inr r" and "resp_body r \<noteq> BodyEmpty"
  shows "\<exists>aroot p mime. fs_canonicalize fs (sd_root sd) = Inr aroot \<and> fs_is_file fs p \<and>
    respond_with_file fs hv_err p mthd hget mime (sd_cache_control sd) = Inr r \<and>
    (starts_with (components aroot) (normalize_components [] (components p)) \<or>
     (\<exists>fb. sd_fallback sd = Some fb \<and> p = path_join aroot fb)) \<and>
    (deny_symlink_escapes sd \<longrightarrow> (\<exists>q. fs_canonicalize fs p = Inr q \<and> path_starts_with q aroot))"
proof -
  have no_body: "build_response hv_err st hs BodyEmpty \<noteq> Inr r" for st hs
    using assms(2) by (auto simp: build_response_Inr)
  obtain aroot p where rp: "resolve_path fs sd path = Inr (Inr (aroot, p))"
    and esc: "serve_resolved fs hv_err guess sd mthd hget aroot p = Inr r"
  proof -
    obtain x where x: "resolve_path fs sd path = Inr x"
      and y: "(case x of Inl st \<Rightarrow> build_response hv_err st [] BodyEmpty
        | Inr (abs_root, p) \<Rightarrow> serve_resolved fs hv_err guess sd mthd hget abs_root p) = Inr r"
      using assms(1) no_body by (auto simp: serve_dir_serve_def rbind_Inr split: if_splits)
    show ?thesis using x y no_body that by (cases x) auto
  qed
  from esc have deny: "deny_symlink_escapes sd \<longrightarrow> (\<exists>q. fs_canonicalize fs p = Inr q \<and> path_starts_with q aroot)"
    using no_body by (auto simp: serve_resolved_def rbind_Inr split: if_splits)
  from esc have resp: "\<exists>mime. respond_with_file fs hv_err p mthd hget mime (sd_cache_control sd) = Inr r"
    using no_body by (auto simp: serve_resolved_def rbind_Inr Let_def split: if_splits)
  from rp have "fs_canonicalize fs (sd_root sd) = Inr aroot" "fs_is_file fs p"
    "is_path_safe aroot p \<or> (\<exists>fb. sd_fallback sd = Some fb \<and> p = path_join aroot fb)"
    by (auto simp: resolve_path_def rbind_Inr Let_def split: if_splits option.splits)
  with deny resp show ?thesis unfolding is_path_safe_iff by blast
qed

theorem serve_dir_contained_witness:
  "\<exists>p. fs_is_file (mem_fs [] [''/w/f'' \<mapsto> as_bytes ''hi'']) p \<and> p \<noteq> ''/w/g''"
proof -
  define c where "c = as_bytes ''hi''"
  have c: "length c = 2" by (simp add: c_def)
  let ?fs = "mem_fs [] [''/w/f'' \<mapsto> c]"
  let ?sd = "with_symlink_protection True (serve_dir_new ''/w'')"
  have lm: "format_http_date 0 = format_http_date 0" by simp
  have comps: "components ''/w'' = [RootDir, Normal ''w'']"
    "components ''/w/f'' = [RootDir, Normal ''w'', Normal ''f'']"
    by (simp_all add: components_def inner_component_def starts_with_def)
  have join: "path_join ''/w'' ''f'' = ''/w/f''"
    by (simp add: path_join_def starts_with_def ends_with_def)
  have ext: "path_extension ''/w/f'' = ''''" by (simp add: path_extension_def comps rsplit_once_def)
  have res: "resolve_path ?fs ?sd ''/f'' = Inr (Inr (''/w'', ''/w/f''))"
    by (simp add: resolve_path_def join is_path_safe_def comps with_symlink_protection_def serve_dir_new_def)
  have "\<exists>r. serve_dir_serve ?fs (\<lambda>_. None) (\<lambda>_. ''text/plain'') ?sd ''GET'' ''/f'' (\<lambda>_. None) = Inr r
      \<and> resp_body r \<noteq> BodyEmpty"
    by (simp add: serve_dir_serve_def res)
      (simp add: serve_resolved_def with_symlink_protection_def serve_dir_new_def path_starts_with_def comps starts_with_def
        ext Let_def serve_eval)
  then obtain r where r: "serve_dir_serve ?fs (\<lambda>_. None) (\<lambda>_. ''text/plain'') ?sd ''GET'' ''/f'' (\<lambda>_. None) = Inr r"
    "resp_body r \<noteq> BodyEmpty" by blast
  from serve_dir_contained [OF r] show ?thesis by (auto simp: c_def split: if_splits)
qed

text \<open>No false rejection, and the traversal check: below an absolute canonical root a request
  path without \<open>..\<close> components passes the path check, and \<open>/../s\<close>, for a sibling \<open>s\<close> that is not
  the root's own name, is refused with 403 whatever the file system holds.\<close>

theorem path_check:
  assumes root: "starts_with ''/'' aroot" and cr: "components aroot = RootDir # map Normal (rs @ [b])"
    and rel: "\<not> starts_with ''/'' rel" and s: "CHR ''/'' \<notin> set s" "s \<noteq> b"
    and fs: "fs_canonicalize fs (sd_root sd) = Inr aroot"
  shows "(ParentDir \<notin> set (rel_components rel) \<longrightarrow> is_path_safe aroot (path_join aroot rel))
    \<and> resolve_path fs sd (''/../'' @ s) = Inr (Inl 403)"
proof
  have norm_root: "normalize_components [] (components aroot) = components aroot"
    unfolding cr by (subst normalize_plain) auto
  have inner: "CurDir \<notin> set (rel_components x)" for x
    by (auto simp: rel_components_def dest: inner_component_plain)
  show "ParentDir \<notin> set (rel_components rel) \<longrightarrow> is_path_safe aroot (path_join aroot rel)"
  proof
    assume p: "ParentDir \<notin> set (rel_components rel)"
    have "\<forall>c \<in> set (rel_components rel). c \<noteq> ParentDir \<and> c \<noteq> CurDir"
      using p inner by metis
    from normalize_plain [OF this] show "is_path_safe aroot (path_join aroot rel)"
      by (simp add: is_path_safe_iff components_join [OF root rel] normalize_append norm_root)
  qed
  have ns: "\<not> starts_with ''/'' (''../'' @ s)" by (simp add: starts_with_def)
  have sp: "split_on CHR ''/'' (''../'' @ s) = [''..'', s]"
    using s(1) by (simp add: split_on_id)
  have rc: "rel_components (''../'' @ s) = ParentDir # inner_component s"
    unfolding rel_components_def sp by (simp add: inner_component_def)
  have rc': "normalize_components acc (inner_component s) =
      (if s = '''' \<or> s = ''.'' then acc else if s = ''..'' then butlast acc else acc @ [Normal s])" for acc
    by (simp add: inner_component_def)
  have "normalize_components [] (components (path_join aroot (''../'' @ s))) =
      normalize_components (butlast (components aroot)) (inner_component s)"
    by (simp only: components_join [OF root ns] normalize_append norm_root rc normalize_components.simps)
  moreover have "butlast (components aroot) = RootDir # map Normal rs"
    by (simp add: cr butlast_append)
  ultimately have "\<not> is_path_safe aroot (path_join aroot (''../'' @ s))"
    using s(2) by (auto simp: is_path_safe_iff rc' cr starts_with_def butlast_conv_take
        dest: arg_cong [where f = length])
  moreover have "dropWhile (\<lambda>c. c = CHR ''/'') (''/../'' @ s) = ''../'' @ s" by simp
  ultimately show "resolve_path fs sd (''/../'' @ s) = Inr (Inl 403)"
    unfolding resolve_path_def Let_def by (simp add: fs)
qed

theorem path_check_witness:
  "is_path_safe ''/w'' (path_join ''/w'' ''a/b'')
    \<and> resolve_path (mem_fs [] [''/etc/passwd'' \<mapsto> []]) (serve_dir_new ''/w'') ''/../etc'' = Inr (Inl 403)"
proof -
  have c: "components ''/w'' = RootDir # map Normal ([] @ [''w''])"
    by (simp add: components_def inner_component_def starts_with_def)
  from path_check [of "''/w''" "[]" "''w''" "''a/b''" "''etc''"
      "mem_fs [] [''/etc/passwd'' \<mapsto> []]" "serve_dir_new ''/w''", OF _ c]
  show ?thesis
    by (simp add: starts_with_def serve_dir_new_def rel_components_def inner_component_def)
qed

subsection \<open>Methods and conditional requests: properties\<close>

text \<open>\<open>HEAD\<close> answers what \<open>GET\<close> would: when \<open>GET\<close> on a file gives a response, \<open>HEAD\<close> gives
  the same status and headers, \<open>Content-Length\<close> of the range or file included, with an empty
  body, and without opening the file.\<close>

theorem head_like_get:
  assumes "respond_with_file fs hv_err p ''GET'' hget mime cc = Inr r"
  shows "respond_with_file (fs\<lparr>fs_open := \<lambda>_. Inl ''not opened''\<rparr>) hv_err p ''HEAD'' hget mime cc =
    Inr (r\<lparr>resp_body := BodyEmpty\<rparr>)"
proof -
  let ?fs = "fs\<lparr>fs_open := \<lambda>_. Inl ''not opened''\<rparr>"
  obtain len mt where meta: "fs_metadata fs p = Inr (len, mt)"
    using assms by (auto simp: respond_with_file_def rbind_Inr)
  have part: "respond_partial ?fs hv_err p ''HEAD'' mime cc len etag a b = Inr (r\<lparr>resp_body := BodyEmpty\<rparr>)"
    if "respond_partial fs hv_err p ''GET'' mime cc len etag a b = Inr r" for etag a b
    using that by (auto simp: respond_partial_def Let_def rbind_Inr build_response_Inr)
  have full: "respond_full ?fs hv_err p ''HEAD'' mime cc len mt etag = Inr (r\<lparr>resp_body := BodyEmpty\<rparr>)"
    if "respond_full fs hv_err p ''GET'' mime cc len mt etag = Inr r" for etag
    using that by (auto simp: respond_full_def rbind_Inr build_response_Inr)
  have build: "build_response hv_err st hs BodyEmpty = Inr (r\<lparr>resp_body := BodyEmpty\<rparr>)"
    if "build_response hv_err st hs BodyEmpty = Inr r" for st hs
    using that by (auto simp: build_response_Inr)
  show ?thesis
    using assms part full build
    by (simp add: respond_with_file_def meta Let_def split: if_splits option.splits sum.splits prod.splits)
qed

theorem head_like_get_witness:
  "respond_with_file (mem_fs [] [''/f'' \<mapsto> [1, 2]]\<lparr>fs_open := \<lambda>_. Inl ''not opened''\<rparr>) (\<lambda>_. None) ''/f''
     ''HEAD'' (\<lambda>_. None) ''text/plain'' None =
   Inr \<lparr>resp_status = 200,
     resp_headers = [(''Content-Type'', ''text/plain''), (''Content-Length'', show_nat (Suc (Suc 0))),
       (''ETag'', compute_etag_from_metadata (Suc (Suc 0)) (Some 0)), (''Last-Modified'', format_http_date 0)],
     resp_body = BodyEmpty\<rparr>"
  by (subst head_like_get [where r = "\<lparr>resp_status = 200,
     resp_headers = [(''Content-Type'', ''text/plain''), (''Content-Length'', show_nat (Suc (Suc 0))),
       (''ETag'', compute_etag_from_metadata (Suc (Suc 0)) (Some 0)), (''Last-Modified'', format_http_date 0)],
     resp_body = BodyStream \<lparr>frs_file = \<lparr>mf_rest = [1, 2], mf_sched = []\<rparr>, remaining = 2\<rparr>\<rparr>"])
    (simp_all add: serve_eval nanos_as_secs_def)

lemma show_hex_inj: "show_hex a = show_hex b \<longleftrightarrow> a = b"
proof
  assume e: "show_hex a = show_hex b"
  have "a < 2 ^ (a + b + 1)" "b < 2 ^ (a + b + 1)"
    by (rule less_le_trans [OF less_exp], rule power_increasing; simp)+
  then have "parse_radix 16 (a + b + 1) (show_hex a) = Some a" "parse_radix 16 (a + b + 1) (show_hex b) = Some b"
    by (auto intro!: parse_radix_show_base)
  with e show "a = b" by simp
qed simp

lemma show_hex_no_dash: "CHR ''-'' \<notin> set (show_hex n)"
  using show_hex_digits [of "CHR ''-''" n] by (auto simp: is_hex_digit_def is_digit_def)

text \<open>The entity tag tells versions of a file apart: with modification times after the epoch,
  two tags are equal exactly when both the modification time, to the nanosecond, and the length
  are; and a tag sent back in \<open>If-None-Match\<close>, alone or in a list, is recognised.\<close>

theorem etag_injective:
  assumes "0 \<le> mt" and "0 \<le> mt'" and "CHR '','' \<notin> set other"
  shows "(compute_etag_from_metadata len (Some mt) = compute_etag_from_metadata len' (Some mt')
      \<longleftrightarrow> len = len' \<and> mt = mt')
    \<and> etag_matches (compute_etag_from_metadata len (Some mt)) (compute_etag_from_metadata len (Some mt))
    \<and> etag_matches ([CHR 0x22] @ other @ '', '' @ compute_etag_from_metadata len (Some mt))
        (compute_etag_from_metadata len (Some mt))"
proof -
  let ?e = "compute_etag_from_metadata len (Some mt)"
  have e: "compute_etag_from_metadata len (Some mt) = [CHR 0x22] @ show_hex (nat mt) @ ''-'' @ show_hex len @ [CHR 0x22]"
    if "0 \<le> mt" for len mt using that by (simp add: compute_etag_from_metadata_def)
  have inj: "a = a' \<and> b = b'"
    if "show_hex a @ ''-'' @ show_hex b @ [CHR 0x22] = show_hex a' @ ''-'' @ show_hex b' @ [CHR 0x22]" for a a' b b'
  proof -
    have "split_once CHR ''-'' (show_hex x @ ''-'' @ show_hex y @ [CHR 0x22]) =
        Some (show_hex x, show_hex y @ [CHR 0x22])" for x y
      using split_once_append [OF show_hex_no_dash] by simp
    with that have "(show_hex a, show_hex b @ [CHR 0x22]) = (show_hex a', show_hex b' @ [CHR 0x22])"
      by (metis option.inject)
    then show ?thesis by (simp add: show_hex_inj)
  qed
  have hex: "\<not> is_ws c \<and> c \<noteq> CHR '',''" if "is_hex_digit c" for c
    using that is_digit_not_ws [of c] by (auto simp: is_hex_digit_def is_digit_def is_ws_def)
  have chars: "\<not> is_ws c \<and> c \<noteq> CHR '',''" if "c \<in> set ?e" for c
    using that show_hex_digits hex by (auto simp: e [OF assms(1)] is_ws_def)
  have trim_e: "trim ?e = ?e" by (rule trim_no_ws) (use chars in blast)
  have split_e: "split_on CHR '','' ?e = [?e]" by (rule split_on_id) (use chars in blast)
  have ne: "?e \<noteq> ''*''" by (simp add: e [OF assms(1)])
  have trim_se: "trim (CHR '' '' # ?e) = ?e"
    using trim_e by (simp add: trim_def trim_by_def is_ws_def e [OF assms(1)])
  have ends: "trim ([CHR 0x22] @ other @ '', '' @ ?e) = [CHR 0x22] @ other @ '', '' @ ?e"
    unfolding trim_def by (rule trim_by_id) (simp add: is_ws_def e [OF assms(1)])
  have "split_on CHR '','' ([CHR 0x22] @ other @ '', '' @ ?e) = [[CHR 0x22] @ other, CHR '' '' # ?e]"
    using split_on_append [of "CHR '',''" "[CHR 0x22] @ other" "CHR '' '' # ?e"] assms(3) split_e
    by simp
  then have "etag_matches ([CHR 0x22] @ other @ '', '' @ ?e) ?e"
    unfolding etag_matches_def Let_def ends using trim_se by simp
  moreover have "etag_matches ?e ?e"
    unfolding etag_matches_def Let_def trim_e using split_e trim_e by simp
  moreover have "compute_etag_from_metadata len (Some mt) = compute_etag_from_metadata len' (Some mt')
      \<longleftrightarrow> len = len' \<and> mt = mt'"
  proof
    assume "compute_etag_from_metadata len (Some mt) = compute_etag_from_metadata len' (Some mt')"
    then have "nat mt = nat mt' \<and> len = len'"
      by (intro inj) (simp add: e [OF assms(1)] e [OF assms(2)])
    then show "len = len' \<and> mt = mt'" using eq_nat_nat_iff [OF assms(1,2)] by simp
  qed simp
  ultimately show ?thesis by simp
qed

theorem etag_injective_witness:
  "compute_etag_from_metadata 5 (Some 1) \<noteq> compute_etag_from_metadata 5 (Some 2)
    \<and> etag_matches ([CHR 0x22] @ ''x'' @ '', '' @ compute_etag_from_metadata 5 (Some 1))
        (compute_etag_from_metadata 5 (Some 1))"
  using etag_injective [of 1 2 "''x''" 5 5] by simp

text \<open>The two conditions are independent: when \<open>If-None-Match\<close> is present and does not match
  (the client holds another version), a fresh enough \<open>If-Modified-Since\<close>, which has only the
  resolution of a second, still turns the response into 304.\<close>

theorem stale_not_modified:
  assumes "fs_metadata fs p = Inr (len, Some mt)" and "0 \<le> mt" and "nat mt div 1000000000 < 2 ^ 56"
    and "hget ''if-none-match'' = Some tag" and "\<not> etag_matches tag (compute_etag_from_metadata len (Some mt))"
    and "hget ''if-modified-since'' = Some (format_http_date (nat mt div 1000000000))"
    and "hv_err (compute_etag_from_metadata len (Some mt)) = None"
  shows "\<exists>r. respond_with_file fs hv_err p mthd hget mime cc = Inr r \<and> resp_status r = 304"
  using assms parse_format_http_date [OF assms(3)]
  by (simp add: respond_with_file_def not_modified_by_etag_def not_modified_by_date_def
      is_modified_since_def nanos_as_secs_def build_response_def List.map_filter_def Let_def)

theorem stale_not_modified_witness:
  "\<exists>r. respond_with_file (mem_fs [] [''/f'' \<mapsto> as_bytes ''new'']) (\<lambda>_. None) ''/f'' ''GET''
      [''if-none-match'' \<mapsto> ''x'', ''if-modified-since'' \<mapsto> format_http_date 0] ''text/plain'' None = Inr r
    \<and> resp_status r = 304"
  by (rule stale_not_modified [where mt = 0 and len = 3 and tag = "''x''"])
    (simp_all add: etag_matches_def trim_def trim_by_def is_ws_def compute_etag_from_metadata_def)

end
