(* ===== verification/Router.thy ===== *)
theory Router
  imports Body
begin

section \<open>The router (oxihttp-server router.rs)\<close>

text \<open>
  Patterns, parameter extraction, percent decoding, the dispatch over virtual hosts, nested
  routers and routes, and the limited reading of request bodies. A handler is a parameter of type
  \<open>'h\<close>-valued functions: it takes the request and the path parameters and gives a result. The
  typed state map (\<open>http::Extensions\<close>) is the type \<open>'x\<close>, a state is the function that inserts it.
  Headers are read with \<open>get\<close> and \<open>to_str\<close>. The parser of the \<open>http\<close> crate for a path is the
  parameter \<open>uri_of\<close>, which gives the path and the query it reads, or the text of its error.
\<close>

subsection \<open>Patterns\<close>

datatype segment = Literal string | Param string | Wildcard string

definition non_empty_segments :: "string \<Rightarrow> string list" where
  "non_empty_segments p = filter (\<lambda>s. s \<noteq> '''') (split_on CHR ''/'' p)"

definition parse_segment :: "string \<Rightarrow> segment" where
  "parse_segment s =
     (case strip_prefix '':'' s of Some param \<Rightarrow> Param param
      | None \<Rightarrow> (case strip_prefix ''*'' s of Some wildcard \<Rightarrow> Wildcard wildcard
      | None \<Rightarrow> Literal s))"

definition parse_pattern :: "string \<Rightarrow> segment list" where
  "parse_pattern pattern = map parse_segment (non_empty_segments pattern)"

type_synonym params = "string \<rightharpoonup> string"

text \<open>The loop over the segments; the list is what remains of the path from \<open>path_idx\<close>.\<close>

fun match_segments :: "segment list \<Rightarrow> string list \<Rightarrow> params \<Rightarrow> params option" where
  "match_segments [] rest params = (if rest = [] then Some params else None)"
| "match_segments (Literal expected # segs) rest params =
     (case rest of [] \<Rightarrow> None
      | s # rest' \<Rightarrow> if s \<noteq> expected then None else match_segments segs rest' params)"
| "match_segments (Param name # segs) rest params =
     (case rest of [] \<Rightarrow> None
      | s # rest' \<Rightarrow> match_segments segs rest' (params(name \<mapsto> s)))"
| "match_segments (Wildcard name # segs) rest params =
     (case rest of [] \<Rightarrow> None
      | _ \<Rightarrow> Some (params(name \<mapsto> join ''/'' rest)))"

definition match_pattern :: "segment list \<Rightarrow> string \<Rightarrow> params option" where
  "match_pattern segments path = match_segments segments (non_empty_segments path) Map.empty"

subsection \<open>Query strings\<close>

text \<open>\<open>String::push(b as char)\<close>: the UTF-8 encoding of a character below 256.\<close>

definition push_byte_char :: "char \<Rightarrow> string" where
  "push_byte_char c =
     (let k = (of_char c :: nat) in
      if k < 128 then [c] else [char_of (192 + k div 64), char_of (128 + k mod 64)])"

fun percent_decode :: "string \<Rightarrow> string" where
  "percent_decode [] = []"
| "percent_decode (b # rest) =
     (if b = CHR ''%'' then
        (case rest of
           h # l # rest' \<Rightarrow>
             (case parse_radix 16 8 [h, l] of
                Some decoded \<Rightarrow> push_byte_char (char_of decoded) @ percent_decode rest'
              | None \<Rightarrow> CHR ''%'' # percent_decode rest')
         | _ \<Rightarrow> ''%'')
      else if b = CHR ''+'' then CHR '' '' # percent_decode rest
      else push_byte_char b @ percent_decode rest)"

definition query_pairs :: "string \<Rightarrow> (string \<times> string) list" where
  "query_pairs q =
     List.map_filter (\<lambda>pair. map_option (\<lambda>(k, v). (percent_decode k, percent_decode v))
       (split_once CHR ''='' pair)) (split_on CHR ''&'' q)"

definition query_params :: "string option \<Rightarrow> params" where
  "query_params query = (case query of Some q \<Rightarrow> map_of (rev (query_pairs q)) | None \<Rightarrow> Map.empty)"

definition query_param :: "string option \<Rightarrow> string \<Rightarrow> string option" where
  "query_param query name = query_params query name"

subsection \<open>Requests and routers\<close>

record ('x, 'b) http_request =
  rq_method :: string
  rq_path :: string
  rq_query :: "string option"
  rq_headers :: "string \<Rightarrow> string option"
  rq_ext :: 'x
  rq_body :: 'b

text \<open>The server's \<open>Request\<close> pairs the request with its path parameters.\<close>

type_synonym ('x, 'b) handler = "('x, 'b) http_request \<times> params \<Rightarrow> bytes response oxi_result"

datatype 'h route = Route (rt_method: string) (rt_segments: "segment list") (rt_handler: 'h)

datatype ('h, 'x) router = Router
  (routes: "'h route list")
  (nested: "(string \<times> ('h, 'x) router) list")
  (vhosts: "(string \<times> ('h, 'x) router) list")
  (fallback: "'h option")
  (method_not_allowed_handler: "'h option")
  (state: "('x \<Rightarrow> 'x) option")

definition router_new :: "('h, 'x) router" where
  "router_new = Router [] [] [] None None None"

fun with_state :: "('x \<Rightarrow> 'x) \<Rightarrow> ('h, 'x) router \<Rightarrow> ('h, 'x) router" where
  "with_state inject (Router rs ns vs fb mna st) = Router rs ns vs fb mna (Some inject)"

fun add_route :: "string \<Rightarrow> string \<Rightarrow> 'h \<Rightarrow> ('h, 'x) router \<Rightarrow> ('h, 'x) router" where
  "add_route mthd path h (Router rs ns vs fb mna st) =
     Router (rs @ [Route mthd (parse_pattern path) h]) ns vs fb mna st"

definition route_get :: "string \<Rightarrow> 'h \<Rightarrow> ('h, 'x) router \<Rightarrow> ('h, 'x) router" where
  "route_get = add_route ''GET''"

definition route_post :: "string \<Rightarrow> 'h \<Rightarrow> ('h, 'x) router \<Rightarrow> ('h, 'x) router" where
  "route_post = add_route ''POST''"

definition route_put :: "string \<Rightarrow> 'h \<Rightarrow> ('h, 'x) router \<Rightarrow> ('h, 'x) router" where
  "route_put = add_route ''PUT''"

definition route_delete :: "string \<Rightarrow> 'h \<Rightarrow> ('h, 'x) router \<Rightarrow> ('h, 'x) router" where
  "route_delete = add_route ''DELETE''"

definition route_patch :: "string \<Rightarrow> 'h \<Rightarrow> ('h, 'x) router \<Rightarrow> ('h, 'x) router" where
  "route_patch = add_route ''PATCH''"

definition route_head :: "string \<Rightarrow> 'h \<Rightarrow> ('h, 'x) router \<Rightarrow> ('h, 'x) router" where
  "route_head = add_route ''HEAD''"

definition trim_end_slashes :: "string \<Rightarrow> string" where
  "trim_end_slashes s = rev (dropWhile (\<lambda>c. c = CHR ''/'') (rev s))"

fun nest :: "string \<Rightarrow> ('h, 'x) router \<Rightarrow> ('h, 'x) router \<Rightarrow> ('h, 'x) router" where
  "nest prefix sub (Router rs ns vs fb mna st) = Router rs (ns @ [(trim_end_slashes prefix, sub)]) vs fb mna st"

fun add_host :: "string \<Rightarrow> ('h, 'x) router \<Rightarrow> ('h, 'x) router \<Rightarrow> ('h, 'x) router" where
  "add_host h sub (Router rs ns vs fb mna st) = Router rs ns (vs @ [(h, sub)]) fb mna st"

fun set_fallback :: "'h \<Rightarrow> ('h, 'x) router \<Rightarrow> ('h, 'x) router" where
  "set_fallback h (Router rs ns vs fb mna st) = Router rs ns vs (Some h) mna st"

fun set_method_not_allowed :: "'h \<Rightarrow> ('h, 'x) router \<Rightarrow> ('h, 'x) router" where
  "set_method_not_allowed h (Router rs ns vs fb mna st) = Router rs ns vs fb (Some h) st"

definition health :: "string \<Rightarrow> (('x, 'b) handler, 'x) router \<Rightarrow> (('x, 'b) handler, 'x) router" where
  "health path = route_get path (\<lambda>_. Inr \<lparr>resp_status = 200, resp_headers = [], resp_body = as_bytes ''OK''\<rparr>)"

definition route_count :: "('h, 'x) router \<Rightarrow> nat" where
  "route_count r = length (routes r)"

subsection \<open>Dispatch\<close>

text \<open>The first entry whose key satisfies the test.\<close>

definition find_sub :: "(string \<Rightarrow> bool) \<Rightarrow> (string \<times> 'r) list \<Rightarrow> (string \<times> 'r) option" where
  "find_sub P subs = List.find (\<lambda>(k, r). P k) subs"

lemma find_sub_in: "find_sub P subs = Some (k, r) \<Longrightarrow> (k, r) \<in> set subs \<and> P k"
  by (auto simp: find_sub_def find_Some_iff in_set_conv_nth)

lemma find_sub_size:
  assumes "find_sub P subs = Some (k, r)"
  shows "size r < size_list (size_prod (\<lambda>_. 0) size) subs"
proof -
  have "(k, r) \<in> set subs" using find_sub_in [OF assms] by simp
  then have "size_prod (\<lambda>_. 0) size (k, r) \<le> size_list (size_prod (\<lambda>_. 0) size) subs"
    by (rule size_list_estimation') simp
  then show ?thesis by simp
qed

lemma nested_size: "find_sub P (nested r) = Some (k, sub) \<Longrightarrow> size sub < size r"
  by (cases r) (auto dest!: find_sub_size)

text \<open>The scan of the routes: the handler that runs, or whether the path alone matched.\<close>

fun scan_routes :: "'h route list \<Rightarrow> string \<Rightarrow> string \<Rightarrow> bool \<Rightarrow> ('h \<times> params) option \<times> bool" where
  "scan_routes [] mthd path path_matched = (None, path_matched)"
| "scan_routes (r # rs) mthd path path_matched =
     (case match_pattern (rt_segments r) path of
        Some params \<Rightarrow>
          (if rt_method r = mthd then (Some (rt_handler r, params), True)
           else scan_routes rs mthd path True)
      | None \<Rightarrow> scan_routes rs mthd path path_matched)"

definition sub_path_of :: "string \<Rightarrow> string \<Rightarrow> string" where
  "sub_path_of prefix path =
     (let sub = drop (length prefix) path in if sub = '''' then ''/'' else sub)"

definition scan_params :: "('h \<times> params) option \<times> bool \<Rightarrow> params option" where
  "scan_params res =
     (case res of (Some (h, params), _) \<Rightarrow> Some params
      | (None, True) \<Rightarrow> Some Map.empty
      | (None, False) \<Rightarrow> None)"

function resolve :: "('h, 'x) router \<Rightarrow> string \<Rightarrow> string \<Rightarrow> params option" where
  "resolve r mthd path =
     (case find_sub (\<lambda>prefix. starts_with prefix path) (nested r) of
        Some (prefix, sub) \<Rightarrow> resolve sub mthd (sub_path_of prefix path)
      | None \<Rightarrow> scan_params (scan_routes (routes r) mthd path False))"
  by pat_completeness auto

termination
  by (relation "measure (\<lambda>(r, _). size r)") (auto dest: nested_size)

declare resolve.simps [simp del]

definition inject_state :: "('x \<Rightarrow> 'x) option \<Rightarrow> ('x, 'b) http_request \<Rightarrow> ('x, 'b) http_request" where
  "inject_state st req = (case st of Some f \<Rightarrow> req\<lparr>rq_ext := f (rq_ext req)\<rparr> | None \<Rightarrow> req)"

text \<open>The parent's state goes into the request of a sub-router that has none.\<close>

definition inherit_state ::
  "('h, 'x) router \<Rightarrow> ('x \<Rightarrow> 'x) option \<Rightarrow> ('x, 'b) http_request \<Rightarrow> ('x, 'b) http_request" where
  "inherit_state sub st req = (if state sub = None then inject_state st req else req)"

definition bare_host :: "string \<Rightarrow> string" where
  "bare_host host_str = hd (split_on CHR '':'' host_str)"

definition find_vhost :: "(string \<times> 'r) list \<Rightarrow> string option \<Rightarrow> (string \<times> 'r) option" where
  "find_vhost vs host =
     (case host of Some host_str \<Rightarrow> find_sub (\<lambda>name. eq_ignore_case name (bare_host host_str)) vs
      | None \<Rightarrow> None)"

lemma vhost_size: "find_vhost (vhosts r) h = Some (k, sub) \<Longrightarrow> size sub < size r"
  by (cases r) (auto simp: find_vhost_def dest!: find_sub_size split: option.splits)

definition canned :: "nat \<Rightarrow> string \<Rightarrow> bytes response oxi_result" where
  "canned st text = Inr \<lparr>resp_status = st, resp_headers = [], resp_body = as_bytes text\<rparr>"

definition run_routes ::
  "(('x, 'b) handler, 'x) router \<Rightarrow> ('x, 'b) http_request \<Rightarrow> bytes response oxi_result" where
  "run_routes r req =
     (let req' = inject_state (state r) req in
      case scan_routes (routes r) (rq_method req) (rq_path req) False of
        (Some (h, params), _) \<Rightarrow> h (req', params)
      | (None, True) \<Rightarrow>
          (case method_not_allowed_handler r of Some h \<Rightarrow> h (req', Map.empty)
           | None \<Rightarrow> canned 405 ''Method Not Allowed'')
      | (None, False) \<Rightarrow>
          (case fallback r of Some h \<Rightarrow> h (req', Map.empty)
           | None \<Rightarrow> canned 404 ''Not Found''))"

type_synonym uri_parser = "string \<Rightarrow> string + string \<times> string option"

function dispatch ::
  "uri_parser \<Rightarrow> (('x, 'b) handler, 'x) router \<Rightarrow> ('x, 'b) http_request \<Rightarrow> bytes response oxi_result" where
  "dispatch uri_of r req =
     (case find_vhost (vhosts r) (rq_headers req ''host'') of
        Some (name, sub) \<Rightarrow> dispatch uri_of sub (inherit_state sub (state r) req)
      | None \<Rightarrow>
         (case find_sub (\<lambda>prefix. starts_with prefix (rq_path req)) (nested r) of
            Some (prefix, sub) \<Rightarrow>
              (case uri_of (sub_path_of prefix (rq_path req)) of
                 Inl e \<Rightarrow> Inl (HttpErr e)
               | Inr (path, query) \<Rightarrow>
                   dispatch uri_of sub
                     (inherit_state sub (state r) (req\<lparr>rq_path := path, rq_query := query\<rparr>)))
          | None \<Rightarrow> run_routes r req))"
  by pat_completeness auto

termination
  by (relation "measure (\<lambda>(_, r, _). size r)") (auto dest: nested_size vhost_size)

declare dispatch.simps [simp del]

subsection \<open>Reading a request body\<close>

text \<open>A frame of a \<open>hyper\<close> body: data or trailers; an error is its display text.\<close>

datatype http_frame = FData bytes | FTrailers

type_synonym 's frame_poller = "'s \<Rightarrow> 's \<times> (string + http_frame) option poll"

definition too_large_msg :: "nat \<Rightarrow> string" where
  "too_large_msg mx = ''request body too large: exceeds limit of '' @ show_nat mx @ '' bytes''"

partial_function (option) collect_limited ::
  "string \<Rightarrow> 's frame_poller \<Rightarrow> nat \<Rightarrow> 's \<Rightarrow> bytes \<Rightarrow> bytes oxi_result option" where
  "collect_limited msg nxt mx s collected =
     (case nxt s of (s', p) \<Rightarrow>
       (case p of Pending \<Rightarrow> collect_limited msg nxt mx s' collected
        | Ready r \<Rightarrow> (case r of None \<Rightarrow> Some (Inr collected)
          | Some item \<Rightarrow> (case item of Inl e \<Rightarrow> Some (Inl (BodyErr e))
            | Inr frame \<Rightarrow> (case frame of
                FTrailers \<Rightarrow> collect_limited msg nxt mx s' collected
              | FData data \<Rightarrow>
                  if mx < length collected + length data then Some (Inl (BodyErr msg))
                  else collect_limited msg nxt mx s' (collected @ data))))))"

text \<open>The server's reader; the client has the same loop with another text.\<close>

definition collect_body_limited ::
  "'s frame_poller \<Rightarrow> nat \<Rightarrow> 's \<Rightarrow> bytes \<Rightarrow> bytes oxi_result option" where
  "collect_body_limited nxt mx s collected = collect_limited (too_large_msg mx) nxt mx s collected"

text \<open>\<open>Request::body_bytes\<close>: with a limit in the extensions the body is read under it, otherwise by
  the \<open>collect\<close> of \<open>http_body_util\<close>, a parameter.\<close>

definition request_body_bytes ::
  "'s frame_poller \<Rightarrow> ('s \<Rightarrow> (string + bytes) option) \<Rightarrow> nat option \<Rightarrow> 's \<Rightarrow> bytes oxi_result option" where
  "request_body_bytes nxt collect limit s =
     (case limit of Some mx \<Rightarrow> collect_body_limited nxt mx s []
      | None \<Rightarrow> map_option (map_sum BodyErr id) (collect s))"

definition request_body_text ::
  "'s frame_poller \<Rightarrow> ('s \<Rightarrow> (string + bytes) option) \<Rightarrow> nat option \<Rightarrow> 's \<Rightarrow> string oxi_result option" where
  "request_body_text nxt collect limit s =
     map_option (\<lambda>r. rbind r (\<lambda>bs. map_sum (\<lambda>e. BodyErr (''invalid UTF-8: '' @ e)) id (from_utf8 bs)))
       (request_body_bytes nxt collect limit s)"

text \<open>The reference: all data frames, without a limit.\<close>

partial_function (option) collect_all :: "'s frame_poller \<Rightarrow> 's \<Rightarrow> bytes \<Rightarrow> (string + bytes) option" where
  "collect_all nxt s collected =
     (case nxt s of (s', p) \<Rightarrow>
       (case p of Pending \<Rightarrow> collect_all nxt s' collected
        | Ready r \<Rightarrow> (case r of None \<Rightarrow> Some (Inr collected)
          | Some item \<Rightarrow> (case item of Inl e \<Rightarrow> Some (Inl e)
            | Inr frame \<Rightarrow> (case frame of
                FTrailers \<Rightarrow> collect_all nxt s' collected
              | FData data \<Rightarrow> collect_all nxt s' (collected @ data))))))"

lemma collect_all_eqs:
  "nxt s = (s', Pending) \<Longrightarrow> collect_all nxt s acc = collect_all nxt s' acc"
  "nxt s = (s', Ready None) \<Longrightarrow> collect_all nxt s acc = Some (Inr acc)"
  "nxt s = (s', Ready (Some (Inl e))) \<Longrightarrow> collect_all nxt s acc = Some (Inl e)"
  "nxt s = (s', Ready (Some (Inr FTrailers))) \<Longrightarrow> collect_all nxt s acc = collect_all nxt s' acc"
  "nxt s = (s', Ready (Some (Inr (FData d)))) \<Longrightarrow> collect_all nxt s acc = collect_all nxt s' (acc @ d)"
  by (subst collect_all.simps; simp)+

lemma collect_all_limited:
  assumes "collect_all nxt s acc = Some r"
  shows "(\<forall>d. r = Inr d \<longrightarrow> length acc \<le> length d) \<and>
    (length acc \<le> mx \<longrightarrow>
      collect_limited msg nxt mx s acc = Some (Inl (BodyErr msg)) \<and>
        (\<forall>d. r = Inr d \<longrightarrow> mx < length d)
      \<or> collect_limited msg nxt mx s acc = Some (map_sum BodyErr id r) \<and>
        (\<forall>d. r = Inr d \<longrightarrow> length d \<le> mx))"
  using assms
proof (induction nxt s acc r rule: collect_all.raw_induct [rotated, consumes 1, case_names step])
  case (step f nxt s acc r)
  note 1 = step
  note lim = collect_limited.simps [of msg nxt mx s acc]
  obtain s' p where n: "nxt s = (s', p)" by fastforce
  show ?case
  proof (cases p)
    case Pending
    with 1(2) n have "f nxt s' acc = Some r" by simp
    from 1(1) [OF this] show ?thesis by (simp add: lim n Pending)
  next
    case (Ready o')
    show ?thesis
    proof (cases o')
      case None
      with 1(2) n Ready show ?thesis by (auto simp: lim)
    next
      case (Some it)
      show ?thesis
      proof (cases it)
        case (Inl e)
        with 1(2) n Ready Some show ?thesis by (auto simp: lim)
      next
        case (Inr fr)
        show ?thesis
        proof (cases fr)
          case FTrailers
          with 1(2) n Ready Some Inr have "f nxt s' acc = Some r" by simp
          from 1(1) [OF this] show ?thesis by (simp add: lim n Ready Some Inr FTrailers)
        next
          case (FData data)
          with 1(2) n Ready Some Inr have "f nxt s' (acc @ data) = Some r" by simp
          note ih = 1(1) [OF this]
          show ?thesis
          proof (cases "mx < length acc + length data")
            case True
            with ih show ?thesis by (auto simp: lim n Ready Some Inr FData)
          next
            case False
            with ih show ?thesis by (auto simp: lim n Ready Some Inr FData)
          qed
        qed
      qed
    qed
  qed
qed

lemma collect_limited_bound:
  assumes "collect_limited msg nxt mx s acc = Some r" and "length acc \<le> mx"
  shows "\<forall>d. r = Inr d \<longrightarrow> length d \<le> mx"
  using assms
proof (induction msg nxt mx s acc r rule: collect_limited.raw_induct [rotated, consumes 1, case_names step])
  case (step f msg nxt mx s acc r)
  from step(2) show ?case
    by (auto split: prod.splits poll.splits option.splits sum.splits http_frame.splits if_splits
        dest!: step(1) simp: step(3))
qed

text \<open>The body limit: whenever reading the body without a limit ends, reading it under a limit
  gives the same bytes or the same error, except that a body longer than the limit, whatever its
  announced length and its chunks, is refused with the limit error; and a body that is returned
  is never longer than the limit, also on a stream whose unlimited reading would never end.\<close>

theorem body_limit_equiv:
  assumes "collect_all nxt s [] = Some r"
  shows "(request_body_bytes nxt collect (Some mx) s = Some (Inl (BodyErr (too_large_msg mx))) \<and>
        (\<forall>d. r = Inr d \<longrightarrow> mx < length d)
      \<or> request_body_bytes nxt collect (Some mx) s = Some (map_sum BodyErr id r) \<and>
        (\<forall>d. r = Inr d \<longrightarrow> length d \<le> mx))
    \<and> (\<forall>t d. request_body_bytes nxt collect (Some mx) t = Some (Inr d) \<longrightarrow> length d \<le> mx)"
  using collect_all_limited [OF assms, of mx "too_large_msg mx"]
    collect_limited_bound [of "too_large_msg mx" nxt mx _ "[]"]
  by (auto simp: request_body_bytes_def collect_body_limited_def)

text \<open>A body in memory, given by its frames, ends with its last frame.\<close>

fun list_frames :: "(string + http_frame) list frame_poller" where
  "list_frames [] = ([], Ready None)"
| "list_frames (f # fs) = (fs, Ready (Some f))"

theorem body_limit_equiv_witness:
  "request_body_bytes list_frames (\<lambda>_. None) (Some 3) [Inr (FData [1, 2]), Inr FTrailers, Inr (FData [3, 4])] =
     Some (Inl (BodyErr (too_large_msg 3)))"
proof -
  have "collect_all list_frames [Inr (FData [1, 2]), Inr FTrailers, Inr (FData [3, 4])] [] = Some (Inr [1, 2, 3, 4])"
    by (simp add: collect_all_eqs)
  from body_limit_equiv [OF this, of "\<lambda>_. None" 3] show ?thesis by simp
qed

subsection \<open>Patterns: lemmas and properties\<close>

fun seg_names :: "segment list \<Rightarrow> string list" where
  "seg_names [] = []"
| "seg_names (Literal l # segs) = seg_names segs"
| "seg_names (Param p # segs) = p # seg_names segs"
| "seg_names (Wildcard w # segs) = [w]"

text \<open>What a pattern spells for given parameters; nothing after a wildcard counts.\<close>

fun seg_parts :: "params \<Rightarrow> segment list \<Rightarrow> string list" where
  "seg_parts ps [] = []"
| "seg_parts ps (Literal l # segs) = l # seg_parts ps segs"
| "seg_parts ps (Param p # segs) = the (ps p) # seg_parts ps segs"
| "seg_parts ps (Wildcard w # segs) = [the (ps w)]"





lemma match_segments_complete:
  assumes "distinct (seg_names segs)" and "\<forall>n \<in> set (seg_names segs). ps n \<noteq> None"
    and "\<forall>w. Wildcard w \<in> set segs \<longrightarrow> segs \<noteq> [] \<and> last segs = Wildcard w"
  shows "match_segments segs (seg_parts ps segs) params = Some (params ++ ps |` set (seg_names segs))"
  using assms
proof (induction segs arbitrary: params)
  case (Cons seg segs)
  show ?case
  proof (cases seg)
    case (Literal l)
    with Cons show ?thesis by (auto split: if_splits)
  next
    case (Param p)
    then obtain v where v: "ps p = Some v" using Cons.prems(2) by fastforce
    have wl: "\<forall>w. Wildcard w \<in> set segs \<longrightarrow> segs \<noteq> [] \<and> last segs = Wildcard w"
      using Cons.prems(3) by (auto split: if_splits)
    have "match_segments segs (seg_parts ps segs) (params(p \<mapsto> v)) =
        Some (params(p \<mapsto> v) ++ ps |` set (seg_names segs))"
      using Cons.prems Param by (intro Cons.IH wl) auto
    also have "params(p \<mapsto> v) ++ ps |` set (seg_names segs) = params ++ ps |` set (seg_names (seg # segs))"
      using Param v Cons.prems(1)
      by (auto simp: map_add_def restrict_map_def fun_eq_iff split: option.splits)
    finally show ?thesis
      by (simp only: Param seg_parts.simps match_segments.simps list.case v option.sel)
  next
    case (Wildcard w)
    then obtain v where "ps w = Some v" using Cons.prems(2) by fastforce
    with Wildcard show ?thesis
      by (auto simp: map_add_def restrict_map_def fun_eq_iff split: option.splits)
  qed
qed simp

lemma non_empty_segments_join:
  assumes "\<forall>s \<in> set ss. s \<noteq> '''' \<and> CHR ''/'' \<notin> set s"
  shows "non_empty_segments (''/'' @ join ''/'' ss) = ss"
proof (cases "ss = []")
  case False
  have "split_on CHR ''/'' (join ''/'' ss) = ss"
    using assms False by (intro split_on_join) auto
  then show ?thesis
    using assms by (auto simp: non_empty_segments_def filter_id_conv)
qed (simp add: non_empty_segments_def)



text \<open>Literals of a parsed pattern are not empty and have no slash.\<close>

lemma parse_segment_literal: "parse_segment s = Literal l \<Longrightarrow> l = s"
  by (auto simp: parse_segment_def split: option.splits)

lemma parse_pattern_literals:
  "Literal l \<in> set (parse_pattern pat) \<Longrightarrow> l \<noteq> '''' \<and> CHR ''/'' \<notin> set l"
  by (auto simp: parse_pattern_def non_empty_segments_def dest!: parse_segment_literal [OF sym] split_on_no_sep)

lemma seg_parts_chars:
  assumes "\<And>l. Literal l \<in> set segs \<Longrightarrow> P l" and "\<forall>n \<in> set (seg_names segs). P (the (ps n))"
  shows "\<forall>s \<in> set (seg_parts ps segs). P s"
  using assms by (induction segs rule: seg_names.induct) auto

text \<open>C26. Completeness of route matching: for every assignment of non-empty values without slashes
  the path that the pattern spells is matched, with exactly this assignment; a wildcard stands
  last. Literals come from the pattern's own text, so they need no assumption.\<close>

theorem match_pattern_complete:
  assumes "segs = parse_pattern pat" and "distinct (seg_names segs)"
    and "\<forall>n \<in> set (seg_names segs). \<exists>v. ps n = Some v \<and> v \<noteq> '''' \<and> CHR ''/'' \<notin> set v"
    and "\<forall>w. Wildcard w \<in> set segs \<longrightarrow> last segs = Wildcard w"
  shows "match_pattern segs (''/'' @ join ''/'' (seg_parts ps segs)) = Some (ps |` set (seg_names segs))"
proof -
  have "\<forall>s \<in> set (seg_parts ps segs). s \<noteq> '''' \<and> CHR ''/'' \<notin> set s"
    using assms(1,3) parse_pattern_literals by (intro seg_parts_chars) fastforce+
  note parts = non_empty_segments_join [OF this]
  have "\<forall>n \<in> set (seg_names segs). ps n \<noteq> None" using assms(3) by auto
  moreover have "\<forall>w. Wildcard w \<in> set segs \<longrightarrow> segs \<noteq> [] \<and> last segs = Wildcard w"
    using assms(4) by auto
  ultimately show ?thesis
    using match_segments_complete [OF assms(2), of ps Map.empty]
    unfolding match_pattern_def parts by simp
qed

theorem match_pattern_complete_witness:
  "match_pattern (parse_pattern ''/u/:id'') (''/'' @ ''u/7'') = Some ([''id'' \<mapsto> ''7''] |` {''id''})"
proof -
  have p: "parse_pattern ''/u/:id'' = [Literal ''u'', Param ''id'']"
    by (simp add: parse_pattern_def non_empty_segments_def parse_segment_def strip_prefix_def)
  show ?thesis
    using match_pattern_complete [OF refl, of "''/u/:id''" "[''id'' \<mapsto> ''7'']"] by (simp add: p)
qed

subsection \<open>Dispatch: lemmas and properties\<close>

inductive sub_router :: "('h, 'x) router \<Rightarrow> ('h, 'x) router \<Rightarrow> bool" where
  self: "sub_router r r"
| step: "(k, r') \<in> set (nested r) \<Longrightarrow> sub_router r'' r' \<Longrightarrow> sub_router r'' r"

inductive_simps sub_router_simps: "sub_router r' (Router rs ns vs fb mna st)"

lemma sub_router_find:
  "find_sub P (nested r) = Some (k, sub) \<Longrightarrow> sub_router r' sub \<Longrightarrow> sub_router r' r"
  using sub_router.step find_sub_in by metis

text \<open>The way a path takes through nested routers, by the concatenation of paths: the first registered
  prefix of the path decides, what follows it is the path below (a slash when nothing does), and a
  router none of whose prefixes fits is the end. The states of the routers on the way are listed
  from the outermost.\<close>

inductive walk :: "('h, 'x) router \<Rightarrow> string \<Rightarrow> ('h, 'x) router \<Rightarrow> string \<Rightarrow> ('x \<Rightarrow> 'x) option list \<Rightarrow> bool" where
  arrived: "\<forall>(k, sub) \<in> set (nested r). \<forall>t. path \<noteq> k @ t \<Longrightarrow> walk r path r path [state r]"
| down: "nested r = pre @ (k, sub) # post \<Longrightarrow> \<forall>(k', sub') \<in> set pre. \<forall>t. path \<noteq> k' @ t \<Longrightarrow> path = k @ rest \<Longrightarrow>
    walk sub (if rest = '''' then ''/'' else rest) r' path' sts \<Longrightarrow> walk r path r' path' (state r # sts)"

text \<open>The last state of the list.\<close>

fun nearest :: "('x \<Rightarrow> 'x) option list \<Rightarrow> ('x \<Rightarrow> 'x) option" where
  "nearest [] = None"
| "nearest (st # sts) = (case nearest sts of Some f \<Rightarrow> Some f | None \<Rightarrow> st)"

lemma walk_sub_router: "walk r path r' path' sts \<Longrightarrow> sub_router r' r"
  by (induction rule: walk.induct) (auto intro: sub_router.intros)

lemma walk_states: "walk r path r' path' sts \<Longrightarrow> nearest sts = Some f \<Longrightarrow> \<exists>r1. sub_router r1 r \<and> state r1 = Some f"
proof (induction rule: walk.induct)
  case (arrived r path)
  then show ?case using sub_router.self by fastforce
next
  case (down r pre k sub post path rest r' path' sts)
  show ?case
  proof (cases "nearest sts")
    case None
    with down.prems show ?thesis using sub_router.self by fastforce
  next
    case (Some g)
    with down.prems down.IH obtain r1 where "sub_router r1 sub" "state r1 = Some f" by auto
    moreover have "(k, sub) \<in> set (nested r)" using down.hyps(1) by simp
    ultimately show ?thesis using sub_router.step by metis
  qed
qed

lemma walk_head: "walk r path r' path' sts \<Longrightarrow> nearest sts = None \<Longrightarrow> state r = None"
  by (induction rule: walk.induct) (auto split: option.splits)

lemma find_sub_first:
  assumes "find_sub P xs = Some (k, r)"
  shows "\<exists>pre post. xs = pre @ (k, r) # post \<and> P k \<and> (\<forall>(k', r') \<in> set pre. \<not> P k')"
  using assms unfolding find_sub_def
proof (induction xs)
  case (Cons x xs)
  obtain k' r' where x: "x = (k', r')" by fastforce
  show ?case
  proof (cases "P k'")
    case True
    with Cons.prems x show ?thesis by (intro exI [of _ "[]"] exI [of _ xs]) simp
  next
    case False
    with Cons x obtain pre post where "xs = pre @ (k, r) # post" "P k" "\<forall>(k', r') \<in> set pre. \<not> P k'" by auto
    with False x show ?thesis by (intro exI [of _ "x # pre"] exI [of _ post]) simp
  qed
qed simp

lemma walk_here:
  "find_sub (\<lambda>prefix. starts_with prefix path) (nested r) = None \<Longrightarrow> walk r path r path [state r]"
  by (rule walk.arrived) (auto simp: find_sub_def find_None_iff starts_with_iff)

lemma walk_down:
  assumes "find_sub (\<lambda>prefix. starts_with prefix path) (nested r) = Some (k, sub)"
    and "walk sub (sub_path_of k path) r' path' sts"
  shows "walk r path r' path' (state r # sts)"
proof -
  obtain pre post where n: "nested r = pre @ (k, sub) # post" "starts_with k path"
    "\<forall>(k', r') \<in> set pre. \<not> starts_with k' path" using find_sub_first [OF assms(1)] by blast
  from n(2) obtain rest where rest: "path = k @ rest" by (auto simp: starts_with_iff)
  then have "sub_path_of k path = (if rest = '''' then ''/'' else rest)" by (simp add: sub_path_of_def)
  with assms(2) n rest show ?thesis by (intro walk.down [of r pre k sub post path rest]) (auto simp: starts_with_iff)
qed

lemma set_sub_path: "set (sub_path_of prefix path) \<subseteq> insert CHR ''/'' (set path)"
  by (auto simp: sub_path_of_def Let_def dest: in_set_dropD)

lemma inherit_state_fields [simp]:
  "rq_method (inherit_state sub st req) = rq_method req"
  "rq_path (inherit_state sub st req) = rq_path req"
  "rq_query (inherit_state sub st req) = rq_query req"
  "rq_headers (inherit_state sub st req) = rq_headers req"
  "rq_body (inherit_state sub st req) = rq_body req"
  by (auto simp: inherit_state_def inject_state_def split: option.splits)

text \<open>What the \<open>http\<close> crate documents: parsing a bare path gives that path, without a query.\<close>

definition parses_paths :: "uri_parser \<Rightarrow> bool" where
  "parses_paths uri_of \<longleftrightarrow>
     (\<forall>p q s. CHR ''?'' \<notin> set p \<longrightarrow> CHR ''#'' \<notin> set p \<longrightarrow> uri_of p = Inr (q, s) \<longrightarrow> q = p \<and> s = None)"

text \<open>Inserting a typed state replaces an earlier one of the same type.\<close>

definition states_overwrite :: "('h, 'x) router \<Rightarrow> bool" where
  "states_overwrite r \<longleftrightarrow>
     (\<forall>r1 r2 f g x. sub_router r1 r \<longrightarrow> sub_router r2 r \<longrightarrow> state r1 = Some f \<longrightarrow> state r2 = Some g \<longrightarrow>
        f (g x) = f x)"

definition no_vhosts :: "('h, 'x) router \<Rightarrow> bool" where
  "no_vhosts r \<longleftrightarrow> (\<forall>r'. sub_router r' r \<longrightarrow> vhosts r' = [])"

lemma find_vhost_Nil [simp]: "find_vhost [] h = None"
  by (simp add: find_vhost_def find_sub_def split: option.splits)

lemma sub_router_hereditary:
  assumes "find_sub P (nested r) = Some (k, sub)"
  shows "no_vhosts r \<Longrightarrow> no_vhosts sub" and "states_overwrite r \<Longrightarrow> states_overwrite sub"
  using sub_router_find [OF assms] unfolding no_vhosts_def states_overwrite_def by metis+

text \<open>One hop: the state seen through the sub-router is the one seen through the parent.\<close>

lemma inherit_nearest:
  assumes w: "walk sub p r' p' sts" and over: "states_overwrite r" and find: "find_sub P (nested r) = Some (k, sub)"
    and "e = (case nearest sts of None \<Rightarrow> rq_ext (inherit_state sub (state r) req) | Some f \<Rightarrow> f y)"
    and y: "states_overwrite sub \<longrightarrow> y = rq_ext (inherit_state sub (state r) req)"
  shows "e = (case nearest (state r # sts) of None \<Rightarrow> rq_ext req | Some f \<Rightarrow> f (rq_ext req))"
proof (cases "nearest sts")
  case None
  with walk_head [OF w] assms(4) show ?thesis
    by (auto simp: inherit_state_def inject_state_def split: option.splits)
next
  case (Some f)
  obtain r1 where r1: "sub_router r1 sub" "state r1 = Some f" using walk_states [OF w Some] by blast
  have o: "f (g x) = f x" if "state r = Some g" for g x
    using over r1 that sub_router_find [OF find] sub_router.self unfolding states_overwrite_def by metis
  have "y = rq_ext (inherit_state sub (state r) req)" using y over sub_router_hereditary(2) [OF find] by blast
  with Some assms(4) o show ?thesis by (auto simp: inherit_state_def inject_state_def split: option.splits)
qed

lemma inherit_last:
  assumes w: "walk sub p r' p' sts"
    and "e = (case nearest sts of None \<Rightarrow> rq_ext (inherit_state sub (state r) req) | Some f \<Rightarrow> f y)"
  shows "\<exists>y. e = (case nearest (state r # sts) of None \<Rightarrow> rq_ext req | Some f \<Rightarrow> f y)"
  using assms walk_head [OF w] by (cases "nearest sts") (auto simp: inherit_state_def inject_state_def split: option.splits)

lemma dispatch_leaf:
  "parses_paths uri_of \<Longrightarrow> no_vhosts r \<Longrightarrow> CHR ''?'' \<notin> set (rq_path req) \<Longrightarrow> CHR ''#'' \<notin> set (rq_path req) \<Longrightarrow>
    (\<exists>p e. uri_of p = Inl e \<and> dispatch uri_of r req = Inl (HttpErr e)) \<or>
    (\<exists>r' req' sts y. walk r (rq_path req) r' (rq_path req') sts \<and> dispatch uri_of r req = run_routes r' req' \<and>
       rq_method req' = rq_method req \<and> rq_body req' = rq_body req \<and> rq_headers req' = rq_headers req \<and>
       resolve r (rq_method req) (rq_path req) =
         scan_params (scan_routes (routes r') (rq_method req) (rq_path req') False) \<and>
       rq_ext (inject_state (state r') req') = (case nearest sts of None \<Rightarrow> rq_ext req | Some f \<Rightarrow> f y) \<and>
       (states_overwrite r \<longrightarrow> y = rq_ext req) \<and>
       (if r' = r \<and> length sts = 1 then req' = req else rq_query req' = None))"
proof (induction uri_of r req rule: dispatch.induct)
  case (1 uri_of r req)
  have vh: "find_vhost (vhosts r) (rq_headers req ''host'') = None"
    using 1(4) sub_router.self unfolding no_vhosts_def by fastforce
  show ?case
  proof (cases "find_sub (\<lambda>prefix. starts_with prefix (rq_path req)) (nested r)")
    case None
    have "dispatch uri_of r req = run_routes r req" by (subst dispatch.simps) (simp add: vh None)
    moreover have "resolve r (rq_method req) (rq_path req) =
        scan_params (scan_routes (routes r) (rq_method req) (rq_path req) False)"
      by (subst resolve.simps) (simp add: None)
    moreover have "rq_ext (inject_state (state r) req) =
        (case nearest [state r] of None \<Rightarrow> rq_ext req | Some f \<Rightarrow> f (rq_ext req))"
      by (auto simp: inject_state_def split: option.splits)
    ultimately show ?thesis using walk_here [OF None]
      by (intro disjI2 exI [of _ r] exI [of _ req] exI [of _ "[state r]"] exI [of _ "rq_ext req"]) simp
  next
    case (Some ks)
    obtain k sub where ks: "ks = (k, sub)" by fastforce
    note find = Some [unfolded ks]
    show ?thesis
    proof (cases "uri_of (sub_path_of k (rq_path req))")
      case (Inl e)
      have "dispatch uri_of r req = Inl (HttpErr e)" by (subst dispatch.simps) (simp add: vh find Inl)
      with Inl show ?thesis by blast
    next
      case (Inr pq)
      obtain p q where pq: "pq = (p, q)" by fastforce
      note uri = Inr [unfolded pq]
      have chars: "CHR ''?'' \<notin> set (sub_path_of k (rq_path req))" "CHR ''#'' \<notin> set (sub_path_of k (rq_path req))"
        using set_sub_path [of k "rq_path req"] 1(5,6) by auto
      have p: "p = sub_path_of k (rq_path req)" "q = None"
        using 1(3) chars uri unfolding parses_paths_def by blast+
      let ?sreq = "inherit_state sub (state r) (req\<lparr>rq_path := p, rq_query := q\<rparr>)"
      have disp: "dispatch uri_of r req = dispatch uri_of sub ?sreq"
        by (subst dispatch.simps) (simp add: vh find uri)
      have res: "resolve r (rq_method req) (rq_path req) = resolve sub (rq_method req) p"
        by (subst resolve.simps) (simp add: find p)
      have "CHR ''?'' \<notin> set (rq_path ?sreq)" "CHR ''#'' \<notin> set (rq_path ?sreq)" using chars p by simp_all
      note IH = 1(1) [OF vh find refl uri refl 1(3) sub_router_hereditary(1) [OF find 1(4)] this]
      have f: "rq_path ?sreq = p" "rq_method ?sreq = rq_method req" "rq_body ?sreq = rq_body req"
        "rq_headers ?sreq = rq_headers req" "rq_query ?sreq = None" by (simp_all add: p)
      from IH [unfolded f(1-4)] consider p e where "uri_of p = Inl e" "dispatch uri_of sub ?sreq = Inl (HttpErr e)"
        | r' req' sts y where "walk sub p r' (rq_path req') sts" "dispatch uri_of sub ?sreq = run_routes r' req'"
          "rq_method req' = rq_method req" "rq_body req' = rq_body req" "rq_headers req' = rq_headers req"
          "resolve sub (rq_method req) p = scan_params (scan_routes (routes r') (rq_method req) (rq_path req') False)"
          "rq_ext (inject_state (state r') req') = (case nearest sts of None \<Rightarrow> rq_ext ?sreq | Some f \<Rightarrow> f y)"
          "states_overwrite sub \<longrightarrow> y = rq_ext ?sreq"
          "if r' = sub \<and> length sts = 1 then req' = ?sreq else rq_query req' = None"
        by blast
      then show ?thesis
      proof cases
        case 1
        with disp show ?thesis by auto
      next
        case (2 r' req' sts y)
        have w: "walk r (rq_path req) r' (rq_path req') (state r # sts)"
          using walk_down [OF find] 2(1) p(1) by simp
        have ne: "sts \<noteq> []" using 2(1) by (auto elim: walk.cases)
        have q: "rq_query req' = None" using 2(9) f(5) by (auto split: if_splits)
        have e: "rq_ext (req\<lparr>rq_path := p, rq_query := q\<rparr>) = rq_ext req" by simp
        obtain y' where y': "rq_ext (inject_state (state r') req') =
            (case nearest (state r # sts) of None \<Rightarrow> rq_ext req | Some f \<Rightarrow> f y')"
          "states_overwrite r \<longrightarrow> y' = rq_ext req"
        proof (cases "states_overwrite r")
          case True
          from inherit_nearest [OF 2(1) True find 2(7,8), unfolded e] show ?thesis by (intro that [of "rq_ext req"]) simp_all
        next
          case False
          from inherit_last [OF 2(1,7), unfolded e] show ?thesis using that False by fastforce
        qed
        show ?thesis
          using w 2(2-6) q y' disp res ne
          by (intro disjI2 exI [of _ r'] exI [of _ req'] exI [of _ "state r # sts"] exI [of _ y']) simp
      qed
    qed
  qed
qed

text \<open>C9. Dispatch through nested routers, for a tree without virtual hosts and a path without \<open>?\<close> or \<open>#\<close>:
  either a sub-path is refused by the URI parser (which is assumed to give back a bare path as it
  is), with that error, or exactly one router of the tree runs its routes on the request: the one
  the path leads to (\<open>walk\<close>: at every level the first registered prefix is cut off), on what is left
  of the path, with method, headers and body unchanged. It is the router and path whose parameters
  \<open>resolve\<close> reports. The state of the nearest enclosing router that has one is inserted last, so that
  it is the one a lookup of its type finds; when the states of the tree are of one type, so that they
  overwrite each other, nothing else is left of the others. Without a matching prefix the request is
  passed on as it is; through any prefix its query string is lost.\<close>

theorem dispatch_nested:
  assumes "parses_paths uri_of" and "no_vhosts r"
    and "CHR ''?'' \<notin> set (rq_path req)" and "CHR ''#'' \<notin> set (rq_path req)"
  shows "(\<exists>p e. uri_of p = Inl e \<and> dispatch uri_of r req = Inl (HttpErr e)) \<or>
    (\<exists>r' req' sts y. walk r (rq_path req) r' (rq_path req') sts \<and> dispatch uri_of r req = run_routes r' req' \<and>
       rq_method req' = rq_method req \<and> rq_body req' = rq_body req \<and> rq_headers req' = rq_headers req \<and>
       resolve r (rq_method req) (rq_path req) =
         scan_params (scan_routes (routes r') (rq_method req) (rq_path req') False) \<and>
       rq_ext (inject_state (state r') req') = (case nearest sts of None \<Rightarrow> rq_ext req | Some f \<Rightarrow> f y) \<and>
       (states_overwrite r \<longrightarrow> y = rq_ext req) \<and>
       (if r' = r \<and> length sts = 1 then req' = req else rq_query req' = None))"
  by (rule dispatch_leaf [OF assms])

text \<open>A nested router whose handler shows the state and the query that it receives.\<close>

definition show_handler :: "(nat, unit) handler" where
  "show_handler = (\<lambda>(req, ps). canned (rq_ext req) (case rq_query req of Some q \<Rightarrow> q | None \<Rightarrow> ''none''))"

definition demo_router :: "((nat, unit) handler, nat) router" where
  "demo_router = with_state (\<lambda>_. 7) (nest ''/api/'' (route_get ''/users'' show_handler router_new) router_new)"

definition demo_request :: "(nat, unit) http_request" where
  "demo_request = \<lparr>rq_method = ''GET'', rq_path = ''/api/users'', rq_query = Some ''q=1'',
     rq_headers = (\<lambda>_. None), rq_ext = 0, rq_body = ()\<rparr>"

lemma demo_router_eq:
  "demo_router = Router [] [(''/api'', Router [Route ''GET'' [Literal ''users''] show_handler] [] [] None None None)]
     [] None None (Some (\<lambda>_. 7))"
  by (simp add: demo_router_def router_new_def route_get_def trim_end_slashes_def parse_pattern_def
      non_empty_segments_def parse_segment_def strip_prefix_def)

lemma demo_sub_router: "sub_router r' demo_router \<Longrightarrow> vhosts r' = [] \<and> (state r' = None \<or> state r' = Some (\<lambda>_. 7))"
  unfolding demo_router_eq by (auto simp: sub_router_simps)

theorem dispatch_nested_witness:
  "\<exists>r' req' sts. walk demo_router ''/api/users'' r' (rq_path req') sts \<and>
      dispatch (\<lambda>p. Inr (p, None)) demo_router demo_request = run_routes r' req'"
proof -
  have tree: "no_vhosts demo_router"
    using demo_sub_router unfolding no_vhosts_def by fastforce
  have uri: "parses_paths (\<lambda>p. Inr (p, None))" by (simp add: parses_paths_def)
  have chars: "CHR ''?'' \<notin> set (rq_path demo_request)" "CHR ''#'' \<notin> set (rq_path demo_request)"
    by (simp_all add: demo_request_def)
  have "rq_path demo_request = ''/api/users''" by (simp add: demo_request_def)
  with dispatch_nested [OF uri tree chars] show ?thesis by fastforce
qed

lemma scan_routes_find:
  "scan_routes rs m p b =
     (case List.find (\<lambda>rt. rt_method rt = m \<and> match_pattern (rt_segments rt) p \<noteq> None) rs of
        Some rt \<Rightarrow> (Some (rt_handler rt, the (match_pattern (rt_segments rt) p)), True)
      | None \<Rightarrow> (None, b \<or> (\<exists>rt \<in> set rs. match_pattern (rt_segments rt) p \<noteq> None)))"
  by (induction rs m p b rule: scan_routes.induct) (auto split: option.splits)

text \<open>The order of the routes: the handler that runs is that of the first registered route with the
  request's method and a pattern that matches, with the parameters of that pattern; if only
  other methods match the path, the answer is the method-not-allowed handler or 405, and if no
  pattern matches, the fallback or 404. The router's state is injected in all of these.\<close>

theorem run_routes_first:
  "run_routes r req =
     (let matches = (\<lambda>rt. match_pattern (rt_segments rt) (rq_path req)); req' = inject_state (state r) req in
      case List.find (\<lambda>rt. rt_method rt = rq_method req \<and> matches rt \<noteq> None) (routes r) of
        Some rt \<Rightarrow> rt_handler rt (req', the (matches rt))
      | None \<Rightarrow>
          if \<exists>rt \<in> set (routes r). matches rt \<noteq> None
          then (case method_not_allowed_handler r of Some h \<Rightarrow> h (req', Map.empty)
                | None \<Rightarrow> Inr \<lparr>resp_status = 405, resp_headers = [], resp_body = as_bytes ''Method Not Allowed''\<rparr>)
          else (case fallback r of Some h \<Rightarrow> h (req', Map.empty)
                | None \<Rightarrow> Inr \<lparr>resp_status = 404, resp_headers = [], resp_body = as_bytes ''Not Found''\<rparr>))"
  by (simp add: run_routes_def Let_def scan_routes_find canned_def split: option.splits)

end
