(* ===== verification/Form.thy ===== *)
theory Form
  imports Router
begin

section \<open>URL-encoded forms and URIs (oxihttp-core form.rs, uri_ext.rs)\<close>

text \<open>
  The form builder of the client side, the URI accessors, and the composition of the form builder
  with the server's query parser. The percent encoder is the crate \<open>percent_encoding\<close>: what is
  used of it (\<open>utf8_percent_encode\<close> with \<open>NON_ALPHANUMERIC\<close>) is the locale \<open>percent_encoder\<close>.
\<close>

subsection \<open>Forms\<close>

type_synonym form_body = "(string \<times> string) list"

definition form_new :: form_body where
  "form_new = []"

definition form_field :: "string \<Rightarrow> string \<Rightarrow> form_body \<Rightarrow> form_body" where
  "form_field name value flds = flds @ [(name, value)]"

definition form_build :: "(string \<Rightarrow> string) \<Rightarrow> form_body \<Rightarrow> bytes" where
  "form_build enc flds = as_bytes (join ''&'' (map (\<lambda>(k, v). enc k @ ''='' @ enc v) flds))"

definition form_len :: "form_body \<Rightarrow> nat" where
  "form_len flds = length flds"

definition form_is_empty :: "form_body \<Rightarrow> bool" where
  "form_is_empty flds \<longleftrightarrow> flds = []"

subsection \<open>URIs\<close>

text \<open>The parts that the \<open>http\<close> crate's \<open>Uri\<close> gives: scheme, authority, host,
  explicit port, path and query.\<close>

record uri =
  uri_scheme :: "string option"
  uri_authority :: "string option"
  uri_host :: "string option"
  uri_port :: "nat option"
  uri_path :: string
  uri_query :: "string option"

definition host_str :: "uri \<Rightarrow> string option" where
  "host_str u = uri_host u"

definition port_or_default :: "uri \<Rightarrow> nat option" where
  "port_or_default u =
     (case uri_port u of Some port \<Rightarrow> Some port
      | None \<Rightarrow> if uri_scheme u = Some ''https'' then Some 443
                else if uri_scheme u = Some ''http'' then Some 80 else None)"

definition is_https :: "uri \<Rightarrow> bool" where
  "is_https u \<longleftrightarrow> uri_scheme u = Some ''https''"

definition is_http :: "uri \<Rightarrow> bool" where
  "is_http u \<longleftrightarrow> uri_scheme u = Some ''http''"

definition origin :: "uri \<Rightarrow> string option" where
  "origin u =
     Option.bind (uri_scheme u) (\<lambda>scheme. Option.bind (uri_authority u) (\<lambda>authority.
       Some (scheme @ ''://'' @ authority)))"

subsection \<open>Encoding and decoding\<close>

definition is_alnum :: "char \<Rightarrow> bool" where
  "is_alnum c \<longleftrightarrow> (let k = (of_char c :: nat) in
     (48 \<le> k \<and> k \<le> 57) \<or> (65 \<le> k \<and> k \<le> 90) \<or> (97 \<le> k \<and> k \<le> 122))"

text \<open>
  The contract of the encoder: it works byte by byte, keeps ASCII letters and digits and writes
  every other byte as a percent sign and the two hexadecimal digits of its value.
\<close>

locale percent_encoder =
  fixes enc :: "string \<Rightarrow> string"
  assumes enc_Nil: "enc [] = []"
    and enc_alnum: "is_alnum c \<Longrightarrow> enc (c # s) = c # enc s"
    and enc_other: "\<not> is_alnum c \<Longrightarrow>
      \<exists>h l. enc (c # s) = CHR ''%'' # h # l # enc s \<and>
        digit_of 16 h = Some (of_char c div 16) \<and> digit_of 16 l = Some (of_char c mod 16)"
begin

lemma percent_decode_enc: "percent_decode (enc s) = concat (map push_byte_char s)"
proof (induction s)
  case (Cons c s)
  show ?case
  proof (cases "is_alnum c")
    case True
    then have "c \<noteq> CHR ''%''" "c \<noteq> CHR ''+''" by (auto simp: is_alnum_def)
    with True Cons show ?thesis by (simp add: enc_alnum)
  next
    case False
    obtain h l where e: "enc (c # s) = CHR ''%'' # h # l # enc s"
      and h: "digit_of 16 h = Some (of_char c div 16)" and l: "digit_of 16 l = Some (of_char c mod 16)"
      using enc_other [OF False] by blast
    have "h \<noteq> CHR ''+''" using h by (auto simp: digit_of_def)
    moreover have "(of_char c :: nat) < 256" by (rule nat_of_char_less_256)
    ultimately have "parse_radix 16 8 [h, l] = Some (of_char c)"
      using h l by (simp add: parse_radix_def Let_def)
    with Cons show ?thesis by (simp add: e)
  qed
qed (simp add: enc_Nil)

lemma enc_chars: "c \<in> set (enc s) \<Longrightarrow> c \<noteq> CHR ''&'' \<and> c \<noteq> CHR ''=''"
proof (induction s)
  case (Cons d s)
  show ?case
  proof (cases "is_alnum d")
    case True
    with Cons show ?thesis by (auto simp: enc_alnum is_alnum_def)
  next
    case False
    obtain h l where e: "enc (d # s) = CHR ''%'' # h # l # enc s"
      and h: "digit_of 16 h = Some (of_char d div 16)" and l: "digit_of 16 l = Some (of_char d mod 16)"
      using enc_other [OF False] by blast
    have "x \<noteq> CHR ''&'' \<and> x \<noteq> CHR ''=''" if "digit_of 16 x = Some k" for x k
      using that by (auto simp: digit_of_def)
    with h l Cons show ?thesis by (auto simp: e)
  qed
qed (simp add: enc_Nil)

lemma query_pairs_form:
  "query_pairs (of_bytes (form_build enc flds)) =
     map (\<lambda>(k, v). (concat (map push_byte_char k), concat (map push_byte_char v))) flds"
proof (cases "flds = []")
  case True
  then show ?thesis by (simp add: form_build_def query_pairs_def List.map_filter_def of_bytes_def)
next
  case False
  let ?ps = "map (\<lambda>(k, v). enc k @ ''='' @ enc v) flds"
  have amp: "CHR ''&'' \<notin> set (enc x)" "CHR ''='' \<notin> set (enc x)" for x using enc_chars by blast+
  have s: "split_on CHR ''&'' (join ''&'' ?ps) = ?ps"
    using False amp by (intro split_on_join) auto
  have "split_once CHR ''='' (enc k @ ''='' @ enc v) = Some (enc k, enc v)" for k v
    using split_once_append [of "CHR ''=''" "enc k" "enc v"] amp by auto
  then have "List.map_filter (\<lambda>pair. map_option (\<lambda>(k, v). (percent_decode k, percent_decode v))
       (split_once CHR ''='' pair)) ?ps =
     map (\<lambda>(k, v). (concat (map push_byte_char k), concat (map push_byte_char v))) flds"
    by (induction flds) (auto simp: List.map_filter_def percent_decode_enc)
  then show ?thesis unfolding form_build_def query_pairs_def of_bytes_as_bytes s by simp
qed

end

text \<open>The encoder with upper-case digits, as the crate writes them.\<close>

fun percent_encode_bytes :: "string \<Rightarrow> string" where
  "percent_encode_bytes [] = []"
| "percent_encode_bytes (c # s) =
     (if is_alnum c then [c]
      else [CHR ''%'', upper_char (digit_char (of_char c div 16)), upper_char (digit_char (of_char c mod 16))])
     @ percent_encode_bytes s"

lemma digit_of_upper: "d < 16 \<Longrightarrow> digit_of 16 (upper_char (digit_char d)) = Some d"
  by (auto simp: digit_of_def upper_char_def of_char_digit_char Let_def)

interpretation upper_hex: percent_encoder percent_encode_bytes
proof unfold_locales
  fix c :: char and s :: string
  have "(of_char c :: nat) < 256" by (rule nat_of_char_less_256)
  then have "(of_char c :: nat) div 16 < 16" by (simp add: less_mult_imp_div_less)
  moreover have "(of_char c :: nat) mod 16 < 16" by simp
  ultimately have "(of_char c :: nat) div 16 < 16" "(of_char c :: nat) mod 16 < 16" by blast+
  from this [THEN digit_of_upper] show "\<not> is_alnum c \<Longrightarrow>
      \<exists>h l. percent_encode_bytes (c # s) = CHR ''%'' # h # l # percent_encode_bytes s \<and>
        digit_of 16 h = Some (of_char c div 16) \<and> digit_of 16 l = Some (of_char c mod 16)"
    by simp
qed simp_all

text \<open>What the decoder makes of a byte beyond ASCII.\<close>

definition is_ascii :: "string \<Rightarrow> bool" where
  "is_ascii s \<longleftrightarrow> (\<forall>c \<in> set s. (of_char c :: nat) < 128)"

lemma latin_id: "concat (map push_byte_char s) = s \<longleftrightarrow> is_ascii s"
proof
  assume e: "concat (map push_byte_char s) = s"
  have len: "length s + length (filter (\<lambda>c. \<not> (of_char c :: nat) < 128) s) = length (concat (map push_byte_char s))"
    by (induction s) (auto simp: push_byte_char_def Let_def)
  then have "filter (\<lambda>c. \<not> (of_char c :: nat) < 128) s = []" using e by simp
  then show "is_ascii s" by (auto simp: is_ascii_def filter_empty_conv)
next
  assume "is_ascii s"
  then show "concat (map push_byte_char s) = s"
    by (induction s) (auto simp: is_ascii_def push_byte_char_def)
qed

text \<open>What arrives of a text: every byte is taken for a character of Latin-1 and written in UTF-8, so a byte
  beyond ASCII becomes two.\<close>

definition reencoded :: "string \<Rightarrow> string" where
  "reencoded s = concat (map (\<lambda>c. let k = (of_char c :: nat) in
     if k < 128 then [c] else [char_of (192 + k div 64), char_of (128 + k mod 64)]) s)"

lemma latin_reencoded: "concat (map push_byte_char s) = reencoded s"
proof -
  have "push_byte_char = (\<lambda>c. let k = (of_char c :: nat) in
     if k < 128 then [c] else [char_of (192 + k div 64), char_of (128 + k mod 64)])"
    by (rule ext) (simp only: push_byte_char_def)
  then show ?thesis by (simp only: reencoded_def)
qed

text \<open>C27. From a client's form to a server's query: for any fields, with any characters in names and
  values, the server's parser finds exactly one pair for each field, in the same order, with the name
  and the value re-encoded byte by byte (\<open>reencoded\<close>); so a name or value comes back unchanged
  exactly when it is ASCII, and \<open>e\<close> with an acute accent arrives as two characters. The percent
  encoder is assumed to keep ASCII letters and digits and to write any other byte as two
  hexadecimal digits.\<close>

theorem form_query_roundtrip:
  assumes "percent_encoder enc"
  shows "query_pairs (of_bytes (form_build enc flds)) = map (\<lambda>(k, v). (reencoded k, reencoded v)) flds
    \<and> (\<forall>s. reencoded s = s \<longleftrightarrow> is_ascii s)
    \<and> reencoded (of_bytes [0xC3, 0xA9]) = of_bytes [0xC3, 0x83, 0xC2, 0xA9]"
  unfolding percent_encoder.query_pairs_form [OF assms] latin_reencoded
  by (simp add: latin_id flip: latin_reencoded) (code_simp)

theorem form_query_roundtrip_witness:
  "query_pairs (of_bytes (form_build percent_encode_bytes [(''a&b'', ''1+1=2'')])) = [(''a&b'', ''1+1=2'')]"
proof -
  have a: "is_ascii ''a&b''" "is_ascii ''1+1=2''" by (simp_all add: is_ascii_def)
  note r = form_query_roundtrip [OF upper_hex.percent_encoder_axioms, of "[(''a&b'', ''1+1=2'')]"]
  have "reencoded ''a&b'' = ''a&b''" "reencoded ''1+1=2'' = ''1+1=2''"
    using r a by blast+
  with r show ?thesis by simp
qed

end
