(* ===== verification/Headers.thy ===== *)
theory Headers
  imports Form
begin

section \<open>Header maps, base64, typed headers and the request builder (oxihttp-core)\<close>

text \<open>
  The models of header_ext.rs, content_type.rs, header_types.rs and request_builder.rs. A
  \<open>HeaderMap\<close> of the \<open>http\<close> crate is the list of its entries, with names in lower case; \<open>insert\<close>
  replaces every value of a name, \<open>append\<close> keeps them. What the crates use of \<open>http\<close> and cannot be
  read here is the record \<open>http_lib\<close>: the checks of names and values, \<open>to_str\<close>, the URI parser and
  the check of a finished request. The locale \<open>header_values\<close> states what the crate documents about
  values; it is interpreted on \<open>std_lib\<close>.
\<close>

subsection \<open>Header maps\<close>

type_synonym header_map = "(string \<times> string) list"

definition hm_get :: "string \<Rightarrow> header_map \<Rightarrow> string option" where
  "hm_get k h = map_of h k"

definition hm_get_all :: "string \<Rightarrow> header_map \<Rightarrow> string list" where
  "hm_get_all k h = map snd (filter (\<lambda>p. fst p = k) h)"

definition hm_contains :: "string \<Rightarrow> header_map \<Rightarrow> bool" where
  "hm_contains k h \<longleftrightarrow> hm_get k h \<noteq> None"

definition hm_remove :: "string \<Rightarrow> header_map \<Rightarrow> header_map" where
  "hm_remove k h = filter (\<lambda>p. fst p \<noteq> k) h"

definition hm_insert :: "string \<Rightarrow> string \<Rightarrow> header_map \<Rightarrow> header_map" where
  "hm_insert k v h = hm_remove k h @ [(k, v)]"

definition hm_append :: "string \<Rightarrow> string \<Rightarrow> header_map \<Rightarrow> header_map" where
  "hm_append k v h = h @ [(k, v)]"

text \<open>\<open>Extend\<close>: the names of the second map replace those of the first, with all their values.\<close>

definition hm_extend :: "header_map \<Rightarrow> header_map \<Rightarrow> header_map" where
  "hm_extend h m = filter (\<lambda>p. fst p \<notin> fst ` set m) h @ m"

named_theorems hm_simps \<open>reading a header map after an update\<close>

lemma hm_get_remove [hm_simps]: "hm_get k (hm_remove k' h) = (if k = k' then None else hm_get k h)"
  by (induction h) (auto simp: hm_get_def hm_remove_def)

lemma hm_get_insert [hm_simps]: "hm_get k (hm_insert k' v h) = (if k = k' then Some v else hm_get k h)"
proof -
  have "map_of (hm_remove k' h) k = (if k = k' then None else map_of h k)"
    using hm_get_remove [of k k' h] by (simp add: hm_get_def)
  then show ?thesis by (auto simp: hm_insert_def hm_get_def map_add_def split: option.splits)
qed

lemma hm_get_append [hm_simps]:
  "hm_get k (hm_append k' v h) = (case hm_get k h of None \<Rightarrow> if k = k' then Some v else None | Some w \<Rightarrow> Some w)"
  by (auto simp: hm_append_def hm_get_def map_add_def split: option.splits)

lemma hm_get_Nil [hm_simps]: "hm_get k [] = None"
  by (simp add: hm_get_def)

lemma hm_get_all_remove [hm_simps]:
  "hm_get_all k (hm_remove k' h) = (if k = k' then [] else hm_get_all k h)"
  by (induction h) (auto simp: hm_get_all_def hm_remove_def)

lemma hm_get_all_insert [hm_simps]:
  "hm_get_all k (hm_insert k' v h) = (if k = k' then [v] else hm_get_all k h)"
  using hm_get_all_remove [of k k' h] by (auto simp: hm_insert_def hm_get_all_def)

lemma hm_get_all_append [hm_simps]:
  "hm_get_all k (hm_append k' v h) = hm_get_all k h @ (if k = k' then [v] else [])"
  by (simp add: hm_append_def hm_get_all_def)

lemma hm_get_Cons [hm_simps]: "hm_get k ((k', v) # h) = (if k = k' then Some v else hm_get k h)"
  by (simp add: hm_get_def)

lemma hm_contains_iff: "hm_contains k h \<longleftrightarrow> k \<in> fst ` set h"
  by (simp add: hm_contains_def hm_get_def map_of_eq_None_iff)

subsection \<open>What is used of the http crate\<close>

record http_lib =
  hn_of :: "string \<Rightarrow> string + string"
  hv_error :: "string \<Rightarrow> string option"
  to_str_error :: "string \<Rightarrow> string option"
  uri_of :: "string \<Rightarrow> string + uri"
  request_error :: "header_map \<Rightarrow> string option"

definition to_str :: "http_lib \<Rightarrow> string \<Rightarrow> string option" where
  "to_str lib v = (case to_str_error lib v of None \<Rightarrow> Some v | Some e \<Rightarrow> None)"

definition hm_str :: "http_lib \<Rightarrow> string \<Rightarrow> header_map \<Rightarrow> string option" where
  "hm_str lib k h = Option.bind (hm_get k h) (to_str lib)"

text \<open>\<open>HeaderValue::from_str(v)\<close> followed by \<open>insert\<close>; the error text is made from that of the crate.\<close>

definition hm_set :: "http_lib \<Rightarrow> (string \<Rightarrow> string) \<Rightarrow> string \<Rightarrow> string \<Rightarrow> header_map \<Rightarrow> header_map oxi_result" where
  "hm_set lib msg k v h =
     (case hv_error lib v of Some e \<Rightarrow> Inl (InvalidHeader (msg e)) | None \<Rightarrow> Inr (hm_insert k v h))"

definition visible :: "string \<Rightarrow> bool" where
  "visible s \<longleftrightarrow> (\<forall>c \<in> set s. let k = (of_char c :: nat) in 32 \<le> k \<and> k < 127)"

text \<open>The documented contract: visible ASCII is accepted as a value and reads back as text; bytes
  of a line break are never part of a value.\<close>

locale header_values =
  fixes lib :: http_lib
  assumes visible_ok: "visible s \<Longrightarrow> hv_error lib s = None"
    and visible_str: "visible s \<Longrightarrow> to_str_error lib s = None"
    and no_breaks: "hv_error lib s = None \<Longrightarrow> CHR 0x0A \<notin> set s \<and> CHR 0x0D \<notin> set s"
begin

lemma set_get: "visible v \<Longrightarrow> hm_set lib msg k v h = Inr (hm_insert k v h) \<and> hm_str lib k (hm_insert k v h) = Some v"
  by (simp add: hm_set_def visible_ok hm_str_def to_str_def visible_str hm_simps)

lemma set_get_other: "hm_set lib msg k v h = Inr h' \<Longrightarrow> k' \<noteq> k \<Longrightarrow> hm_str lib k' h' = hm_str lib k' h"
  by (auto simp: hm_set_def hm_str_def hm_simps split: option.splits)

lemma set_no_breaks: "hm_set lib msg k v h = Inr h' \<Longrightarrow> CHR 0x0A \<notin> set v \<and> CHR 0x0D \<notin> set v"
  by (auto simp: hm_set_def dest: no_breaks split: option.splits)

end

text \<open>A library with the rules of the \<open>http\<close> crate: a value has no control characters but tab, text
  is visible ASCII or tab. The URI parser splits scheme, authority, path and query.\<close>

definition value_char :: "char \<Rightarrow> bool" where
  "value_char c \<longleftrightarrow> (let k = (of_char c :: nat) in 32 \<le> k \<and> k \<noteq> 127 \<or> k = 9)"

definition text_char :: "char \<Rightarrow> bool" where
  "text_char c \<longleftrightarrow> (let k = (of_char c :: nat) in 32 \<le> k \<and> k < 127 \<or> k = 9)"

definition authority_end :: "char \<Rightarrow> bool" where
  "authority_end c \<longleftrightarrow> c = CHR ''/'' \<or> c = CHR ''?'' \<or> c = CHR ''#''"

definition split_path :: "string \<Rightarrow> string \<times> string option" where
  "split_path r =
     (let r' = takeWhile (\<lambda>c. c \<noteq> CHR ''#'') r in
      case split_once CHR ''?'' r' of Some (p, q) \<Rightarrow> (p, Some q) | None \<Rightarrow> (r', None))"

definition simple_uri :: "string \<Rightarrow> string + uri" where
  "simple_uri s =
     (case split_once_str ''://'' s of
        Some (sch, r) \<Rightarrow>
          (let a = takeWhile (\<lambda>c. \<not> authority_end c) r;
               (p, q) = split_path (drop (length a) r);
               hp = last (split_on CHR ''@'' a);
               h = hd (split_on CHR '':'' hp)
           in if a = '''' then Inl ''invalid authority''
              else Inr \<lparr>uri_scheme = Some sch, uri_authority = Some a, uri_host = Some h,
                uri_port = (case split_once CHR '':'' hp of Some (_, n) \<Rightarrow> parse_radix 10 16 n | None \<Rightarrow> None),
                uri_path = (if p = '''' then ''/'' else p), uri_query = q\<rparr>)
      | None \<Rightarrow>
          (let (p, q) = split_path s in
           if starts_with ''/'' s then
             Inr \<lparr>uri_scheme = None, uri_authority = None, uri_host = None, uri_port = None, uri_path = p, uri_query = q\<rparr>
           else Inl ''invalid uri character''))"

definition std_lib :: http_lib where
  "std_lib = \<lparr>hn_of = (\<lambda>s. if s \<noteq> '''' \<and> list_all (\<lambda>c. is_alnum c \<or> c = CHR ''-'') s then Inr (lower s)
                          else Inl ''invalid HTTP header name''),
     hv_error = (\<lambda>s. if list_all value_char s then None else Some ''failed to parse header value''),
     to_str_error = (\<lambda>s. if list_all text_char s then None else Some ''failed to convert header to a str''),
     uri_of = simple_uri, request_error = (\<lambda>h. None)\<rparr>"

interpretation std: header_values std_lib
proof unfold_locales
  fix s
  show "visible s \<Longrightarrow> hv_error std_lib s = None"
    by (auto simp: visible_def std_lib_def value_char_def list_all_iff Let_def)
  show "visible s \<Longrightarrow> to_str_error std_lib s = None"
    by (auto simp: visible_def std_lib_def text_char_def list_all_iff Let_def)
  show "hv_error std_lib s = None \<Longrightarrow> CHR 0x0A \<notin> set s \<and> CHR 0x0D \<notin> set s"
    by (auto simp: std_lib_def value_char_def list_all_iff Let_def split: if_splits)
qed

subsection \<open>Base64\<close>

unbundle bit_operations_syntax

definition B64_CHARS :: string where
  "B64_CHARS = ''ABCDEFGHIJKLMNOPQRSTUVWXYZabcdefghijklmnopqrstuvwxyz0123456789+/''"

definition b64_char :: "u32 \<Rightarrow> char" where
  "b64_char w = B64_CHARS ! unat (w AND 0x3F)"

definition b64_chunk :: "bytes \<Rightarrow> string" where
  "b64_chunk chunk =
     (let b0 = ucast (chunk ! 0) :: u32;
          b1 = (if 1 < length chunk then ucast (chunk ! 1) else 0);
          b2 = (if 2 < length chunk then ucast (chunk ! 2) else 0);
          triple = (push_bit 16 b0 OR push_bit 8 b1) OR b2
      in [b64_char (drop_bit 18 triple), b64_char (drop_bit 12 triple),
          if 1 < length chunk then b64_char (drop_bit 6 triple) else CHR ''='',
          if 2 < length chunk then b64_char triple else CHR ''=''])"

text \<open>\<open>data.chunks(3)\<close>\<close>

fun base64_encode :: "bytes \<Rightarrow> string" where
  "base64_encode [] = []"
| "base64_encode [a] = b64_chunk [a]"
| "base64_encode [a, b] = b64_chunk [a, b]"
| "base64_encode (a # b # c # rest) = b64_chunk [a, b, c] @ base64_encode rest"

text \<open>The reference decoder of RFC 4648.\<close>

fun index_of :: "'a \<Rightarrow> 'a list \<Rightarrow> nat option" where
  "index_of x [] = None"
| "index_of x (y # ys) = (if x = y then Some 0 else map_option Suc (index_of x ys))"

definition b64_value :: "char \<Rightarrow> nat option" where
  "b64_value c = index_of c B64_CHARS"

definition byte :: "nat \<Rightarrow> u8" where
  "byte n = of_nat n"

fun base64_decode :: "string \<Rightarrow> bytes option" where
  "base64_decode [] = Some []"
| "base64_decode (c1 # c2 # c3 # c4 # rest) =
     (case (b64_value c1, b64_value c2) of
        (Some v1, Some v2) \<Rightarrow>
          if c3 = CHR ''='' then (if c4 = CHR ''='' \<and> rest = [] then Some [byte (v1 * 4 + v2 div 16)] else None)
          else (case b64_value c3 of None \<Rightarrow> None | Some v3 \<Rightarrow>
            if c4 = CHR ''='' then
              (if rest = [] then Some [byte (v1 * 4 + v2 div 16), byte (v2 mod 16 * 16 + v3 div 4)] else None)
            else (case (b64_value c4, base64_decode rest) of
               (Some v4, Some bs) \<Rightarrow>
                 Some (byte (v1 * 4 + v2 div 16) # byte (v2 mod 16 * 16 + v3 div 4) # byte (v3 mod 4 * 64 + v4) # bs)
             | _ \<Rightarrow> None))
      | _ \<Rightarrow> None)"
| "base64_decode _ = None"

lemma index_of_nth: "distinct xs \<Longrightarrow> i < length xs \<Longrightarrow> index_of (xs ! i) xs = Some i"
proof (induction xs arbitrary: i)
  case (Cons x xs)
  then show ?case by (cases i) (auto simp: in_set_conv_nth)
qed simp

lemma B64_distinct: "distinct B64_CHARS" "length B64_CHARS = 64" "CHR ''='' \<notin> set B64_CHARS"
  by (simp_all add: B64_CHARS_def)

lemma unat_and_63: "unat (w AND 0x3F :: u32) = unat w mod 64"
proof -
  have "w AND 0x3F = take_bit 6 w"
    by (simp add: take_bit_eq_mask mask_eq_exp_minus_1)
  then have "unat (w AND 0x3F) = take_bit 6 (unat w)" by (simp only: unsigned_take_bit_eq)
  then show ?thesis by (simp add: take_bit_eq_mod)
qed

lemma b64_value_char: "b64_value (b64_char w) = Some (unat w mod 64)"
  by (simp add: b64_value_def b64_char_def unat_and_63 index_of_nth B64_distinct)

lemma b64_char_not_pad: "b64_char w \<noteq> CHR ''=''"
proof -
  have "b64_char w \<in> set B64_CHARS" by (simp add: b64_char_def unat_and_63 B64_distinct)
  then show ?thesis using B64_distinct(3) by auto
qed

lemma unat_triple:
  fixes a b c :: u8
  shows "unat ((push_bit 16 (ucast a :: u32) OR push_bit 8 (ucast b)) OR ucast c) =
    unat a * 65536 + unat b * 256 + unat c"
proof -
  have l: "unat a < 256" "unat b < 256" "unat c < 256"
    using unsigned_less [of a] unsigned_less [of b] unsigned_less [of c] by auto
  have d: "push_bit 16 (ucast a :: u32) AND push_bit 8 (ucast b) = 0"
    "(push_bit 16 (ucast a :: u32) OR push_bit 8 (ucast b)) AND ucast c = 0"
    by (rule bit_word_eqI; auto simp: bit_simps dest: bit_imp_le_length)+
  have "(push_bit 16 (ucast a :: u32) OR push_bit 8 (ucast b)) OR ucast c =
      push_bit 16 (ucast a) + push_bit 8 (ucast b) + ucast c"
    by (simp only: disjunctive_add_eq_or [OF d(1)] disjunctive_add_eq_or [OF d(2)])
  also have "\<dots> = of_nat (unat a * 65536 + unat b * 256 + unat c)"
    by (simp add: push_bit_eq_mult mult.commute)
  finally have e: "(push_bit 16 (ucast a :: u32) OR push_bit 8 (ucast b)) OR ucast c =
    of_nat (unat a * 65536 + unat b * 256 + unat c)" .
  show ?thesis unfolding e using l by (simp only: unat_of_nat) simp
qed

lemma unat_drop: "unat (drop_bit n w :: u32) = unat w div 2 ^ n"
proof -
  have "unat (drop_bit n w) = drop_bit n (take_bit 32 (unat w))" using unsigned_drop_bit_eq [of n w] by simp
  also have "take_bit 32 (unat w) = unat w" by (rule take_bit_nat_eq_self) (use unsigned_less [of w] in simp)
  finally show ?thesis by (simp add: drop_bit_eq_div)
qed

lemma div64: "y < 64 \<Longrightarrow> (x * 64 + y) div 64 = x" "y < 64 \<Longrightarrow> (x * 64 + y) mod 64 = (y::nat)"
  by simp_all

lemma sextets:
  fixes a b c :: nat
  assumes "a < 256" and "b < 256" and "c < 256" and t: "t = a * 65536 + b * 256 + c"
  shows "t div 262144 mod 64 = a div 4" "t div 4096 mod 64 = a mod 4 * 16 + b div 16"
    "t div 64 mod 64 = b mod 16 * 4 + c div 64" "t mod 64 = c mod 64"
proof -
  obtain a1 a0 where a: "a = a1 * 4 + a0" "a0 < 4" "a div 4 = a1" "a mod 4 = a0"
    by (metis div_mult_mod_eq mod_less_divisor zero_less_numeral)
  obtain b1 b0 where b: "b = b1 * 16 + b0" "b0 < 16" "b div 16 = b1" "b mod 16 = b0"
    by (metis div_mult_mod_eq mod_less_divisor zero_less_numeral)
  obtain c1 c0 where c: "c = c1 * 64 + c0" "c0 < 64" "c div 64 = c1" "c mod 64 = c0"
    by (metis div_mult_mod_eq mod_less_divisor zero_less_numeral)
  have l: "a1 < 64" "b1 < 16" "c1 < 4" using assms(1-3) a(1) b(1) c(1) by simp_all
  have r: "t = ((a1 * 64 + (a0 * 16 + b1)) * 64 + (b0 * 4 + c1)) * 64 + c0"
    by (simp add: t a(1) b(1) c(1))
  have "b0 * 4 + c1 < 64" "a0 * 16 + b1 < 64" using a(2) b(2) l by simp_all
  then have t1: "t div 64 = (a1 * 64 + (a0 * 16 + b1)) * 64 + (b0 * 4 + c1)"
    and t2: "t div 64 div 64 = a1 * 64 + (a0 * 16 + b1)" and t3: "t div 64 div 64 div 64 = a1"
    and m: "t div 64 div 64 mod 64 = a0 * 16 + b1" "t div 64 mod 64 = b0 * 4 + c1"
    unfolding r using c(2) by (simp_all only: div64)
  have d: "t div 262144 = t div 64 div 64 div 64" "t div 4096 = t div 64 div 64" by (simp_all flip: div_mult2_eq)
  show "t div 262144 mod 64 = a div 4" unfolding d t3 a(3) using l by simp
  show "t div 4096 mod 64 = a mod 4 * 16 + b div 16" unfolding d m a(4) b(3) by simp
  show "t div 64 mod 64 = b mod 16 * 4 + c div 64" unfolding m b(4) c(3) by simp
  show "t mod 64 = c mod 64" unfolding r c(4) using c(2) by (simp only: div64)
qed

lemma byte_unat: "byte (unat w) = w"
  by (simp add: byte_def)

lemma chunk_bytes:
  fixes a b c :: nat
  assumes "a < 256" and "b < 256" and "c < 256"
  shows "a div 4 * 4 + (a mod 4 * 16 + b div 16) div 16 = a"
    "(a mod 4 * 16 + b div 16) mod 16 * 16 + (b mod 16 * 4 + c div 64) div 4 = b"
    "(b mod 16 * 4 + c div 64) mod 4 * 64 + c mod 64 = c"
proof -
  have "b div 16 < 16" "c div 64 < 4" using assms by auto
  then show "a div 4 * 4 + (a mod 4 * 16 + b div 16) div 16 = a"
    "(a mod 4 * 16 + b div 16) mod 16 * 16 + (b mod 16 * 4 + c div 64) div 4 = b"
    "(b mod 16 * 4 + c div 64) mod 4 * 64 + c mod 64 = c"
    by simp_all
qed

lemma b64_chunk_triple:
  fixes a b c :: u8
  shows "\<exists>t. unat t = unat a * 65536 + unat b * 256 + unat c \<and>
      b64_chunk [a, b, c] = [b64_char (drop_bit 18 t), b64_char (drop_bit 12 t), b64_char (drop_bit 6 t), b64_char t]"
    "\<exists>t. unat t = unat a * 65536 + unat b * 256 + 0 \<and>
      b64_chunk [a, b] = [b64_char (drop_bit 18 t), b64_char (drop_bit 12 t), b64_char (drop_bit 6 t), CHR ''='']"
    "\<exists>t. unat t = unat a * 65536 + 0 * 256 + 0 \<and>
      b64_chunk [a] = [b64_char (drop_bit 18 t), b64_char (drop_bit 12 t), CHR ''='', CHR ''='']"
  using unat_triple [of a b c] unat_triple [of a b 0] unat_triple [of a 0 0]
  by (intro exI conjI; simp add: b64_chunk_def Let_def)+

lemma b64_values:
  assumes "unat t = a * 65536 + b * 256 + c" and "a < 256" and "b < 256" and "c < 256"
  shows "b64_value (b64_char (drop_bit 18 t)) = Some (a div 4)"
    "b64_value (b64_char (drop_bit 12 t)) = Some (a mod 4 * 16 + b div 16)"
    "b64_value (b64_char (drop_bit 6 t)) = Some (b mod 16 * 4 + c div 64)"
    "b64_value (b64_char t) = Some (c mod 64)"
  unfolding b64_value_char unat_drop using sextets [OF assms(2-4,1)] by simp_all

lemma base64_decode_encode: "base64_decode (base64_encode bs) = Some bs"
proof (induction bs rule: base64_encode.induct)
  case (2 a)
  have l: "unat a < 256" using unsigned_less [of a] by auto
  obtain t where "unat t = unat a * 65536 + 0 * 256 + 0"
    and s: "b64_chunk [a] = [b64_char (drop_bit 18 t), b64_char (drop_bit 12 t), CHR ''='', CHR ''='']"
    using b64_chunk_triple(3) by blast
  note v = b64_values [OF this(1) l, simplified]
  show ?case using chunk_bytes(1) [OF l, of 0 0] by (simp add: s v byte_unat)
next
  case (3 a b)
  have l: "unat a < 256" "unat b < 256" using unsigned_less [of a] unsigned_less [of b] by auto
  obtain t where t: "unat t = unat a * 65536 + unat b * 256 + 0"
    and s: "b64_chunk [a, b] = [b64_char (drop_bit 18 t), b64_char (drop_bit 12 t), b64_char (drop_bit 6 t), CHR ''='']"
    using b64_chunk_triple(2) by blast
  note v = b64_values [OF t l]
  show ?case using chunk_bytes(1,2) [OF l, of 0] b64_char_not_pad
    by (simp only: base64_encode.simps base64_decode.simps s v) (simp add: byte_unat)
next
  case (4 a b c rest)
  have l: "unat a < 256" "unat b < 256" "unat c < 256"
    using unsigned_less [of a] unsigned_less [of b] unsigned_less [of c] by auto
  obtain t where t: "unat t = unat a * 65536 + unat b * 256 + unat c"
    and s: "b64_chunk [a, b, c] = [b64_char (drop_bit 18 t), b64_char (drop_bit 12 t), b64_char (drop_bit 6 t), b64_char t]"
    using b64_chunk_triple(1) by blast
  note v = b64_values [OF t l]
  show ?case using chunk_bytes [OF l] b64_char_not_pad 4
    by (simp only: base64_encode.simps base64_decode.simps s v append.simps) (simp add: byte_unat)
qed simp

lemma base64_length: "length (base64_encode bs) = (length bs + 2) div 3 * 4"
proof (induction bs rule: base64_encode.induct)
  case (4 a b c rest)
  have "(length (a # b # c # rest) + 2) div 3 = (length rest + 2 + 3) div 3" by (simp add: add.commute)
  also have "\<dots> = (length rest + 2) div 3 + 1" by (rule div_add_self2) simp
  finally show ?case using 4 by (simp add: b64_chunk_def Let_def)
qed (simp_all add: b64_chunk_def Let_def)

lemma b64_char_visible: "visible [b64_char w]"
proof -
  have "b64_char w \<in> set B64_CHARS" by (simp add: b64_char_def unat_and_63 B64_distinct)
  then show ?thesis by (auto simp: B64_CHARS_def visible_def)
qed

lemma visible_append [simp]: "visible (s @ t) \<longleftrightarrow> visible s \<and> visible t"
  by (auto simp: visible_def)

lemma visible_Cons: "visible (c # s) \<longleftrightarrow> visible [c] \<and> visible s"
  by (auto simp: visible_def)

lemma base64_visible: "visible (base64_encode bs)"
proof -
  have "visible (b64_chunk cs)" for cs
    using b64_char_visible
    by (simp add: b64_chunk_def Let_def visible_def)
  then show ?thesis by (induction bs rule: base64_encode.induct) (auto simp: visible_def)
qed

end
