(* ===== verification/Float64.thy ===== *)
theory Float64
  imports Prelude "HOL-Library.Log_Nat"
begin

section \<open>Arithmetic of f64\<close>

text \<open>
  A finite \<open>f64\<close> is the rational it stands for, and an operation is the exact result rounded to the
  nearest double, ties to even. \<open>round_f64\<close> is that rounding for normal and subnormal numbers; the
  overflow to infinity and NaN are left out, so users of the model keep to finite operands. Clients
  need two laws only, the locale \<open>rounding\<close>.
\<close>

locale rounding =
  fixes rnd :: "rat \<Rightarrow> rat"
  assumes rnd_mono: "x \<le> y \<Longrightarrow> rnd x \<le> rnd y"
    and rnd_nat: "n \<le> 2 ^ 53 \<Longrightarrow> rnd (of_nat n) = of_nat n"
begin

lemma rnd_0 [simp]: "rnd 0 = 0"
  using rnd_nat [of 0] by simp

lemma rnd_nonneg: "0 \<le> x \<Longrightarrow> 0 \<le> rnd x"
  using rnd_mono [of 0 x] by simp

lemma rnd_pred:
  assumes "1 \<le> x" and "x \<le> of_nat n" and "n \<le> 2 ^ 53"
  shows "0 \<le> rnd (x - 1)" and "rnd (x - 1) \<le> of_nat n"
proof -
  show "0 \<le> rnd (x - 1)" using assms by (intro rnd_nonneg) simp
  have "rnd (x - 1) \<le> rnd (of_nat n)" using assms by (intro rnd_mono) linarith
  then show "rnd (x - 1) \<le> of_nat n" using rnd_nat [OF assms(3)] by simp
qed

lemma rnd_nat_pred: "0 < n \<Longrightarrow> n \<le> 2 ^ 53 \<Longrightarrow> rnd (of_nat n - 1) = of_nat (n - 1)"
  using rnd_nat [of "n - 1"] by (simp add: of_nat_diff)

end

subsection \<open>Rounding to an integer, ties to even\<close>

definition half_even :: "rat \<Rightarrow> int" where
  "half_even x =
     (let k = \<lfloor>x\<rfloor>; d = x - of_int k in
      if d < 1 / 2 then k else if 1 / 2 < d then k + 1 else if even k then k else k + 1)"

lemma half_even_bounds: "\<lfloor>x\<rfloor> \<le> half_even x" "half_even x \<le> \<lfloor>x\<rfloor> + 1"
  by (auto simp: half_even_def Let_def)

lemma half_even_int [simp]: "half_even (of_int k) = k"
  by (simp add: half_even_def)

lemma half_even_mono: "x \<le> y \<Longrightarrow> half_even x \<le> half_even y"
proof (cases "\<lfloor>x\<rfloor> = \<lfloor>y\<rfloor>")
  case True
  moreover assume "x \<le> y"
  ultimately show ?thesis by (auto simp: half_even_def Let_def)
next
  case False
  moreover assume "x \<le> y"
  ultimately have "\<lfloor>x\<rfloor> < \<lfloor>y\<rfloor>" using floor_mono [of x y] by simp
  then show ?thesis using half_even_bounds(2) [of x] half_even_bounds(1) [of y] by linarith
qed

lemma half_even_le: "x \<le> of_int k \<Longrightarrow> half_even x \<le> k"
  using half_even_mono [of x "of_int k"] by simp

lemma half_even_ge: "of_int k \<le> x \<Longrightarrow> k \<le> half_even x"
  using half_even_mono [of "of_int k" x] by simp

subsection \<open>The exponent\<close>

definition binade :: "rat \<Rightarrow> int" where
  "binade x = (case quotient_of x of (p, q) \<Rightarrow>
     let e = bitlen p - bitlen q in if 2 powi e \<le> x then e else e - 1)"

lemma bitlen_rat:
  assumes "0 < p"
  shows "2 powi (bitlen p - 1) \<le> (of_int p :: rat)" "(of_int p :: rat) < 2 powi bitlen p"
proof -
  have b: "2 ^ nat (bitlen p - 1) \<le> p" "p < 2 ^ nat (bitlen p)" "0 < bitlen p"
    using bitlen_bounds [OF assms] bitlen_nonneg [of p] bitlen_eq_zero_iff [of p] assms by auto
  have "of_int (2 ^ nat (bitlen p - 1)) \<le> (of_int p :: rat)" "of_int p < (of_int (2 ^ nat (bitlen p)) :: rat)"
    using b(1,2) by (simp_all only: of_int_le_iff of_int_less_iff)
  then show "2 powi (bitlen p - 1) \<le> (of_int p :: rat)" "(of_int p :: rat) < 2 powi bitlen p"
    using b(3) by (simp_all add: power_int_def)
qed

lemma binade_bounds:
  assumes "0 < x"
  shows "2 powi binade x \<le> x" and "x < 2 powi (binade x + 1)"
proof -
  obtain p q where pq: "quotient_of x = (p, q)" by fastforce
  have q: "0 < q" using quotient_of_denom_pos [OF pq] .
  have x: "x = of_int p / of_int q" using quotient_of_div [OF pq] .
  with assms q have p: "0 < p" by (simp add: zero_less_divide_iff)
  let ?a = "bitlen p" and ?b = "bitlen q"
  note bp = bitlen_rat [OF p] and bq = bitlen_rat [OF q]
  have "x < 2 powi ?a / 2 powi (?b - 1)"
    unfolding x using bp bq p q by (intro frac_less) auto
  also have "\<dots> = 2 powi (?a - ?b + 1)" by (simp flip: power_int_diff add: algebra_simps)
  finally have hi: "x < 2 powi (?a - ?b + 1)" .
  have "2 powi (?a - 1) / 2 powi ?b \<le> x"
    unfolding x using bp bq p q by (intro frac_le) auto
  moreover have "(2 :: rat) powi (?a - 1) / 2 powi ?b = 2 powi (?a - ?b - 1)"
    by (simp flip: power_int_diff add: algebra_simps)
  ultimately have lo: "2 powi (?a - ?b - 1) \<le> x" by simp
  show "2 powi binade x \<le> x" "x < 2 powi (binade x + 1)"
    using hi lo by (auto simp: binade_def pq Let_def)
qed

lemma powi_le_D: "(2 :: rat) powi a < 2 powi b \<Longrightarrow> a < b"
  using power_int_increasing [of b a "2 :: rat"] by (cases "a < b") auto

lemma binade_mono: "0 < x \<Longrightarrow> x \<le> y \<Longrightarrow> binade x \<le> binade y"
proof -
  assume "0 < x" "x \<le> y"
  then have "2 powi binade x < (2 :: rat) powi (binade y + 1)"
    using binade_bounds [of x] binade_bounds [of y] by linarith
  then show ?thesis using powi_le_D by fastforce
qed

subsection \<open>Rounding to a double\<close>

definition ulp :: "rat \<Rightarrow> rat" where
  "ulp x = 2 powi (max (binade x) (-1022) - 52)"

definition round_pos :: "rat \<Rightarrow> rat" where
  "round_pos x = of_int (half_even (x / ulp x)) * ulp x"

definition round_f64 :: "rat \<Rightarrow> rat" where
  "round_f64 x = (if x = 0 then 0 else if x < 0 then - round_pos (- x) else round_pos x)"

lemma ulp_pos: "0 < ulp x"
  by (simp add: ulp_def)

lemma round_pos_nonneg: "0 < x \<Longrightarrow> 0 \<le> round_pos x"
  unfolding round_pos_def using ulp_pos [of x] half_even_ge [of 0 "x / ulp x"] by simp

lemma round_pos_le:
  assumes "0 < x"
  shows "round_pos x \<le> 2 powi (max (binade x) (-1022) + 1)"
proof -
  let ?m = "max (binade x) (-1022)"
  have "x < 2 powi (?m + 1)"
    using binade_bounds(2) [OF assms] by (rule less_le_trans) (simp add: power_int_increasing)
  also have "2 powi (?m + 1) = 2 ^ 53 * ulp x"
    by (simp add: ulp_def power_int_add power_int_diff)
  finally have "x / ulp x \<le> of_int (2 ^ 53)" using ulp_pos [of x] by (simp add: divide_le_eq)
  then have "half_even (x / ulp x) \<le> 2 ^ 53" by (rule half_even_le)
  then have "(of_int (half_even (x / ulp x)) :: rat) \<le> of_int (2 ^ 53)" by (simp only: of_int_le_iff)
  then have "round_pos x \<le> 2 ^ 53 * ulp x"
    unfolding round_pos_def using ulp_pos [of x] by (intro mult_right_mono) auto
  then show ?thesis by (simp add: ulp_def power_int_add power_int_diff)
qed

lemma round_pos_ge:
  assumes "0 < x" and "-1022 \<le> binade x"
  shows "2 powi binade x \<le> round_pos x"
proof -
  have e: "2 powi binade x = 2 ^ 52 * ulp x" using assms(2) by (simp add: ulp_def power_int_diff)
  then have "of_int (2 ^ 52) \<le> x / ulp x"
    using binade_bounds(1) [OF assms(1)] ulp_pos [of x] by (simp add: le_divide_eq)
  then have "2 ^ 52 \<le> half_even (x / ulp x)" by (rule half_even_ge)
  then have "(of_int (2 ^ 52) :: rat) \<le> of_int (half_even (x / ulp x))" by (simp only: of_int_le_iff)
  then show ?thesis unfolding round_pos_def e using ulp_pos [of x] by (intro mult_right_mono) auto
qed

lemma round_pos_mono:
  assumes "0 < x" and "x \<le> y"
  shows "round_pos x \<le> round_pos y"
proof (cases "max (binade x) (-1022) = max (binade y) (-1022)")
  case True
  then have u: "ulp x = ulp y" by (simp add: ulp_def)
  have "x / ulp y \<le> y / ulp y" using assms(2) ulp_pos [of y] by (simp add: divide_right_mono)
  then have "half_even (x / ulp y) \<le> half_even (y / ulp y)" by (rule half_even_mono)
  then show ?thesis unfolding round_pos_def u using ulp_pos [of y] by (simp add: mult_right_mono)
next
  case False
  have y: "0 < y" using assms by simp
  from False binade_mono [OF assms] have l: "max (binade x) (-1022) + 1 \<le> binade y" "-1022 \<le> binade y" by auto
  have "round_pos x \<le> 2 powi (max (binade x) (-1022) + 1)" by (rule round_pos_le [OF assms(1)])
  also have "\<dots> \<le> 2 powi binade y" using l(1) by (simp add: power_int_increasing)
  also have "\<dots> \<le> round_pos y" by (rule round_pos_ge [OF y l(2)])
  finally show ?thesis .
qed

lemma round_pos_nat:
  assumes "0 < n" and "n \<le> 2 ^ 53"
  shows "round_pos (of_nat n) = of_nat n"
proof -
  let ?e = "binade (of_nat n)"
  note b = binade_bounds [of "of_nat n"]
  have "(2 :: rat) powi 0 < 2 powi (?e + 1)" using b(2) assms(1) by (simp add: Suc_le_eq le_less_trans [of 1])
  then have e0: "0 \<le> ?e" using powi_le_D by fastforce
  have "(of_nat n :: rat) \<le> of_nat (2 ^ 53)" using assms(2) by (simp only: of_nat_le_iff)
  then have "2 powi ?e < (2 :: rat) powi 54" using b(1) assms(1) by (simp add: power_int_def [of _ 54])
  then have e1: "?e \<le> 53" using powi_le_D by fastforce
  obtain k where k: "of_nat n = of_int k * ulp (of_nat n)"
  proof (cases "?e = 53")
    case True
    then have "(2 :: rat) ^ 53 \<le> of_nat n" using b(1) assms(1) by (simp add: power_int_def)
    then have "of_nat n = (2 ^ 53 :: rat)" using \<open>(of_nat n :: rat) \<le> of_nat (2 ^ 53)\<close> by simp
    then have "of_nat n = of_int (2 ^ 52) * ulp (of_nat n)" using True by (simp add: ulp_def)
    then show ?thesis by (rule that)
  next
    case False
    have "(2 :: rat) powi (52 - ?e) * ulp (of_nat n) = 1"
      using e0 by (simp add: ulp_def flip: power_int_add)
    moreover have "(2 :: rat) powi (52 - ?e) = of_int (2 ^ nat (52 - ?e))"
      using False e1 by (simp add: power_int_def)
    ultimately have "of_nat n = of_int (int n * 2 ^ nat (52 - ?e)) * ulp (of_nat n)"
      by (simp add: mult.assoc)
    then show ?thesis by (rule that)
  qed
  have "of_nat n / ulp (of_nat n) = (of_int k :: rat)" using k ulp_pos [of "of_nat n"] by (simp add: field_simps)
  then have "round_pos (of_nat n) = of_int k * ulp (of_nat n)" by (simp add: round_pos_def)
  then show ?thesis using k by simp
qed

interpretation f64: rounding round_f64
proof unfold_locales
  fix x y :: rat and n :: nat
  show "round_f64 (of_nat n) = of_nat n" if "n \<le> 2 ^ 53"
    using that round_pos_nat [of n] by (simp add: round_f64_def)
  assume le: "x \<le> y"
  show "round_f64 x \<le> round_f64 y"
  proof (cases "0 < x \<or> y < 0")
    case True
    then show ?thesis
      using round_pos_mono [of x y] round_pos_mono [of "- y" "- x"] le by (auto simp: round_f64_def)
  next
    case False
    then have "round_f64 x \<le> 0" "0 \<le> round_f64 y"
      using round_pos_nonneg [of "- x"] round_pos_nonneg [of y] by (auto simp: round_f64_def)
    then show ?thesis by simp
  qed
qed

text \<open>\<open>Duration::as_secs_f64\<close> of a number of nanoseconds.\<close>

definition as_secs_f64 :: "(rat \<Rightarrow> rat) \<Rightarrow> nat \<Rightarrow> rat" where
  "as_secs_f64 rnd d =
     rnd (rnd (of_nat (d div 1000000000)) + rnd (of_nat (d mod 1000000000) / 1000000000))"

end
