(* ===== verification/Middleware.thy ===== *)
theory Middleware
  imports Headers Float64
begin

section \<open>Server middleware (oxihttp-server middleware.rs)\<close>

text \<open>
  CORS, the body limit, the rate limiter and the pipeline that runs them before and after a handler.
  The reader of request headers \<open>rq_headers\<close> is \<open>headers.get(name)\<close> followed by \<open>to_str\<close>. The rate
  limiter is a record passed through; \<open>pick\<close> chooses the key that \<open>HashMap::keys().next()\<close> yields
  and \<open>rnd\<close> is the rounding of \<open>f64\<close>. Instants and durations are nanoseconds. A failing
  \<open>debug_assert!\<close> is \<open>None\<close>; \<open>dbg\<close> tells whether the build has debug assertions.
\<close>

subsection \<open>CORS\<close>

record cors_config =
  allowed_origins :: "string list"
  allowed_methods :: "string list"
  allowed_headers :: "string list"
  exposed_headers :: "string list"
  allow_credentials :: bool
  cors_max_age :: "nat option"



text \<open>\<open>if let Ok(val) = HeaderValue::from_str(v) { headers.insert(k, val) }\<close>\<close>

definition hm_try_insert :: "http_lib \<Rightarrow> string \<Rightarrow> string \<Rightarrow> header_map \<Rightarrow> header_map" where
  "hm_try_insert lib k v h = (if hv_error lib v = None then hm_insert k v h else h)"

definition list_tokens :: "string \<Rightarrow> string list" where
  "list_tokens s = filter (\<lambda>t. t \<noteq> '''') (map trim (split_on CHR '','' s))"

text \<open>\<open>None\<close> is the early return on a value that is no text.\<close>

fun vary_tokens :: "http_lib \<Rightarrow> string list \<Rightarrow> string list option" where
  "vary_tokens lib [] = Some []"
| "vary_tokens lib (v # vs) =
     (case to_str lib v of None \<Rightarrow> None
      | Some s \<Rightarrow> map_option (\<lambda>toks. list_tokens s @ toks) (vary_tokens lib vs))"

definition add_vary_origin :: "http_lib \<Rightarrow> header_map \<Rightarrow> header_map" where
  "add_vary_origin lib h =
     (case vary_tokens lib (hm_get_all ''vary'' h) of None \<Rightarrow> h
      | Some tokens \<Rightarrow>
          if list_ex (\<lambda>tok. eq_ignore_case tok ''origin'') tokens then h
          else hm_try_insert lib ''vary'' (join '', '' (tokens @ [''Origin''])) h)"

definition cors_fields :: "http_lib \<Rightarrow> cors_config \<Rightarrow> string \<Rightarrow> header_map \<Rightarrow> header_map" where
  "cors_fields lib c origin_value h0 =
     (let h1 = hm_try_insert lib ''access-control-allow-origin'' origin_value h0;
          h2 = (if allow_credentials c then hm_insert ''access-control-allow-credentials'' ''true'' h1 else h1);
          h3 = (if allowed_methods c \<noteq> [] then
                  hm_try_insert lib ''access-control-allow-methods'' (join '', '' (allowed_methods c)) h2 else h2);
          h4 = (if allowed_headers c \<noteq> [] then
                  hm_try_insert lib ''access-control-allow-headers'' (join '', '' (allowed_headers c)) h3 else h3);
          h5 = (if exposed_headers c \<noteq> [] then
                  hm_try_insert lib ''access-control-expose-headers'' (join '', '' (exposed_headers c)) h4 else h4)
      in case cors_max_age c of
           Some n \<Rightarrow> hm_try_insert lib ''access-control-max-age'' (show_nat n) h5 | None \<Rightarrow> h5)"

definition cors_origin_value :: "cors_config \<Rightarrow> string option \<Rightarrow> string option" where
  "cors_origin_value c org =
     (if ''*'' \<in> set (allowed_origins c) then Some ''*''
      else (case org of Some val \<Rightarrow> if val \<in> set (allowed_origins c) then Some val else None | None \<Rightarrow> None))"

definition apply_headers ::
  "http_lib \<Rightarrow> bool \<Rightarrow> cors_config \<Rightarrow> string option \<Rightarrow> header_map \<Rightarrow> header_map option" where
  "apply_headers lib dbg c org h =
     (let h' = (if ''*'' \<in> set (allowed_origins c) then h else add_vary_origin lib h) in
      case cors_origin_value c org of
        None \<Rightarrow> Some h'
      | Some v \<Rightarrow> if dbg \<and> v = ''*'' \<and> allow_credentials c then None else Some (cors_fields lib c v h'))"

definition preflight_response ::
  "http_lib \<Rightarrow> bool \<Rightarrow> cors_config \<Rightarrow> string option \<Rightarrow> bytes response option" where
  "preflight_response lib dbg c org =
     map_option (\<lambda>h. \<lparr>resp_status = 204, resp_headers = h, resp_body = []\<rparr>) (apply_headers lib dbg c org [])"

subsection \<open>Body limit\<close>

record body_limit_config = max_bytes :: nat

definition body_limit_new :: "nat \<Rightarrow> body_limit_config" where
  "body_limit_new n = \<lparr>max_bytes = n\<rparr>"

definition check_content_length :: "body_limit_config \<Rightarrow> nat option \<Rightarrow> unit oxi_result" where
  "check_content_length c len_opt =
     (case len_opt of
        Some len \<Rightarrow>
          if max_bytes c < len then
            Inl (BodyErr (''request body too large: '' @ show_nat len @ '' bytes exceeds limit of '' @
                   show_nat (max_bytes c) @ '' bytes''))
          else Inr ()
      | None \<Rightarrow> Inr ())"

subsection \<open>The rate limiter\<close>

definition DEFAULT_IDLE_TIMEOUT :: nat where
  "DEFAULT_IDLE_TIMEOUT = 300 * 1000000000"

definition DEFAULT_MAX_BUCKETS :: nat where
  "DEFAULT_MAX_BUCKETS = 100000"

definition SWEEP_INTERVAL :: nat where
  "SWEEP_INTERVAL = 256"

record token_bucket =
  tokens :: rat
  last_refill :: nat

record rate_limiter =
  buckets :: "(string \<times> token_bucket) list"
  max_tokens :: nat
  refill_rate :: rat
  idle_timeout :: nat
  max_buckets :: nat
  checks_since_sweep :: nat

definition with_limits :: "nat \<Rightarrow> rat \<Rightarrow> nat \<Rightarrow> nat \<Rightarrow> rate_limiter" where
  "with_limits mx rate idle cap =
     \<lparr>buckets = [], max_tokens = mx, refill_rate = rate, idle_timeout = idle, max_buckets = max cap 1,
      checks_since_sweep = 0\<rparr>"

definition limiter_new :: "nat \<Rightarrow> rat \<Rightarrow> rate_limiter" where
  "limiter_new mx rate = with_limits mx rate DEFAULT_IDLE_TIMEOUT DEFAULT_MAX_BUCKETS"

definition sweep :: "nat \<Rightarrow> rate_limiter \<Rightarrow> rate_limiter" where
  "sweep now rl =
     (let n = checks_since_sweep rl + 1 in
      if SWEEP_INTERVAL \<le> n then
        rl\<lparr>checks_since_sweep := 0,
           buckets := filter (\<lambda>(k, b). now - last_refill b < idle_timeout rl) (buckets rl)\<rparr>
      else rl\<lparr>checks_since_sweep := n\<rparr>)"

definition make_room :: "(string list \<Rightarrow> nat) \<Rightarrow> string \<Rightarrow> rate_limiter \<Rightarrow> rate_limiter" where
  "make_room pick key rl =
     (let ks = map fst (buckets rl) in
      if key \<notin> set ks \<and> max_buckets rl \<le> length ks \<and> ks \<noteq> [] then
        (let evict = ks ! (pick ks mod length ks) in
         rl\<lparr>buckets := filter (\<lambda>(k, b). k \<noteq> evict) (buckets rl)\<rparr>)
      else rl)"

definition or_insert :: "string \<Rightarrow> token_bucket \<Rightarrow> rate_limiter \<Rightarrow> rate_limiter" where
  "or_insert key b rl = (if key \<in> fst ` set (buckets rl) then rl else rl\<lparr>buckets := buckets rl @ [(key, b)]\<rparr>)"

text \<open>The refill rate is a finite number here; where a product of finite numbers overflows to an infinity the
  minimum gives the same bucket. A rate that is itself infinite or NaN, which the constructor accepts, is
  outside the model: at no elapsed time the product is then NaN, \<open>f64::min\<close> ignores it, and every check
  fills the bucket up again, so that nothing is ever limited.\<close>

definition refill :: "(rat \<Rightarrow> rat) \<Rightarrow> nat \<Rightarrow> rate_limiter \<Rightarrow> token_bucket \<Rightarrow> token_bucket" where
  "refill rnd now rl b =
     (let elapsed = as_secs_f64 rnd (now - last_refill b) in
      \<lparr>tokens = min (rnd (tokens b + rnd (elapsed * refill_rate rl))) (of_nat (max_tokens rl)), last_refill = now\<rparr>)"

definition rl_check ::
  "(rat \<Rightarrow> rat) \<Rightarrow> (string list \<Rightarrow> nat) \<Rightarrow> nat \<Rightarrow> string \<Rightarrow> rate_limiter \<Rightarrow> bool \<times> rate_limiter" where
  "rl_check rnd pick now key rl0 =
     (let rl = or_insert key \<lparr>tokens = of_nat (max_tokens rl0), last_refill = now\<rparr>
                 (make_room pick key (sweep now rl0));
          bucket = refill rnd now rl (the (map_of (buckets rl) key));
          allowed = 1 \<le> tokens bucket;
          bucket' = (if allowed then bucket\<lparr>tokens := rnd (tokens bucket - 1)\<rparr> else bucket)
      in (allowed, rl\<lparr>buckets := map (\<lambda>(k, b). if k = key then (k, bucket') else (k, b)) (buckets rl)\<rparr>))"

definition bucket_count :: "rate_limiter \<Rightarrow> nat" where
  "bucket_count rl = length (buckets rl)"

definition too_many_requests :: "bytes response" where
  "too_many_requests = \<lparr>resp_status = 429, resp_headers = [], resp_body = as_bytes ''Too Many Requests''\<rparr>"

text \<open>A run of checks, each with its key and instant.\<close>

fun run_checks ::
  "(rat \<Rightarrow> rat) \<Rightarrow> (string list \<Rightarrow> nat) \<Rightarrow> (string \<times> nat) list \<Rightarrow> rate_limiter \<Rightarrow> bool list \<times> rate_limiter" where
  "run_checks rnd pick [] rl = ([], rl)"
| "run_checks rnd pick ((key, now) # cs) rl =
     (let (ok, rl') = rl_check rnd pick now key rl; (oks, rl'') = run_checks rnd pick cs rl' in (ok # oks, rl''))"

subsection \<open>The pipeline\<close>

record timeout_config = duration :: nat

definition timeout_config_new :: "nat \<Rightarrow> timeout_config" where
  "timeout_config_new d = \<lparr>duration = d\<rparr>"

definition timeout_response :: "bytes response" where
  "timeout_response = \<lparr>resp_status = 408, resp_headers = [], resp_body = as_bytes ''Request Timeout''\<rparr>"

record pipeline =
  p_cors :: "cors_config option"
  p_body_limit :: "body_limit_config option"
  p_rate_limiter :: "rate_limiter option"
  p_timeout :: "timeout_config option"
  p_trust_forwarded_for :: bool
  p_allowed_methods :: "string set"

definition pipeline_new :: pipeline where
  "pipeline_new =
     \<lparr>p_cors = None, p_body_limit = None, p_rate_limiter = None, p_timeout = None,
      p_trust_forwarded_for = False, p_allowed_methods = {}\<rparr>"

definition p_with_cors :: "cors_config \<Rightarrow> pipeline \<Rightarrow> pipeline" where
  "p_with_cors c p = p\<lparr>p_allowed_methods := set (allowed_methods c), p_cors := Some c\<rparr>"

definition p_with_body_limit :: "nat \<Rightarrow> pipeline \<Rightarrow> pipeline" where
  "p_with_body_limit n p = p\<lparr>p_body_limit := Some (body_limit_new n)\<rparr>"

definition p_with_rate_limiter :: "rate_limiter \<Rightarrow> pipeline \<Rightarrow> pipeline" where
  "p_with_rate_limiter rl p = p\<lparr>p_rate_limiter := Some rl\<rparr>"

definition p_with_timeout :: "nat \<Rightarrow> pipeline \<Rightarrow> pipeline" where
  "p_with_timeout d p = p\<lparr>p_timeout := Some (timeout_config_new d)\<rparr>"

definition p_with_trusted_proxy_headers :: "bool \<Rightarrow> pipeline \<Rightarrow> pipeline" where
  "p_with_trusted_proxy_headers t p = p\<lparr>p_trust_forwarded_for := t\<rparr>"

text \<open>\<open>xff.rsplit(',').next()\<close> is the last piece. The peer is its printed IP address.\<close>

definition rate_limit_key :: "(string \<Rightarrow> string option) \<Rightarrow> string \<Rightarrow> bool \<Rightarrow> string" where
  "rate_limit_key hget peer_ip trust =
     (case (if trust then hget ''x-forwarded-for'' else None) of
        Some xff \<Rightarrow> (let t = trim (last (split_on CHR '','' xff)) in if t \<noteq> '''' then t else peer_ip)
      | None \<Rightarrow> peer_ip)"

text \<open>The world outside a request: the library, the build, the rounding, the map's order, the clock
  and the peer's address.\<close>

record world =
  w_lib :: http_lib
  w_dbg :: bool
  w_rnd :: "rat \<Rightarrow> rat"
  w_pick :: "string list \<Rightarrow> nat"
  w_now :: nat
  w_peer :: string

definition limit_check :: "world \<Rightarrow> ('x, 'b) http_request \<Rightarrow> pipeline \<Rightarrow> bool \<times> pipeline" where
  "limit_check w req p =
     (case p_rate_limiter p of None \<Rightarrow> (True, p)
      | Some rl \<Rightarrow>
          (let key = rate_limit_key (rq_headers req) (w_peer w) (p_trust_forwarded_for p);
               (ok, rl') = rl_check (w_rnd w) (w_pick w) (w_now w) key rl
           in (ok, p\<lparr>p_rate_limiter := Some rl'\<rparr>)))"

definition length_check :: "pipeline \<Rightarrow> ('x, 'b) http_request \<Rightarrow> bytes response option" where
  "length_check p req =
     (case p_body_limit p of None \<Rightarrow> None
      | Some c \<Rightarrow>
          (case check_content_length c (Option.bind (rq_headers req ''content-length'') parse_u64) of
             Inl e \<Rightarrow> Some \<lparr>resp_status = 413, resp_headers = [], resp_body = as_bytes (error_to_string e)\<rparr>
           | Inr _ \<Rightarrow> None))"

definition pre_handle ::
  "world \<Rightarrow> ('x, 'b) http_request \<Rightarrow> pipeline \<Rightarrow> (bytes response option \<times> pipeline) option" where
  "pre_handle w req p =
     (case (if rq_method req = ''OPTIONS'' then p_cors p else None) of
        Some c \<Rightarrow> map_option (\<lambda>r. (Some r, p)) (preflight_response (w_lib w) (w_dbg w) c (rq_headers req ''origin''))
      | None \<Rightarrow>
          (let (ok, p') = limit_check w req p in
           Some (if \<not> ok then Some too_many_requests else length_check p' req, p')))"

definition post_handle ::
  "world \<Rightarrow> pipeline \<Rightarrow> string option \<Rightarrow> bytes response \<Rightarrow> bytes response option" where
  "post_handle w p org resp =
     (case p_cors p of None \<Rightarrow> Some resp
      | Some c \<Rightarrow> map_option (\<lambda>h. resp\<lparr>resp_headers := h\<rparr>) (apply_headers (w_lib w) (w_dbg w) c org (resp_headers resp)))"

text \<open>The extensions of a request are a typed map; \<open>put\<close> stores a \<open>BodyLimitConfig\<close> in it.\<close>

definition inject_body_limit ::
  "(body_limit_config \<Rightarrow> 'x \<Rightarrow> 'x) \<Rightarrow> pipeline \<Rightarrow> ('x, 'b) http_request \<Rightarrow> ('x, 'b) http_request" where
  "inject_body_limit put p req =
     (case p_body_limit p of Some c \<Rightarrow> req\<lparr>rq_ext := put c (rq_ext req)\<rparr> | None \<Rightarrow> req)"

subsection \<open>Lists of tokens\<close>

lemma trim_by_skip: "P x \<Longrightarrow> trim_by P (x # s) = trim_by P s"
  by (simp add: trim_by_def)





lemma trim_lead: "trimmed t \<Longrightarrow> trim (CHR '' '' # t) = t"
  using trim_by_skip [of is_ws "CHR '' ''" t] by (simp add: trim_trimmed is_ws_def flip: trim_def)




subsection \<open>CORS: the headers of a response\<close>










subsection \<open>The rate limiter: lemmas and properties\<close>

definition rl_inv :: "rate_limiter \<Rightarrow> bool" where
  "rl_inv rl \<longleftrightarrow> distinct (map fst (buckets rl)) \<and> 1 \<le> max_buckets rl \<and> bucket_count rl \<le> max_buckets rl \<and>
     (\<forall>(k, b) \<in> set (buckets rl). 0 \<le> tokens b \<and> tokens b \<le> of_nat (max_tokens rl)) \<and>
     checks_since_sweep rl < SWEEP_INTERVAL"

definition same_limits :: "rate_limiter \<Rightarrow> rate_limiter \<Rightarrow> bool" where
  "same_limits a b \<longleftrightarrow> max_tokens a = max_tokens b \<and> refill_rate a = refill_rate b \<and>
     idle_timeout a = idle_timeout b \<and> max_buckets a = max_buckets b"

lemma same_limits_refl [simp]: "same_limits a a"
  by (simp add: same_limits_def)

lemma same_limits_trans: "same_limits a b \<Longrightarrow> same_limits b c \<Longrightarrow> same_limits a c"
  by (simp add: same_limits_def)

lemma distinct_fst_filter: "distinct (map fst xs) \<Longrightarrow> distinct (map fst (filter P xs))"
  by (induction xs) auto

lemma sweep_inv: "rl_inv rl \<Longrightarrow> rl_inv (sweep now rl) \<and> same_limits (sweep now rl) rl"
proof -
  assume inv: "rl_inv rl"
  have "length (filter P (buckets rl)) \<le> max_buckets rl" for P
    using inv length_filter_le [of P "buckets rl"] unfolding rl_inv_def bucket_count_def by linarith
  with inv show ?thesis
    by (auto simp: rl_inv_def sweep_def Let_def same_limits_def bucket_count_def distinct_fst_filter SWEEP_INTERVAL_def)
qed

lemma filter_key_shorter:
  "k \<in> fst ` set xs \<Longrightarrow> length (filter (\<lambda>(k', b). k' \<noteq> k) xs) < length xs"
  by (auto intro!: length_filter_less)

lemma make_room_inv:
  assumes "rl_inv rl"
  shows "rl_inv (make_room pick key rl) \<and> same_limits (make_room pick key rl) rl \<and>
    (key \<in> fst ` set (buckets (make_room pick key rl)) \<or> bucket_count (make_room pick key rl) < max_buckets rl)"
proof (cases "key \<notin> fst ` set (buckets rl) \<and> max_buckets rl \<le> length (buckets rl)")
  case True
  let ?ks = "map fst (buckets rl)"
  have ne: "?ks \<noteq> []" using True assms by (auto simp: rl_inv_def)
  define e where "e = ?ks ! (pick ?ks mod length ?ks)"
  have "e \<in> set ?ks" unfolding e_def using ne by (intro nth_mem) simp
  then have "length (filter (\<lambda>(k', b). k' \<noteq> e) (buckets rl)) < length (buckets rl)"
    by (intro filter_key_shorter) simp
  moreover have "make_room pick key rl = rl\<lparr>buckets := filter (\<lambda>(k, b). k \<noteq> e) (buckets rl)\<rparr>"
    using True ne by (simp add: make_room_def e_def)
  ultimately show ?thesis using assms
    by (auto simp: rl_inv_def same_limits_def bucket_count_def distinct_fst_filter)
next
  case False
  then have "make_room pick key rl = rl" by (auto simp: make_room_def Let_def)
  with False assms show ?thesis by (auto simp: bucket_count_def)
qed

lemma or_insert_inv:
  assumes "rl_inv rl" and "key \<in> fst ` set (buckets rl) \<or> bucket_count rl < max_buckets rl"
    and "0 \<le> tokens b" and "tokens b \<le> of_nat (max_tokens rl)"
  shows "rl_inv (or_insert key b rl) \<and> same_limits (or_insert key b rl) rl \<and>
    key \<in> fst ` set (buckets (or_insert key b rl))"
  using assms by (auto simp: or_insert_def rl_inv_def same_limits_def bucket_count_def)

lemma map_fst_update: "map fst (map (\<lambda>(k, b). if k = key then (k, c) else (k, b)) xs) = map fst xs"
  by (induction xs) auto

context rounding
begin

lemma refill_bounds:
  assumes "0 \<le> refill_rate rl" and "0 \<le> tokens b"
  shows "0 \<le> tokens (refill rnd now rl b)" "tokens (refill rnd now rl b) \<le> of_nat (max_tokens rl)"
proof -
  have "0 \<le> as_secs_f64 rnd d" for d
    unfolding as_secs_f64_def by (intro rnd_nonneg add_nonneg_nonneg) simp_all
  then have "0 \<le> rnd (tokens b + rnd (as_secs_f64 rnd d * refill_rate rl))" for d
    using assms by (intro rnd_nonneg add_nonneg_nonneg mult_nonneg_nonneg) simp_all
  then show "0 \<le> tokens (refill rnd now rl b)" "tokens (refill rnd now rl b) \<le> of_nat (max_tokens rl)"
    by (simp_all add: refill_def)
qed

lemma rl_check_inv:
  assumes "rl_inv rl" and "0 \<le> refill_rate rl" and "max_tokens rl \<le> 2 ^ 53"
  shows "rl_inv (snd (rl_check rnd pick now key rl)) \<and> same_limits (snd (rl_check rnd pick now key rl)) rl"
proof -
  define r1 where "r1 = sweep now rl"
  define r2 where "r2 = make_room pick key r1"
  define r3 where "r3 = or_insert key \<lparr>tokens = of_nat (max_tokens rl), last_refill = now\<rparr> r2"
  have i1: "rl_inv r1" "same_limits r1 rl" using sweep_inv [OF assms(1)] by (simp_all add: r1_def)
  have i2: "rl_inv r2" "same_limits r2 r1" and room: "key \<in> fst ` set (buckets r2) \<or> bucket_count r2 < max_buckets r2"
    using make_room_inv [OF i1(1), of pick key] by (auto simp: r2_def same_limits_def)
  have "max_tokens r2 = max_tokens rl" using i1(2) i2(2) by (simp add: same_limits_def)
  then have i3: "rl_inv r3" "same_limits r3 r2" and key: "key \<in> fst ` set (buckets r3)"
    using or_insert_inv [OF i2(1) room, of "\<lparr>tokens = of_nat (max_tokens rl), last_refill = now\<rparr>"]
    by (simp_all add: r3_def)
  have lim: "same_limits r3 rl" using i1(2) i2(2) i3(2) same_limits_trans by blast
  define b where "b = the (map_of (buckets r3) key)"
  have "map_of (buckets r3) key = Some b"
    using key by (auto simp: b_def dest: weak_map_of_SomeI)
  then have "(key, b) \<in> set (buckets r3)" by (rule map_of_SomeD)
  then have "0 \<le> tokens b" using i3(1) by (auto simp: rl_inv_def)
  then have r: "0 \<le> tokens (refill rnd now r3 b)" "tokens (refill rnd now r3 b) \<le> of_nat (max_tokens r3)"
    using refill_bounds [of r3 b now] assms(2) lim by (simp_all add: same_limits_def)
  define c where "c = (if 1 \<le> tokens (refill rnd now r3 b)
    then (refill rnd now r3 b)\<lparr>tokens := rnd (tokens (refill rnd now r3 b) - 1)\<rparr> else refill rnd now r3 b)"
  have c: "0 \<le> tokens c" "tokens c \<le> of_nat (max_tokens r3)"
    using r rnd_pred [OF _ r(2)] assms(3) lim by (auto simp: c_def same_limits_def)
  have s: "snd (rl_check rnd pick now key rl) =
      r3\<lparr>buckets := map (\<lambda>(k, b). if k = key then (k, c) else (k, b)) (buckets r3)\<rparr>"
    unfolding rl_check_def Let_def r1_def [symmetric] r2_def [symmetric] r3_def [symmetric]
      b_def [symmetric] c_def [symmetric] by simp
  have "rl_inv (snd (rl_check rnd pick now key rl))"
    using i3(1) c by (auto simp: s rl_inv_def bucket_count_def map_fst_update simp del: map_map split: if_splits)
  moreover have "same_limits (snd (rl_check rnd pick now key rl)) rl"
    using lim by (simp add: s same_limits_def)
  ultimately show ?thesis by simp
qed

lemma run_checks_inv:
  assumes "rl_inv rl" and "0 \<le> refill_rate rl" and "max_tokens rl \<le> 2 ^ 53"
  shows "rl_inv (snd (run_checks rnd pick cs rl)) \<and> same_limits (snd (run_checks rnd pick cs rl)) rl"
  using assms
proof (induction cs arbitrary: rl)
  case (Cons c cs)
  obtain key now where c: "c = (key, now)" by fastforce
  obtain ok rl' where ok: "rl_check rnd pick now key rl = (ok, rl')" by fastforce
  have i: "rl_inv rl'" "same_limits rl' rl" using rl_check_inv [OF Cons.prems, of pick now key] ok by simp_all
  then have "rl_inv (snd (run_checks rnd pick cs rl')) \<and> same_limits (snd (run_checks rnd pick cs rl')) rl'"
    using Cons.prems(2,3) by (intro Cons.IH) (simp_all add: same_limits_def)
  with i(2) show ?case by (auto simp: c ok split: prod.splits intro: same_limits_trans)
qed simp

end

lemma with_limits_inv: "rl_inv (with_limits mx rate idle cap)"
  by (simp add: rl_inv_def with_limits_def bucket_count_def SWEEP_INTERVAL_def)

text \<open>C33. The memory and the tokens of the rate limiter are bounded: after any sequence of checks with
  any keys at any instants, in whatever order the map yields its keys, a limiter with a non-negative
  refill rate tracks at most \<open>max(max_buckets, 1)\<close> buckets, one per key, and every bucket holds between
  0 and \<open>max_tokens\<close> tokens, with \<open>f64\<close> rounding. The sweep counter stays below its interval.\<close>

theorem limiter_inv:
  assumes "0 \<le> rate" and "mx < 2 ^ 32"
  shows "let rl = snd (run_checks round_f64 pick cs (with_limits mx rate idle cap)) in
    rl_inv rl \<and> bucket_count rl \<le> max cap 1"
proof -
  have "rl_inv (snd (run_checks round_f64 pick cs (with_limits mx rate idle cap))) \<and>
      same_limits (snd (run_checks round_f64 pick cs (with_limits mx rate idle cap))) (with_limits mx rate idle cap)"
    using assms by (intro f64.run_checks_inv [OF with_limits_inv]) (simp_all add: with_limits_def)
  moreover have "max_buckets (with_limits mx rate idle cap) = max cap 1" by (simp add: with_limits_def)
  ultimately show ?thesis unfolding Let_def same_limits_def by (metis rl_inv_def)
qed

theorem limiter_inv_witness:
  "bucket_count (snd (run_checks round_f64 length [(''a'', 0), (''b'', 5), (''c'', 7)] (with_limits 1 0 300 2))) \<le> 2"
  using limiter_inv [of 0 1 length "[(''a'', 0), (''b'', 5), (''c'', 7)]" 300 2] by (simp add: Let_def)

text \<open>What the limiter holds after the checks of the keys \<open>ks\<close>, all at the instant \<open>now\<close>.\<close>

definition burst_state :: "nat \<Rightarrow> string list \<Rightarrow> rate_limiter \<Rightarrow> bool" where
  "burst_state now ks rl \<longleftrightarrow> distinct (map fst (buckets rl)) \<and> fst ` set (buckets rl) = set ks \<and>
     (\<forall>(k, b) \<in> set (buckets rl). tokens b = of_nat (max_tokens rl - count_list ks k) \<and> last_refill b = now)"

lemma burst_sweep: "burst_state now ks rl \<Longrightarrow> 0 < idle_timeout rl \<Longrightarrow> buckets (sweep now rl) = buckets rl"
  by (fastforce simp: burst_state_def sweep_def Let_def intro!: filter_True)

lemma burst_room:
  assumes "burst_state now ks rl" and "card (insert key (set ks)) \<le> max_buckets rl"
  shows "make_room pick key rl = rl"
proof -
  have "length (buckets rl) = card (set ks)"
    using assms(1) distinct_card [of "map fst (buckets rl)"] by (simp add: burst_state_def)
  moreover have "fst ` set (buckets rl) = set ks" using assms(1) by (simp add: burst_state_def)
  ultimately show ?thesis using assms(2) by (auto simp: make_room_def Let_def card_insert_if split: if_splits)
qed

context rounding
begin

lemma refill_same_instant:
  assumes "tokens b = of_nat n" and "n \<le> max_tokens rl" and "max_tokens rl \<le> 2 ^ 53" and "last_refill b = now"
  shows "refill rnd now rl b = \<lparr>tokens = of_nat n, last_refill = now\<rparr>"
  using assms rnd_nat [of n] by (simp add: refill_def as_secs_f64_def)

lemma burst_check:
  assumes st: "burst_state now ks rl" and cap: "card (insert key (set ks)) \<le> max_buckets rl"
    and idle: "0 < idle_timeout rl" and mx: "max_tokens rl \<le> 2 ^ 53"
  obtains rl' where "rl_check rnd pick now key rl = (count_list ks key < max_tokens rl, rl')"
    and "burst_state now (ks @ [key]) rl'" and "same_limits rl' rl"
proof -
  let ?n = "max_tokens rl - count_list ks key"
  define r1 where "r1 = sweep now rl"
  have r1: "buckets r1 = buckets rl" "same_limits r1 rl"
    using burst_sweep [OF st idle] by (auto simp: r1_def sweep_def Let_def same_limits_def)
  then have st1: "burst_state now ks r1" using st by (simp add: burst_state_def same_limits_def)
  define r3 where "r3 = or_insert key \<lparr>tokens = of_nat (max_tokens rl), last_refill = now\<rparr> r1"
  have dist: "distinct (map fst (buckets r3))" and keys: "fst ` set (buckets r3) = insert key (set ks)"
    and lim: "same_limits r3 rl"
    and all: "\<forall>(k, b) \<in> set (buckets r3). tokens b = of_nat (max_tokens rl - count_list ks k) \<and> last_refill b = now"
    using st1 r1(2) by (auto simp: r3_def or_insert_def burst_state_def same_limits_def count_list_0_iff)
  have room: "make_room pick key r1 = r1"
    using burst_room [OF st1] cap r1(2) by (simp add: same_limits_def)
  define b where "b = the (map_of (buckets r3) key)"
  have "map_of (buckets r3) key \<noteq> None" by (simp add: map_of_eq_None_iff keys)
  then have "map_of (buckets r3) key = Some b" by (auto simp: b_def)
  then have "(key, b) \<in> set (buckets r3)" by (rule map_of_SomeD)
  then have b: "tokens b = of_nat ?n" "last_refill b = now" using all by auto
  have re: "refill rnd now r3 b = \<lparr>tokens = of_nat ?n, last_refill = now\<rparr>"
    using b lim mx by (intro refill_same_instant) (simp_all add: same_limits_def)
  let ?c = "\<lparr>tokens = of_nat (max_tokens rl - count_list (ks @ [key]) key), last_refill = now\<rparr>"
  let ?r = "r3\<lparr>buckets := map (\<lambda>(k, b). if k = key then (k, ?c) else (k, b)) (buckets r3)\<rparr>"
  have ok: "(1 :: rat) \<le> of_nat ?n \<longleftrightarrow> count_list ks key < max_tokens rl" by auto
  have dec: "rnd (of_nat ?n - 1) = of_nat (max_tokens rl - count_list (ks @ [key]) key)"
    if "count_list ks key < max_tokens rl"
  proof -
    have "rnd (of_nat ?n - 1) = of_nat (?n - 1)" using that mx by (intro rnd_nat_pred) simp_all
    moreover have "?n - 1 = max_tokens rl - count_list (ks @ [key]) key" by simp
    ultimately show ?thesis by (simp only:)
  qed
  let ?b = "\<lparr>tokens = of_nat ?n, last_refill = now\<rparr> :: token_bucket"
  have c: "(if 1 \<le> tokens ?b then ?b\<lparr>tokens := rnd (tokens ?b - 1)\<rparr> else ?b) = ?c"
  proof (cases "count_list ks key < max_tokens rl")
    case True
    then show ?thesis using dec [OF True] by (simp add: Suc_le_eq)
  qed simp
  have "rl_check rnd pick now key rl = (1 \<le> tokens ?b, ?r)"
    unfolding rl_check_def Let_def r1_def [symmetric] room r3_def [symmetric] b_def [symmetric] re c ..
  then have "rl_check rnd pick now key rl = (count_list ks key < max_tokens rl, ?r)"
    using ok by (simp del: count_list_append)
  moreover have "burst_state now (ks @ [key]) ?r"
  proof -
    have f: "map fst (buckets ?r) = map fst (buckets r3)" by (simp add: map_fst_update del: map_map)
    have "fst ` set (buckets ?r) = set (map fst (buckets ?r))" by (simp only: set_map)
    then have k: "fst ` set (buckets ?r) = set (ks @ [key])" using keys unfolding f by simp
    have "tokens b' = of_nat (max_tokens ?r - count_list (ks @ [key]) k') \<and> last_refill b' = now"
      if "(k', b') \<in> set (buckets ?r)" for k' b'
    proof (cases "k' = key")
      case True
      then have "b' = ?c" using that by (auto split: if_splits)
      then show ?thesis using True lim by (simp add: same_limits_def)
    next
      case False
      then have "(k', b') \<in> set (buckets r3)" using that by (auto split: if_splits)
      then show ?thesis using all lim False by (auto simp: same_limits_def)
    qed
    then have "\<forall>(k', b') \<in> set (buckets ?r).
        tokens b' = of_nat (max_tokens ?r - count_list (ks @ [key]) k') \<and> last_refill b' = now" by blast
    moreover have "distinct (map fst (buckets ?r))" unfolding f by (rule dist)
    ultimately show ?thesis using k unfolding burst_state_def by (intro conjI)
  qed
  moreover have "same_limits ?r rl" using lim by (simp add: same_limits_def)
  ultimately show ?thesis by (rule that)
qed

lemma burst_run:
  assumes "burst_state now ks rl" and "card (set (ks @ qs)) \<le> max_buckets rl"
    and "0 < idle_timeout rl" and "max_tokens rl \<le> 2 ^ 53"
  shows "fst (run_checks rnd pick (map (\<lambda>k. (k, now)) qs) rl) =
    map (\<lambda>i. count_list (ks @ take i qs) (qs ! i) < max_tokens rl) [0..<length qs]"
  using assms
proof (induction qs arbitrary: ks rl)
  case (Cons q qs)
  have "card (insert q (set ks)) \<le> max_buckets rl"
    using Cons.prems(2) card_mono [of "set (ks @ q # qs)" "insert q (set ks)"] by (auto intro: le_trans)
  from burst_check [OF Cons.prems(1) this Cons.prems(3,4), of pick] obtain rl' where
    rl': "rl_check rnd pick now q rl = (count_list ks q < max_tokens rl, rl')" "burst_state now (ks @ [q]) rl'"
    "same_limits rl' rl" .
  have "fst (run_checks rnd pick (map (\<lambda>k. (k, now)) qs) rl') =
      map (\<lambda>i. count_list ((ks @ [q]) @ take i qs) (qs ! i) < max_tokens rl') [0..<length qs]"
    using Cons.prems rl'(3) by (intro Cons.IH [OF rl'(2)]) (simp_all add: same_limits_def)
  then show ?case using rl'(1,3)
    by (auto simp: map_upt_Suc same_limits_def split: prod.splits simp del: upt_Suc count_list.simps)
qed simp

end

text \<open>C34. The burst capacity is exact and keys do not share tokens: of requests checked at one instant on
  a fresh limiter, request \<open>i\<close> is let through if and only if fewer than \<open>max_tokens\<close> of the requests
  before it have the same key, whatever the finite refill rate, the rounding of \<open>f64\<close> and the order of
  the map, as long as there are no more distinct keys than buckets, the capacity is a \<open>u32\<close> and the idle
  timeout is not zero (with a timeout of zero every 256th check would forget all buckets).\<close>

theorem burst_exact:
  assumes "card (set ks) \<le> max cap 1" and "0 < idle" and "mx < 2 ^ 32"
  shows "fst (run_checks round_f64 pick (map (\<lambda>k. (k, now)) ks) (with_limits mx rate idle cap)) =
    map (\<lambda>i. count_list (take i ks) (ks ! i) < mx) [0..<length ks]"
  using f64.burst_run [of now "[]" "with_limits mx rate idle cap" ks pick] assms
  by (simp add: burst_state_def with_limits_def)

theorem burst_exact_witness:
  "fst (run_checks round_f64 length (map (\<lambda>k. (k, 9)) [''a'', ''b'', ''a'', ''a'', ''b'']) (with_limits 2 (1 / 3) 300 2)) =
     [True, True, True, False, True]"
proof -
  have "card (set [''a'', ''b'', ''a'', ''a'', ''b'']) \<le> max 2 1" by (simp add: card_insert_if)
  from burst_exact [OF this, of 300 2 length 9 "1 / 3"] show ?thesis by (simp add: upt_rec [of _ "Suc _"])
qed

end
