(* ===== verification/Server.thy ===== *)
theory Server
  imports Middleware
begin

section \<open>The server (oxihttp-server lib.rs, tower_compat.rs, tower_middleware.rs, tls.rs)\<close>

text \<open>
  One request through the middleware and the service, the stack of tower layers, the builder, the
  construction of TLS configurations and the accept loop. A service is a function of its state and a
  request. \<open>tokio::time::timeout\<close> is \<open>elapses\<close>: \<open>Some s\<close> when the timer fires before the service
  answers, with the state the cancelled call leaves. Reading the requests of a connection is hyper's.
\<close>

subsection \<open>One request\<close>

type_synonym ('s, 'x, 'b) service = "'s \<Rightarrow> ('x, 'b) http_request \<Rightarrow> bytes response oxi_result \<times> 's"

type_synonym ('s, 'x, 'b) timer = "'s \<Rightarrow> nat \<Rightarrow> ('x, 'b) http_request \<Rightarrow> 's option"

definition call_service ::
  "('s, 'x, 'b) service \<Rightarrow> ('s, 'x, 'b) timer \<Rightarrow> timeout_config option \<Rightarrow> 's \<Rightarrow> ('x, 'b) http_request \<Rightarrow>
     bytes response oxi_result \<times> 's" where
  "call_service svc elapses tmo s req =
     (case tmo of
        Some t \<Rightarrow>
          (case elapses s (duration t) req of
             Some s' \<Rightarrow> (Inr timeout_response, s') | None \<Rightarrow> svc s req)
      | None \<Rightarrow> svc s req)"

definition error_response :: "oxi_error \<Rightarrow> bytes response" where
  "error_response e = \<lparr>resp_status = 500, resp_headers = [], resp_body = as_bytes (error_to_string e)\<rparr>"

text \<open>The answer with the pipeline (its rate limiter) and the service's state after it; \<open>None\<close> is a
  panic of a debug assertion.\<close>

definition serve_request ::
  "world \<Rightarrow> (body_limit_config \<Rightarrow> 'x \<Rightarrow> 'x) \<Rightarrow> ('s, 'x, 'b) service \<Rightarrow> ('s, 'x, 'b) timer \<Rightarrow>
     ('x, 'b) http_request \<Rightarrow> pipeline \<Rightarrow> 's \<Rightarrow> (bytes response oxi_result \<times> pipeline \<times> 's) option" where
  "serve_request w put svc elapses req p s =
     (case pre_handle w req p of
        None \<Rightarrow> None
      | Some (Some resp, p') \<Rightarrow> Some (Inr resp, p', s)
      | Some (None, p') \<Rightarrow>
          (let org = rq_headers req ''origin'';
               (r, s') = call_service svc elapses (p_timeout p') s (inject_body_limit put p' req);
               resp = (case r of Inr resp \<Rightarrow> resp | Inl e \<Rightarrow> error_response e)
           in map_option (\<lambda>resp. (Inr resp, p', s')) (post_handle w p' org resp)))"

definition router_service :: "uri_parser \<Rightarrow> (('x, 'b) handler, 'x) router \<Rightarrow> ('s, 'x, 'b) service" where
  "router_service up r s req = (dispatch up r req, s)"

definition dispatch_with_middleware ::
  "world \<Rightarrow> (body_limit_config \<Rightarrow> 'x \<Rightarrow> 'x) \<Rightarrow> uri_parser \<Rightarrow> (('x, 'b) handler, 'x) router \<Rightarrow> ('s, 'x, 'b) timer \<Rightarrow>
     ('x, 'b) http_request \<Rightarrow> pipeline \<Rightarrow> 's \<Rightarrow> (bytes response oxi_result \<times> pipeline \<times> 's) option" where
  "dispatch_with_middleware w put up r elapses req p s =
     serve_request w put (router_service up r) elapses req p s"

subsection \<open>Tower layers\<close>

type_synonym ('s, 'x, 'b) layer = "('s, 'x, 'b) service \<Rightarrow> ('s, 'x, 'b) service"

definition build_layered_service ::
  "uri_parser \<Rightarrow> (('x, 'b) handler, 'x) router \<Rightarrow> ('s, 'x, 'b) layer list \<Rightarrow> ('s, 'x, 'b) service" where
  "build_layered_service up r layers = fold (\<lambda>layer svc. layer svc) (rev layers) (router_service up r)"

text \<open>What the concrete layers keep outside: the lines written to stderr and the request counter, a
  \<open>u64\<close> that wraps. The printed milliseconds are a parameter.\<close>

record tower_state =
  log_lines :: "string list"
  request_counter :: "64 word"

definition log_line :: "string \<Rightarrow> string \<Rightarrow> string \<Rightarrow> bytes response oxi_result \<Rightarrow> string" where
  "log_line mthd path ms r =
     (case r of
        Inr resp \<Rightarrow> ''[oxihttp] '' @ mthd @ '' '' @ path @ '' '' @ show_nat (resp_status resp) @ '' '' @ ms @ ''ms''
      | Inl e \<Rightarrow> ''[oxihttp] '' @ mthd @ '' '' @ path @ '' ERROR '' @ ms @ ''ms: '' @ error_to_string e)"

definition logging_layer :: "string \<Rightarrow> (tower_state, 'x, 'b) layer" where
  "logging_layer ms svc s req =
     (let (r, s') = svc s req in (r, s'\<lparr>log_lines := log_lines s' @ [log_line (rq_method req) (rq_path req) ms r]\<rparr>))"

definition request_id :: "64 word \<Rightarrow> string" where
  "request_id n = pad_left 16 (show_base 16 (unat n))"

definition request_id_layer :: "http_lib \<Rightarrow> (tower_state, 'x, 'b) layer" where
  "request_id_layer lib svc s req =
     (let id_str = request_id (request_counter s);
          s1 = s\<lparr>request_counter := request_counter s + 1\<rparr>;
          ok = (hv_error lib id_str = None);
          req' = (if ok then req\<lparr>rq_headers := (rq_headers req)(''x-request-id'' \<mapsto> id_str)\<rparr> else req);
          (r, s2) = svc s1 req'
      in (map_sum id (\<lambda>resp. if ok then resp\<lparr>resp_headers := hm_insert ''x-request-id'' id_str (resp_headers resp)\<rparr>
                             else resp) r, s2))"

subsection \<open>The builder\<close>

record http2_settings =
  initial_stream_window_size :: "nat option"
  initial_connection_window_size :: "nat option"
  adaptive_window :: "bool option"
  max_concurrent_streams :: "nat option"
  max_frame_size :: "nat option"
  keep_alive_interval :: "nat option"
  keep_alive_timeout :: "nat option"

text \<open>The calls made on hyper's HTTP/2 builder.\<close>

datatype h2_call = StreamWindow nat | ConnectionWindow nat | AdaptiveWindow bool | ConcurrentStreams nat
  | FrameSize nat | KeepAliveInterval nat | KeepAliveTimeout nat

definition opt_call :: "('a \<Rightarrow> h2_call) \<Rightarrow> 'a option \<Rightarrow> h2_call list" where
  "opt_call f v = (case v of Some x \<Rightarrow> [f x] | None \<Rightarrow> [])"

definition configure_auto_builder :: "http2_settings \<Rightarrow> h2_call list" where
  "configure_auto_builder h2 =
     opt_call StreamWindow (initial_stream_window_size h2) @
     opt_call ConnectionWindow (initial_connection_window_size h2) @
     opt_call AdaptiveWindow (adaptive_window h2) @
     opt_call ConcurrentStreams (max_concurrent_streams h2) @
     opt_call FrameSize (max_frame_size h2) @
     opt_call KeepAliveInterval (keep_alive_interval h2) @
     opt_call KeepAliveTimeout (keep_alive_timeout h2)"

record ('t, 'l, 'g) server_builder =
  sb_addr :: string
  sb_middleware :: pipeline
  sb_graceful_shutdown :: "'g option"
  sb_max_connections :: "nat option"
  sb_tcp_nodelay :: "bool option"
  sb_tcp_keepalive :: "nat option"
  sb_http2_settings :: "http2_settings option"
  sb_tls :: "'t option"
  sb_alpn_protocols :: "bytes list"
  sb_tower_layers :: "'l list"


definition sb_with_cors :: "cors_config \<Rightarrow> ('t, 'l, 'g) server_builder \<Rightarrow> ('t, 'l, 'g) server_builder" where
  "sb_with_cors c b = b\<lparr>sb_middleware := p_with_cors c (sb_middleware b)\<rparr>"

definition sb_with_body_limit :: "nat \<Rightarrow> ('t, 'l, 'g) server_builder \<Rightarrow> ('t, 'l, 'g) server_builder" where
  "sb_with_body_limit n b = b\<lparr>sb_middleware := p_with_body_limit n (sb_middleware b)\<rparr>"

definition sb_with_rate_limiter :: "rate_limiter \<Rightarrow> ('t, 'l, 'g) server_builder \<Rightarrow> ('t, 'l, 'g) server_builder" where
  "sb_with_rate_limiter rl b = b\<lparr>sb_middleware := p_with_rate_limiter rl (sb_middleware b)\<rparr>"

definition sb_with_timeout :: "nat \<Rightarrow> ('t, 'l, 'g) server_builder \<Rightarrow> ('t, 'l, 'g) server_builder" where
  "sb_with_timeout d b = b\<lparr>sb_middleware := p_with_timeout d (sb_middleware b)\<rparr>"

definition sb_with_layer :: "'l \<Rightarrow> ('t, 'l, 'g) server_builder \<Rightarrow> ('t, 'l, 'g) server_builder" where
  "sb_with_layer l b = b\<lparr>sb_tower_layers := sb_tower_layers b @ [l]\<rparr>"


definition sb_with_tcp_nodelay :: "bool \<Rightarrow> ('t, 'l, 'g) server_builder \<Rightarrow> ('t, 'l, 'g) server_builder" where
  "sb_with_tcp_nodelay v b = b\<lparr>sb_tcp_nodelay := Some v\<rparr>"

definition sb_with_tcp_keepalive :: "nat \<Rightarrow> ('t, 'l, 'g) server_builder \<Rightarrow> ('t, 'l, 'g) server_builder" where
  "sb_with_tcp_keepalive d b = b\<lparr>sb_tcp_keepalive := Some d\<rparr>"

definition sb_with_http2_settings ::
  "http2_settings \<Rightarrow> ('t, 'l, 'g) server_builder \<Rightarrow> ('t, 'l, 'g) server_builder" where
  "sb_with_http2_settings h2 b = b\<lparr>sb_http2_settings := Some h2\<rparr>"


definition sb_with_alpn :: "bytes list \<Rightarrow> ('t, 'l, 'g) server_builder \<Rightarrow> ('t, 'l, 'g) server_builder" where
  "sb_with_alpn ps b = b\<lparr>sb_alpn_protocols := ps\<rparr>"

definition sb_with_tls :: "'t \<Rightarrow> ('t, 'l, 'g) server_builder \<Rightarrow> ('t, 'l, 'g) server_builder" where
  "sb_with_tls t b = b\<lparr>sb_tls := Some t\<rparr>"

subsection \<open>TLS configurations\<close>

text \<open>What is used of rustls, rustls_pemfile and oxitls: the PEM readers, the root store and the final
  build. \<open>tls_plan\<close> is the builder as it is handed to \<open>build\<close>.\<close>

record ('cert, 'key) tls_plan =
  tp_certs :: "'cert list"
  tp_key :: 'key
  tp_alpn :: "bytes list option"
  tp_client_roots :: "'cert list option"
  tp_key_log :: "string option"

record ('cert, 'key, 'conf) tls_lib =
  pem_certs :: "bytes \<Rightarrow> string + 'cert list"
  pem_key :: "bytes \<Rightarrow> string + 'key option"
  root_error :: "'cert \<Rightarrow> string option"
  tls_build :: "('cert, 'key) tls_plan \<Rightarrow> string + 'conf"

definition plain_plan :: "'cert list \<Rightarrow> 'key \<Rightarrow> ('cert, 'key) tls_plan" where
  "plain_plan certs key = \<lparr>tp_certs = certs, tp_key = key, tp_alpn = None, tp_client_roots = None, tp_key_log = None\<rparr>"

definition from_der_with_alpn ::
  "('cert, 'key, 'conf) tls_lib \<Rightarrow> 'cert list \<Rightarrow> 'key \<Rightarrow> bytes list \<Rightarrow> 'conf oxi_result" where
  "from_der_with_alpn tls certs key alpn =
     (let plan = plain_plan certs key;
          plan' = (if alpn \<noteq> [] then plan\<lparr>tp_alpn := Some alpn\<rparr> else plan)
      in map_sum TlsErr id (tls_build tls plan'))"

definition from_der :: "('cert, 'key, 'conf) tls_lib \<Rightarrow> 'cert list \<Rightarrow> 'key \<Rightarrow> 'conf oxi_result" where
  "from_der tls certs key = from_der_with_alpn tls certs key []"

text \<open>The certificate chain and the key of a PEM pair; \<open>who\<close> is what distinguishes the messages of the
  constructors.\<close>

definition pem_identity ::
  "('cert, 'key, 'conf) tls_lib \<Rightarrow> string \<Rightarrow> bytes \<Rightarrow> bytes \<Rightarrow> ('cert list \<times> 'key) oxi_result" where
  "pem_identity tls who cert_pem key_pem =
     rbind (map_sum (\<lambda>e. TlsErr (who @ ''cert PEM parse error: '' @ e)) id (pem_certs tls cert_pem)) (\<lambda>certs.
     if certs = [] then Inl (TlsErr (''no '' @ who @ ''certificates found in PEM''))
     else rbind (map_sum (\<lambda>e. TlsErr (who @ ''key PEM parse error: '' @ e)) id (pem_key tls key_pem)) (\<lambda>key.
       case key of
         None \<Rightarrow> Inl (TlsErr (''no private key found in '' @ who @ ''PEM''))
       | Some k \<Rightarrow> Inr (certs, k)))"

definition from_pem_with_alpn ::
  "('cert, 'key, 'conf) tls_lib \<Rightarrow> bytes \<Rightarrow> bytes \<Rightarrow> bytes list \<Rightarrow> 'conf oxi_result" where
  "from_pem_with_alpn tls cert_pem key_pem alpn =
     rbind (pem_identity tls '''' cert_pem key_pem) (\<lambda>(certs, key). from_der_with_alpn tls certs key alpn)"

definition from_pem :: "('cert, 'key, 'conf) tls_lib \<Rightarrow> bytes \<Rightarrow> bytes \<Rightarrow> 'conf oxi_result" where
  "from_pem tls cert_pem key_pem = from_pem_with_alpn tls cert_pem key_pem []"

definition with_client_auth ::
  "('cert, 'key, 'conf) tls_lib \<Rightarrow> bytes \<Rightarrow> bytes \<Rightarrow> bytes \<Rightarrow> 'conf oxi_result" where
  "with_client_auth tls cert_pem key_pem client_ca_pem =
     rbind (pem_identity tls ''server '' cert_pem key_pem) (\<lambda>(certs, key).
     rbind (map_sum (\<lambda>e. TlsErr (''client CA PEM parse error: '' @ e)) id (pem_certs tls client_ca_pem)) (\<lambda>cas.
     if cas = [] then Inl (TlsErr ''no CA certificates found in client_ca_pem'')
     else (case List.map_filter (root_error tls) cas of
         e # _ \<Rightarrow> Inl (TlsErr (''failed to add CA to root store: '' @ e))
       | [] \<Rightarrow> map_sum (\<lambda>e. TlsErr (''mTLS ServerConfig build error: '' @ e)) id
                 (tls_build tls ((plain_plan certs key)\<lparr>tp_client_roots := Some cas\<rparr>)))))"

definition h2_alpn :: "bytes list" where
  "h2_alpn = [as_bytes ''h2'', as_bytes ''http/1.1'']"

definition http2_defaults :: "('cert, 'key, 'conf) tls_lib \<Rightarrow> bytes \<Rightarrow> bytes \<Rightarrow> 'conf oxi_result" where
  "http2_defaults tls cert_pem key_pem = from_pem_with_alpn tls cert_pem key_pem h2_alpn"

definition http2_defaults_from_der :: "('cert, 'key, 'conf) tls_lib \<Rightarrow> 'cert list \<Rightarrow> 'key \<Rightarrow> 'conf oxi_result" where
  "http2_defaults_from_der tls certs key = from_der_with_alpn tls certs key h2_alpn"

definition from_der_with_key_log ::
  "('cert, 'key, 'conf) tls_lib \<Rightarrow> 'cert list \<Rightarrow> 'key \<Rightarrow> string \<Rightarrow> 'conf oxi_result" where
  "from_der_with_key_log tls certs key path =
     map_sum TlsErr id (tls_build tls ((plain_plan certs key)\<lparr>tp_key_log := Some path\<rparr>))"

definition from_pem_with_key_log ::
  "('cert, 'key, 'conf) tls_lib \<Rightarrow> bytes \<Rightarrow> bytes \<Rightarrow> string \<Rightarrow> 'conf oxi_result" where
  "from_pem_with_key_log tls cert_pem key_pem path =
     rbind (pem_identity tls '''' cert_pem key_pem) (\<lambda>(certs, key).
       map_sum TlsErr id (tls_build tls ((plain_plan certs key)\<lparr>tp_key_log := Some path\<rparr>)))"

definition sb_with_tls_from_pem ::
  "('cert, 'key, 'conf) tls_lib \<Rightarrow> bytes \<Rightarrow> bytes \<Rightarrow> ('conf, 'l, 'g) server_builder \<Rightarrow>
     ('conf, 'l, 'g) server_builder oxi_result" where
  "sb_with_tls_from_pem tls cert_pem key_pem b =
     map_sum id (\<lambda>t. b\<lparr>sb_tls := Some t\<rparr>) (from_pem_with_alpn tls cert_pem key_pem (sb_alpn_protocols b))"

definition sb_with_tls_from_der ::
  "('cert, 'key, 'conf) tls_lib \<Rightarrow> 'cert list \<Rightarrow> 'key \<Rightarrow> ('conf, 'l, 'g) server_builder \<Rightarrow>
     ('conf, 'l, 'g) server_builder oxi_result" where
  "sb_with_tls_from_der tls certs key b =
     map_sum id (\<lambda>t. b\<lparr>sb_tls := Some t\<rparr>) (from_der_with_alpn tls certs key (sb_alpn_protocols b))"

subsection \<open>The accept loop\<close>

text \<open>The running server: the permits left in the semaphore (\<open>None\<close> without a limit), the spawned
  connection tasks, each with whether it owns a permit, the connections dropped for want of one, whether
  a shutdown signal is awaited, and whether \<open>run_server\<close> has returned. The accept loop is a task of its
  own: it never ends by itself, and the select of \<open>run_server\<close> only drops its \<open>JoinHandle\<close>, which in
  tokio detaches the task. \<open>None\<close> in \<open>run_server\<close> is the panic of \<open>Semaphore::new\<close> above
  \<open>MAX_PERMITS\<close>.\<close>

record run_state =
  free_permits :: "nat option"
  conn_tasks :: "bool list"
  refused_conns :: nat
  awaits_shutdown :: bool
  run_returned :: bool




text \<open>A connection is accepted: \<open>try_acquire_owned\<close> takes a permit or the connection is dropped; the
  permit moves into the spawned task.\<close>

definition accept_incoming :: "run_state \<Rightarrow> run_state" where
  "accept_incoming s =
     (case free_permits s of
        None \<Rightarrow> s\<lparr>conn_tasks := conn_tasks s @ [False]\<rparr>
      | Some 0 \<Rightarrow> s\<lparr>refused_conns := refused_conns s + 1\<rparr>
      | Some (Suc n) \<Rightarrow> s\<lparr>free_permits := Some n, conn_tasks := conn_tasks s @ [True]\<rparr>)"

text \<open>The end of a task, after a failed handshake, at the end of the connection (which is handed on when it
  is upgraded) or in a panic: \<open>drop(permit)\<close> gives back the permit that this task owns.\<close>

definition drop_task :: "nat \<Rightarrow> run_state \<Rightarrow> run_state" where
  "drop_task i s =
     s\<lparr>conn_tasks := take i (conn_tasks s) @ drop (Suc i) (conn_tasks s),
       free_permits := (if conn_tasks s ! i then map_option Suc (free_permits s) else free_permits s)\<rparr>"

text \<open>The select at the end of \<open>run_server\<close>.\<close>

definition shutdown_select :: "run_state \<Rightarrow> run_state option" where
  "shutdown_select s = (if awaits_shutdown s \<and> \<not> run_returned s then Some (s\<lparr>run_returned := True\<rparr>) else None)"

datatype server_event = AcceptError | Incoming | ConnectionEnds nat | ShutdownSignal

fun server_step :: "server_event \<Rightarrow> run_state \<Rightarrow> run_state option" where
  "server_step AcceptError s = Some s"
| "server_step Incoming s = Some (accept_incoming s)"
| "server_step (ConnectionEnds i) s = (if i < length (conn_tasks s) then Some (drop_task i s) else None)"
| "server_step ShutdownSignal s = shutdown_select s"

inductive server_run :: "run_state \<Rightarrow> server_event list \<Rightarrow> run_state \<Rightarrow> bool" for s0 :: run_state where
  start: "server_run s0 [] s0"
| step: "server_run s0 es s \<Longrightarrow> server_step e s = Some s' \<Longrightarrow> server_run s0 (es @ [e]) s'"

inductive_cases server_run_snocE: "server_run s0 (es @ [e]) s'"

code_pred server_run .

subsection \<open>One request: properties\<close>

lemma apply_headers_release: "\<exists>h'. apply_headers lib False c org h = Some h'"
  by (simp add: apply_headers_def Let_def split: option.splits)

lemma post_handle_release:
  assumes "\<not> w_dbg w"
  shows "\<exists>resp'. post_handle w p org resp = Some resp' \<and> resp_status resp' = resp_status resp \<and>
    resp_body resp' = resp_body resp \<and> (p_cors p = None \<longrightarrow> resp' = resp)"
proof (cases "p_cors p")
  case (Some c)
  moreover obtain h' where "apply_headers (w_lib w) False c org (resp_headers resp) = Some h'"
    using apply_headers_release by blast
  ultimately show ?thesis using assms by (simp add: post_handle_def)
qed (simp add: post_handle_def)

lemma preflight_release:
  assumes "\<not> w_dbg w"
  shows "\<exists>r. preflight_response (w_lib w) (w_dbg w) c org = Some r \<and> resp_status r = 204 \<and> resp_body r = []"
  using assms apply_headers_release [of "w_lib w" c org "[]"] by (auto simp: preflight_response_def)

lemma limit_check_other:
  "limit_check w req p = (ok, p') \<Longrightarrow>
     p_cors p' = p_cors p \<and> p_body_limit p' = p_body_limit p \<and> p_timeout p' = p_timeout p"
  by (auto simp: limit_check_def Let_def split: option.splits prod.splits)

text \<open>The abstract specification: the answer before CORS and the service's state. The guards come in this
  order: preflight, rate limit, declared length, timeout, the service.\<close>

definition answer_spec ::
  "world \<Rightarrow> (body_limit_config \<Rightarrow> 'x \<Rightarrow> 'x) \<Rightarrow> ('s, 'x, 'b) service \<Rightarrow> ('s, 'x, 'b) timer \<Rightarrow>
     ('x, 'b) http_request \<Rightarrow> pipeline \<Rightarrow> 's \<Rightarrow> bytes response \<times> 's" where
  "answer_spec w put svc elapses req p s =
     (let declared = Option.bind (rq_headers req ''content-length'') parse_u64;
          limit = map_option max_bytes (p_body_limit p);
          plain = (\<lambda>code text. \<lparr>resp_status = code, resp_headers = [], resp_body = as_bytes text\<rparr>) in
      if rq_method req = ''OPTIONS'' \<and> p_cors p \<noteq> None then (plain 204 '''', s)
      else if \<not> fst (limit_check w req p) then (plain 429 ''Too Many Requests'', s)
      else if declared \<noteq> None \<and> limit \<noteq> None \<and> the limit < the declared then
        (plain 413 (''body error: request body too large: '' @ show_nat (the declared) @ '' bytes exceeds limit of '' @
                show_nat (the limit) @ '' bytes''), s)
      else
        (let req' = inject_body_limit put p req in
         case Option.bind (map_option duration (p_timeout p)) (\<lambda>d. elapses s d req') of
           Some s' \<Rightarrow> (plain 408 ''Request Timeout'', s')
         | None \<Rightarrow>
             (case svc s req' of
                (Inr resp, s') \<Rightarrow> (resp, s')
              | (Inl e, s') \<Rightarrow> (plain 500 (error_to_string e), s'))))"

lemma inject_body_limit_cong:
  "p_body_limit p' = p_body_limit p \<Longrightarrow> inject_body_limit put p' req = inject_body_limit put p req"
  by (simp add: inject_body_limit_def)

lemma length_check_spec:
  "length_check p req =
     (let declared = Option.bind (rq_headers req ''content-length'') parse_u64;
          limit = map_option max_bytes (p_body_limit p) in
      if declared \<noteq> None \<and> limit \<noteq> None \<and> the limit < the declared then
        Some \<lparr>resp_status = 413, resp_headers = [],
              resp_body = as_bytes (''body error: request body too large: '' @ show_nat (the declared) @
                '' bytes exceeds limit of '' @ show_nat (the limit) @ '' bytes'')\<rparr>
      else None)"
  by (auto simp: length_check_def check_content_length_def Let_def split: option.splits sum.splits)

lemma call_service_spec:
  "call_service svc elapses tmo s req =
     (case Option.bind (map_option duration tmo) (\<lambda>d. elapses s d req) of
        Some s' \<Rightarrow> (Inr timeout_response, s') | None \<Rightarrow> svc s req)"
  by (simp add: call_service_def split: option.splits)

text \<open>C35. Every request is answered, and with the right answer: in a build without debug assertions, and for
  a service that itself returns (a handler that panics or never ends is outside the model),
  \<open>serve_request\<close> does not panic and never returns an error to hyper. The state of the service and the
  status and body of the answer are those of the specification: a preflight is answered with 204, a
  request over the rate with 429, a declared length over the limit with 413 (the service is not called in
  these cases), a timeout with 408, an error of the handler with 500 and its text, and any other request
  with the handler's own status and body. Without CORS also the headers are: the handler's response is
  returned unchanged, and the server's own answers have no header.\<close>

theorem serve_answers:
  assumes "\<not> w_dbg w"
  shows "\<exists>resp p' s' plain. serve_request w put svc elapses req p s = Some (Inr resp, p', s')
    \<and> answer_spec w put svc elapses req p s = (plain, s')
    \<and> resp_status resp = resp_status plain \<and> resp_body resp = resp_body plain
    \<and> (p_cors p = None \<longrightarrow> resp = plain)"
proof (cases "rq_method req = ''OPTIONS'' \<and> p_cors p \<noteq> None")
  case True
  then obtain c where "p_cors p = Some c" by auto
  with True preflight_release [OF assms, of c "rq_headers req ''origin''"] show ?thesis
    by (auto simp: serve_request_def pre_handle_def answer_spec_def Let_def)
next
  case False
  then have no_pre: "(if rq_method req = ''OPTIONS'' then p_cors p else None) = None" by auto
  obtain ok p' where lc: "limit_check w req p = (ok, p')" by fastforce
  note keep = limit_check_other [OF lc]
  show ?thesis
  proof (cases "ok \<and> length_check p' req = None")
    case ok: True
    have pre: "pre_handle w req p = Some (None, p')" unfolding pre_handle_def no_pre lc using ok by simp
    obtain r s' where call: "call_service svc elapses (p_timeout p') s (inject_body_limit put p' req) = (r, s')"
      by fastforce
    define resp where "resp = (case r of Inr resp \<Rightarrow> resp | Inl e \<Rightarrow> error_response e)"
    obtain resp' where post: "post_handle w p' (rq_headers req ''origin'') resp = Some resp'"
      "resp_status resp' = resp_status resp" "resp_body resp' = resp_body resp" "p_cors p' = None \<longrightarrow> resp' = resp"
      using post_handle_release [OF assms] by blast
    have "serve_request w put svc elapses req p s = Some (Inr resp', p', s')"
      by (simp add: serve_request_def pre call post(1) resp_def [symmetric])
    moreover have "answer_spec w put svc elapses req p s = (resp, s')"
      using False ok lc keep call
      unfolding answer_spec_def length_check_spec call_service_spec inject_body_limit_cong [OF conjunct1 [OF conjunct2 [OF keep]]]
      by (auto simp: resp_def Let_def error_response_def timeout_response_def split: option.splits sum.splits if_splits)
    ultimately show ?thesis using post keep by auto
  next
    case bad: False
    then obtain resp where pre: "pre_handle w req p = Some (Some resp, p')"
      and resp: "resp = (if ok then the (length_check p' req) else too_many_requests)"
      unfolding pre_handle_def no_pre lc by (cases ok) auto
    have "serve_request w put svc elapses req p s = Some (Inr resp, p', s)"
      by (simp add: serve_request_def pre)
    moreover have "answer_spec w put svc elapses req p s = (resp, s)"
      using False bad lc keep unfolding answer_spec_def resp length_check_spec
      by (auto simp: Let_def too_many_requests_def split: option.splits if_splits)
    ultimately show ?thesis by blast
  qed
qed

theorem serve_answers_witness:
  "\<exists>resp p' s'. serve_request \<lparr>w_lib = std_lib, w_dbg = False, w_rnd = round_f64, w_pick = length, w_now = 0, w_peer = ''::1''\<rparr>
      (\<lambda>c x. Some c) (\<lambda>s q. (Inl (BodyErr ''no''), s)) (\<lambda>s d q. None)
      \<lparr>rq_method = ''GET'', rq_path = ''/'', rq_query = None, rq_headers = Map.empty, rq_ext = None, rq_body = ()\<rparr>
      pipeline_new (0 :: nat) = Some (Inr resp, p', s') \<and> resp_status resp = 500"
proof -
  let ?w = "\<lparr>w_lib = std_lib, w_dbg = False, w_rnd = round_f64, w_pick = length, w_now = 0, w_peer = ''::1''\<rparr>"
  have "\<not> w_dbg ?w" by simp
  from serve_answers [OF this, of "\<lambda>c x. Some c" "\<lambda>s q. (Inl (BodyErr ''no''), s)" "\<lambda>s d q. None"
      "\<lparr>rq_method = ''GET'', rq_path = ''/'', rq_query = None, rq_headers = Map.empty, rq_ext = None, rq_body = ()\<rparr>"
      pipeline_new "0 :: nat"]
  show ?thesis by (auto simp: answer_spec_def Let_def limit_check_def pipeline_new_def)
qed

text \<open>The typed map of extensions, as far as the server uses it: what was put is what is read.\<close>

locale limit_slot =
  fixes put :: "body_limit_config \<Rightarrow> 'x \<Rightarrow> 'x" and look :: "'x \<Rightarrow> body_limit_config option"
  assumes look_put: "look (put c x) = Some c"
begin

lemma inject_look: "p_body_limit p = Some c \<Longrightarrow> look (rq_ext (inject_body_limit put p req)) = Some c"
  by (simp add: inject_body_limit_def look_put)

lemma serve_uses_limited:
  assumes "p_body_limit p = Some c" and "\<And>s q. look (rq_ext q) = Some c \<Longrightarrow> svc s q = svc' s q"
  shows "serve_request w put svc elapses req p s = serve_request w put svc' elapses req p s"
proof -
  have "call_service svc elapses (p_timeout p') s (inject_body_limit put p' req) =
      call_service svc' elapses (p_timeout p') s (inject_body_limit put p' req)"
    if "pre_handle w req p = Some (None, p')" for p'
  proof -
    obtain ok p'' where l: "limit_check w req p = (ok, p'')" by fastforce
    with that have "p'' = p'" by (auto simp: pre_handle_def split: option.splits)
    with l have "limit_check w req p = (ok, p')" by simp
    then have "p_body_limit p' = Some c" using limit_check_other assms(1) by metis
    from assms(2) [OF inject_look [OF this]] show ?thesis by (simp add: call_service_def split: option.splits)
  qed
  then show ?thesis unfolding serve_request_def by (auto split: option.splits prod.splits)
qed

end

interpretation slot: limit_slot "\<lambda>c (x :: body_limit_config option \<times> nat). (Some c, snd x)" fst
  by unfold_locales simp

text \<open>C36. The body limit holds end to end: with a limit configured, the service sees only requests that
  carry it in their extensions (two services that agree on those give the same answers), and reading
  the body of such a request returns at most that many bytes, also when the length is not declared.\<close>

theorem body_limit_enforced:
  assumes "limit_slot put look" and "p_body_limit p = Some c"
    and "\<And>s q. look (rq_ext q) = Some c \<Longrightarrow> svc s q = svc' s q"
  shows "serve_request w put svc elapses req p s = serve_request w put svc' elapses req p s
    \<and> (\<forall>q nxt collect d. look (rq_ext (inject_body_limit put p q)) = Some c
        \<and> (request_body_bytes nxt collect (map_option max_bytes (look (rq_ext (inject_body_limit put p q)))) (rq_body q) =
            Some (Inr d) \<longrightarrow> length d \<le> max_bytes c))"
proof (intro conjI allI impI)
  show "serve_request w put svc elapses req p s = serve_request w put svc' elapses req p s"
    by (rule limit_slot.serve_uses_limited [OF assms])
  fix q nxt collect d
  show l: "look (rq_ext (inject_body_limit put p q)) = Some c" by (rule limit_slot.inject_look [OF assms(1,2)])
  assume "request_body_bytes nxt collect (map_option max_bytes (look (rq_ext (inject_body_limit put p q)))) (rq_body q) =
    Some (Inr d)"
  then show "length d \<le> max_bytes c"
    using collect_limited_bound [of "too_large_msg (max_bytes c)" nxt "max_bytes c" _ "[]"]
    by (auto simp: l request_body_bytes_def collect_body_limited_def)
qed

theorem body_limit_enforced_witness:
  "serve_request \<lparr>w_lib = std_lib, w_dbg = False, w_rnd = round_f64, w_pick = length, w_now = 0, w_peer = ''::1''\<rparr>
      (\<lambda>c x. (Some c, snd x)) (\<lambda>s q. (if fst (rq_ext q) = None then Inl (BodyErr ''unlimited'') else canned 200 ''ok'', s))
      (\<lambda>s d q. None)
      \<lparr>rq_method = ''POST'', rq_path = ''/'', rq_query = None, rq_headers = Map.empty, rq_ext = (None, 3 :: nat), rq_body = ()\<rparr>
      (p_with_body_limit 5 pipeline_new) () =
    serve_request \<lparr>w_lib = std_lib, w_dbg = False, w_rnd = round_f64, w_pick = length, w_now = 0, w_peer = ''::1''\<rparr>
      (\<lambda>c x. (Some c, snd x)) (\<lambda>s q. (canned 200 ''ok'', s)) (\<lambda>s d q. None)
      \<lparr>rq_method = ''POST'', rq_path = ''/'', rq_query = None, rq_headers = Map.empty, rq_ext = (None, 3 :: nat), rq_body = ()\<rparr>
      (p_with_body_limit 5 pipeline_new) ()"
  by (rule body_limit_enforced [OF slot.limit_slot_axioms, where c = "\<lparr>max_bytes = 5\<rparr>", THEN conjunct1])
    (simp_all add: p_with_body_limit_def body_limit_new_def)

subsection \<open>The accept loop: properties\<close>











subsection \<open>Tower layers: properties\<close>

lemma layered_Cons:
  "build_layered_service up r (l # ls) = l (build_layered_service up r ls)"
  by (simp add: build_layered_service_def)

lemma request_id_length: "length (request_id n) = 16"
proof -
  have "length (show_base 16 (unat n)) \<le> Suc 15"
    using unsigned_less [of n] by (intro length_show_base_le) simp_all
  then show ?thesis by (simp add: request_id_def pad_left_def)
qed

lemma request_id_inj: "request_id m = request_id n \<Longrightarrow> m = n"
proof -
  assume "request_id m = request_id n"
  moreover have "digits_acc 16 0 (request_id k) = Some (unat k)" for k
    by (simp add: request_id_def pad_left_def digits_acc_zeros digits_acc_show_base)
  ultimately show ?thesis by (metis option.inject word_unat_eq_iff)
qed

lemma request_id_visible: "visible (request_id n)"
proof -
  have "is_hex_digit c" if "c \<in> set (request_id n)" for c
  proof -
    have "c = CHR ''0'' \<or> c \<in> set (show_hex (unat n))"
      using that by (auto simp: request_id_def pad_left_def split: if_splits)
    then show ?thesis using show_hex_digits by (auto simp: is_hex_digit_def is_digit_def)
  qed
  then show ?thesis by (fastforce simp: visible_def is_hex_digit_def is_digit_def Let_def)
qed

text \<open>Services that leave the counter alone.\<close>

definition keeps_counter :: "(tower_state, 'x, 'b) service \<Rightarrow> bool" where
  "keeps_counter svc \<longleftrightarrow> (\<forall>s q. request_counter (snd (svc s q)) = request_counter s)"

lemma keeps_counter_router: "keeps_counter (router_service up r)"
  by (simp add: keeps_counter_def router_service_def)

lemma keeps_counter_logging: "keeps_counter svc \<Longrightarrow> keeps_counter (logging_layer ms svc)"
  by (simp add: keeps_counter_def logging_layer_def case_prod_unfold Let_def)

text \<open>\<open>n\<close> requests through a service, one after the other.\<close>

fun serve_all :: "('s, 'x, 'b) service \<Rightarrow> ('x, 'b) http_request list \<Rightarrow> 's \<Rightarrow> bytes response oxi_result list" where
  "serve_all svc [] s = []"
| "serve_all svc (q # qs) s = (let (r, s') = svc s q in r # serve_all svc qs s')"

lemma request_id_layer_eq:
  assumes "header_values lib"
  shows "request_id_layer lib svc s q =
    (let id_str = request_id (request_counter s);
         (r, s') = svc (s\<lparr>request_counter := request_counter s + 1\<rparr>)
           (q\<lparr>rq_headers := (rq_headers q)(''x-request-id'' \<mapsto> id_str)\<rparr>)
     in (map_sum id (\<lambda>resp. resp\<lparr>resp_headers := hm_insert ''x-request-id'' id_str (resp_headers resp)\<rparr>) r, s'))"
  using header_values.visible_ok [OF assms request_id_visible]
  by (simp add: request_id_layer_def Let_def split: prod.splits)

lemma serve_all_ids:
  assumes "header_values lib" and "keeps_counter svc" and "i < length qs"
    and "serve_all (request_id_layer lib svc) qs s ! i = Inr resp"
  shows "hm_get_all ''x-request-id'' (resp_headers resp) = [request_id (request_counter s + of_nat i)]"
  using assms(3,4)
proof (induction qs arbitrary: s i)
  case (Cons q qs)
  define id_str where "id_str = request_id (request_counter s)"
  let ?q = "q\<lparr>rq_headers := (rq_headers q)(''x-request-id'' \<mapsto> id_str)\<rparr>"
  obtain r s' where call: "svc (s\<lparr>request_counter := request_counter s + 1\<rparr>) ?q = (r, s')" by fastforce
  have c: "request_counter s' = request_counter s + 1"
  proof -
    have "request_counter (snd (svc (s\<lparr>request_counter := request_counter s + 1\<rparr>) ?q)) =
        request_counter (s\<lparr>request_counter := request_counter s + 1\<rparr>)"
      using assms(2) unfolding keeps_counter_def by blast
    then show ?thesis by (simp add: call)
  qed
  have e: "request_id_layer lib svc s q =
      (map_sum id (\<lambda>resp. resp\<lparr>resp_headers := hm_insert ''x-request-id'' id_str (resp_headers resp)\<rparr>) r, s')"
    using call by (simp add: request_id_layer_eq [OF assms(1)] Let_def flip: id_str_def)
  show ?case
  proof (cases i)
    case 0
    with Cons.prems(2) e show ?thesis by (cases r) (auto simp: hm_simps id_str_def)
  next
    case (Suc j)
    with Cons.prems e have "j < length qs" "serve_all (request_id_layer lib svc) qs s' ! j = Inr resp" by simp_all
    from Cons.IH [OF this] Suc c show ?thesis by (simp add: add.assoc)
  qed
qed simp

text \<open>C38. Request ids are unique: every response that passes the request-id layer carries exactly one
  \<open>x-request-id\<close>, of 16 characters, and the responses of two different requests among any \<open>2 ^ 64\<close>
  carry different ids, whatever header of that name the handler set, for every inner service that does
  not touch the counter (the router and the logging layer do not).\<close>

theorem request_ids_unique:
  assumes "header_values lib" and "keeps_counter svc" and "i < j" and "j < length qs" and "length qs \<le> 2 ^ 64"
    and "serve_all (request_id_layer lib svc) qs s ! i = Inr r1"
    and "serve_all (request_id_layer lib svc) qs s ! j = Inr r2"
  shows "\<exists>a b. hm_get_all ''x-request-id'' (resp_headers r1) = [a] \<and> hm_get_all ''x-request-id'' (resp_headers r2) = [b]
    \<and> length a = 16 \<and> length b = 16 \<and> a \<noteq> b"
proof -
  have "request_counter s + of_nat i \<noteq> request_counter s + of_nat j"
    using assms(3-5) by (auto simp: word_of_nat_eq_iff take_bit_nat_eq_self_iff take_bit_nat_eq_self)
  then have "request_id (request_counter s + of_nat i) \<noteq> request_id (request_counter s + of_nat j)"
    using request_id_inj by blast
  then show ?thesis
    using serve_all_ids [OF assms(1,2) _ assms(6)] serve_all_ids [OF assms(1,2,4,7)] assms(3,4)
    by (auto simp: request_id_length)
qed

theorem request_ids_unique_witness:
  "\<exists>a b. hm_get_all ''x-request-id'' [(''x-request-id'', request_id 0)] = [a]
    \<and> hm_get_all ''x-request-id'' [(''x-request-id'', request_id 1)] = [b]
    \<and> length a = 16 \<and> length b = 16 \<and> a \<noteq> b"
proof -
  let ?q = "\<lparr>rq_method = ''GET'', rq_path = ''/'', rq_query = None, rq_headers = Map.empty, rq_ext = (), rq_body = ()\<rparr>"
  let ?svc = "(\<lambda>s q. (canned 200 ''ok'', s)) :: (tower_state, unit, unit) service"
  let ?s = "\<lparr>log_lines = [], request_counter = 0\<rparr>"
  have k: "keeps_counter ?svc" by (simp add: keeps_counter_def)
  have r: "serve_all (request_id_layer std_lib ?svc) [?q, ?q] ?s =
      [Inr \<lparr>resp_status = 200, resp_headers = [(''x-request-id'', request_id 0)], resp_body = as_bytes ''ok''\<rparr>,
       Inr \<lparr>resp_status = 200, resp_headers = [(''x-request-id'', request_id 1)], resp_body = as_bytes ''ok''\<rparr>]"
    by (simp add: request_id_layer_eq [OF std.header_values_axioms] Let_def canned_def hm_insert_def hm_remove_def)
  show ?thesis
    using request_ids_unique [OF std.header_values_axioms k, of 0 1 "[?q, ?q]" ?s, unfolded r, OF _ _ _ nth_Cons_0]
    by fastforce
qed

end
