(* ===== verification/Sse.thy ===== *)
theory Sse
  imports Headers
begin

section \<open>Server-sent events (oxihttp-server sse.rs)\<close>

text \<open>
  Events and their encoding, the channel between sender and response, and the task that merges events
  with heartbeats. The reference is a parser of the event-stream format (HTML standard, 9.2.6); the
  main property follows an event from \<open>send\<close> through channel, merge task and response body to that
  parser. Strings are their UTF-8 bytes.
\<close>

subsection \<open>Events\<close>

record sse_event =
  ev_id :: "string option"
  ev_event :: "string option"
  ev_data :: string
  ev_retry :: "nat option"

definition sse_data :: "string \<Rightarrow> sse_event" where
  "sse_data d = \<lparr>ev_id = None, ev_event = None, ev_data = d, ev_retry = None\<rparr>"

definition with_id :: "string \<Rightarrow> sse_event \<Rightarrow> sse_event" where
  "with_id i e = e\<lparr>ev_id := Some i\<rparr>"

definition with_event :: "string \<Rightarrow> sse_event \<Rightarrow> sse_event" where
  "with_event t e = e\<lparr>ev_event := Some t\<rparr>"

definition with_retry :: "nat \<Rightarrow> sse_event \<Rightarrow> sse_event" where
  "with_retry ms e = e\<lparr>ev_retry := Some ms\<rparr>"

abbreviation LF :: char where "LF \<equiv> CHR 0x0A"

abbreviation CR :: char where "CR \<equiv> CHR 0x0D"

text \<open>\<open>str::lines\<close>: the pieces between line feeds, without a carriage return before the feed; an empty
  last piece is no line.\<close>

definition strip_cr :: "string \<Rightarrow> string" where
  "strip_cr s = (if ends_with [CR] s then butlast s else s)"

definition str_lines :: "string \<Rightarrow> string list" where
  "str_lines s =
     (let ps = split_on LF s in map strip_cr (butlast ps) @ (if last ps = '''' then [] else [last ps]))"

definition opt_line :: "string \<Rightarrow> string option \<Rightarrow> string" where
  "opt_line name v = (case v of Some t \<Rightarrow> name @ '': '' @ t @ [LF] | None \<Rightarrow> '''')"

definition encode :: "sse_event \<Rightarrow> string" where
  "encode e =
     opt_line ''id'' (ev_id e) @ opt_line ''event'' (ev_event e) @ opt_line ''retry'' (map_option show_nat (ev_retry e)) @
     concat (map (\<lambda>line. ''data: '' @ line @ [LF]) (str_lines (ev_data e))) @
     (if ev_data e = '''' then ''data: '' @ [LF] else '''') @ [LF]"

subsection \<open>Channel, merge task and response\<close>

definition heartbeat :: string where
  "heartbeat = CHR '':'' # [LF, LF]"

text \<open>The bounded channel of events, the event or heartbeat the merge task holds, the channel of 32
  chunks behind it, the chunks the client has read, and who is gone.\<close>

record sse_state =
  queue :: "sse_event list"
  cap :: nat
  senders_gone :: bool
  rx_gone :: bool
  in_flight :: "string option"
  merged :: "string list"
  client_gone :: bool
  task_done :: bool
  delivered :: "string list"

text \<open>\<open>mpsc::channel(0)\<close> panics.\<close>

definition sse_channel :: "nat \<Rightarrow> sse_state option" where
  "sse_channel buffer =
     (if buffer = 0 then None
      else Some \<lparr>queue = [], cap = buffer, senders_gone = False, rx_gone = False, in_flight = None, merged = [],
                 client_gone = False, task_done = False, delivered = []\<rparr>)"

definition sse_try_send :: "sse_event \<Rightarrow> sse_state \<Rightarrow> unit oxi_result \<times> sse_state" where
  "sse_try_send e s =
     (if rx_gone s \<or> cap s \<le> length (queue s) then (Inl (BodyErr ''SSE channel full or closed''), s)
      else (Inr (), s\<lparr>queue := queue s @ [e]\<rparr>))"

definition sse_send :: "sse_event \<Rightarrow> sse_state \<Rightarrow> unit oxi_result poll \<times> sse_state" where
  "sse_send e s =
     (if rx_gone s then (Ready (Inl (BodyErr ''SSE channel closed'')), s)
      else if cap s \<le> length (queue s) then (Pending, s)
      else (Ready (Inr ()), s\<lparr>queue := queue s @ [e]\<rparr>))"

definition sse_recv :: "sse_state \<Rightarrow> sse_event option poll \<times> sse_state" where
  "sse_recv s =
     (case queue s of e # es \<Rightarrow> (Ready (Some e), s\<lparr>queue := es\<rparr>)
      | [] \<Rightarrow> (if senders_gone s then Ready None else Pending, s))"

datatype sse_label = Send sse_event | SendersDrop | EventBranch | HeartbeatBranch | Push | ClientReads | ClientLeaves

definition MERGED_CAP :: nat where
  "MERGED_CAP = 32"

text \<open>One step of the sender, of the merge task with its \<open>select!\<close>, or of the client. The task takes
  the next event or heartbeat when it holds nothing, and is blocked in \<open>merged_tx.send\<close> otherwise.\<close>

fun sse_step :: "sse_label \<Rightarrow> sse_state \<Rightarrow> sse_state option" where
  "sse_step (Send e) s =
     (if senders_gone s then None
      else (case sse_send e s of (Ready (Inr ()), s') \<Rightarrow> Some s' | _ \<Rightarrow> None))"
| "sse_step SendersDrop s = Some (s\<lparr>senders_gone := True\<rparr>)"
| "sse_step EventBranch s =
     (if task_done s \<or> in_flight s \<noteq> None then None
      else (case sse_recv s of
              (Ready (Some e), s') \<Rightarrow> Some (s'\<lparr>in_flight := Some (encode e)\<rparr>)
            | (Ready None, s') \<Rightarrow> Some (s'\<lparr>task_done := True, rx_gone := True\<rparr>)
            | (Pending, s') \<Rightarrow> None))"
| "sse_step HeartbeatBranch s =
     (if task_done s \<or> in_flight s \<noteq> None then None else Some (s\<lparr>in_flight := Some heartbeat\<rparr>))"
| "sse_step Push s =
     (case in_flight s of None \<Rightarrow> None
      | Some b \<Rightarrow>
          if client_gone s then Some (s\<lparr>in_flight := None, task_done := True, rx_gone := True\<rparr>)
          else if length (merged s) < MERGED_CAP then Some (s\<lparr>in_flight := None, merged := merged s @ [b]\<rparr>)
          else None)"
| "sse_step ClientReads s =
     (if client_gone s then None
      else (case merged s of [] \<Rightarrow> None | b # bs \<Rightarrow> Some (s\<lparr>merged := bs, delivered := delivered s @ [b]\<rparr>)))"
| "sse_step ClientLeaves s = Some (s\<lparr>client_gone := True, merged := []\<rparr>)"

inductive sse_run :: "sse_state \<Rightarrow> sse_label list \<Rightarrow> sse_state \<Rightarrow> bool" for s0 :: sse_state where
  start: "sse_run s0 [] s0"
| step: "sse_run s0 ls s \<Longrightarrow> sse_step l s = Some s' \<Longrightarrow> sse_run s0 (ls @ [l]) s'"

code_pred sse_run .

text \<open>The response body ends when the task has ended and its chunks are read.\<close>

definition stream_ended :: "sse_state \<Rightarrow> bool" where
  "stream_ended s \<longleftrightarrow> task_done s \<and> merged s = []"

definition sse_headers :: header_map where
  "sse_headers = [(''content-type'', ''text/event-stream''), (''cache-control'', ''no-cache''),
     (''connection'', ''keep-alive''), (''x-accel-buffering'', ''no'')]"

text \<open>Without a heartbeat the body is the channel itself.\<close>

definition event_stream_next :: "sse_state \<Rightarrow> string option poll \<times> sse_state" where
  "event_stream_next s =
     (case sse_recv s of
        (Ready (Some e), s') \<Rightarrow> (Ready (Some (encode e)), s')
      | (Ready None, s') \<Rightarrow> (Ready None, s')
      | (Pending, s') \<Rightarrow> (Pending, s'))"

subsection \<open>The reference parser\<close>

record es_block =
  b_id :: "string option"
  b_event :: "string option"
  b_data :: string
  b_retry :: "nat option"

definition empty_block :: es_block where
  "empty_block = \<lparr>b_id = None, b_event = None, b_data = '''', b_retry = None\<rparr>"

fun norm_breaks :: "string \<Rightarrow> string" where
  "norm_breaks [] = []"
| "norm_breaks (c # cs) =
     (if c = CR then (case cs of d # ds \<Rightarrow> if d = LF then norm_breaks cs else LF # norm_breaks cs | [] \<Rightarrow> [LF])
      else c # norm_breaks cs)"

definition es_field :: "string \<Rightarrow> es_block \<Rightarrow> es_block" where
  "es_field l b =
     (let (name, v) = (case split_once CHR '':'' l of
             Some (n, r) \<Rightarrow> (n, if starts_with '' '' r then tl r else r) | None \<Rightarrow> (l, ''''))
      in if name = ''data'' then b\<lparr>b_data := b_data b @ v @ [LF]\<rparr>
         else if name = ''event'' then b\<lparr>b_event := Some v\<rparr>
         else if name = ''id'' then (if CHR 0x00 \<in> set v then b else b\<lparr>b_id := Some v\<rparr>)
         else if name = ''retry'' then
           (if v \<noteq> '''' \<and> list_all is_digit v then b\<lparr>b_retry := digits_acc 10 0 v\<rparr> else b)
         else b)"

fun es_run :: "es_block \<Rightarrow> string list \<Rightarrow> sse_event list" where
  "es_run b [] = []"
| "es_run b (l # ls) =
     (if l = '''' then
        (if b_data b = '''' then es_run empty_block ls
         else \<lparr>ev_id = b_id b, ev_event = b_event b, ev_data = butlast (b_data b), ev_retry = b_retry b\<rparr> # es_run empty_block ls)
      else es_run (es_field l b) ls)"

definition parse_stream :: "string \<Rightarrow> sse_event list" where
  "parse_stream t = es_run empty_block (butlast (split_on LF (norm_breaks t)))"

subsection \<open>The parser reads back what \<open>encode\<close> writes\<close>

text \<open>What the format can carry: no line breaks in id and type, no NUL in the id, no carriage return in
  the data, and data that do not end with a line feed.\<close>

definition no_breaks :: "string \<Rightarrow> bool" where
  "no_breaks s \<longleftrightarrow> LF \<notin> set s \<and> CR \<notin> set s"

definition wf_event :: "sse_event \<Rightarrow> bool" where
  "wf_event e \<longleftrightarrow>
     (\<forall>i. ev_id e = Some i \<longrightarrow> no_breaks i \<and> CHR 0x00 \<notin> set i) \<and>
     (\<forall>t. ev_event e = Some t \<longrightarrow> no_breaks t) \<and>
     CR \<notin> set (ev_data e) \<and> (ev_data e \<noteq> '''' \<longrightarrow> last (ev_data e) \<noteq> LF)"

definition terminated :: "string list \<Rightarrow> string" where
  "terminated ls = concat (map (\<lambda>l. l @ [LF]) ls)"

lemma terminated_append [simp]: "terminated (ls @ ms) = terminated ls @ terminated ms"
  by (simp add: terminated_def)

lemma terminated_Nil [simp]: "terminated [] = ''''"
  by (simp add: terminated_def)

lemma terminated_Cons [simp]: "terminated (l # ls) = l @ LF # terminated ls"
  by (simp add: terminated_def)

lemma split_terminated: "\<forall>l \<in> set ls. LF \<notin> set l \<Longrightarrow> split_on LF (terminated ls @ r) = ls @ split_on LF r"
  by (induction ls) (simp_all add: split_on_append)

lemma norm_breaks_id: "CR \<notin> set t \<Longrightarrow> norm_breaks t = t"
  by (induction t rule: norm_breaks.induct) auto

lemma parse_terminated:
  assumes "\<forall>l \<in> set ls. no_breaks l"
  shows "parse_stream (terminated ls) = es_run empty_block ls"
proof -
  have "CR \<notin> set (terminated ls)" using assms by (auto simp: terminated_def no_breaks_def)
  then show ?thesis
    using split_terminated [of ls "''''"] assms by (simp add: parse_stream_def norm_breaks_id no_breaks_def butlast_append)
qed

definition data_lines :: "string \<Rightarrow> string list" where
  "data_lines d = (if d = '''' then [''''] else split_on LF d)"

definition opt_item :: "string \<Rightarrow> string option \<Rightarrow> string list" where
  "opt_item name v = (case v of Some t \<Rightarrow> [name @ '': '' @ t] | None \<Rightarrow> [])"

definition ev_lines :: "sse_event \<Rightarrow> string list" where
  "ev_lines e =
     opt_item ''id'' (ev_id e) @ opt_item ''event'' (ev_event e) @ opt_item ''retry'' (map_option show_nat (ev_retry e)) @
     map (\<lambda>p. ''data: '' @ p) (data_lines (ev_data e))"

lemma opt_line_item: "opt_line n v = terminated (opt_item n v)"
  by (simp add: opt_line_def opt_item_def split: option.splits)

lemma last_split_on: "d \<noteq> '''' \<Longrightarrow> last d \<noteq> c \<Longrightarrow> last (split_on c d) \<noteq> ''''"
proof (induction c d rule: split_on.induct)
  case (2 c x xs)
  then show ?case
    by (cases "xs = ''''") (auto split: list.splits if_splits)
qed simp

lemma str_lines_split:
  assumes "CR \<notin> set d" and "d \<noteq> ''''" and "last d \<noteq> LF"
  shows "str_lines d = split_on LF d"
proof -
  have "strip_cr p = p" if "p \<in> set (split_on LF d)" for p
    using split_on_set [OF that] assms(1) by (auto simp: strip_cr_def ends_with_iff)
  then have "map strip_cr (butlast (split_on LF d)) = butlast (split_on LF d)"
    by (auto intro: map_idI dest: in_set_butlastD)
  then show ?thesis
    using last_split_on [OF assms(2,3)] by (simp add: str_lines_def append_butlast_last_id)
qed

lemma encode_lines:
  assumes "wf_event e"
  shows "encode e = terminated (ev_lines e @ [''''])"
proof (cases "ev_data e = ''''")
  case True
  then show ?thesis by (simp add: encode_def ev_lines_def opt_line_item data_lines_def str_lines_def)
next
  case False
  then have "str_lines (ev_data e) = split_on LF (ev_data e)"
    using assms by (intro str_lines_split) (simp_all add: wf_event_def)
  then show ?thesis using False
    by (simp add: encode_def ev_lines_def opt_line_item data_lines_def terminated_def comp_def)
qed

lemma ev_lines_no_breaks:
  assumes "wf_event e" and "l \<in> set (ev_lines e)"
  shows "no_breaks l \<and> l \<noteq> ''''"
proof -
  have d: "no_breaks p" if "p \<in> set (data_lines (ev_data e))" for p
    using that split_on_set [of p LF "ev_data e"] split_on_no_sep [of p LF "ev_data e"] assms(1)
    by (auto simp: data_lines_def no_breaks_def wf_event_def split: if_splits)
  have n: "no_breaks (show_nat k)" for k
    using show_nat_digits [of _ k] by (fastforce simp: no_breaks_def is_digit_def)
  show ?thesis using assms d n
    by (auto simp: ev_lines_def opt_item_def wf_event_def no_breaks_def split: option.splits)
qed

lemma es_run_lines: "'''' \<notin> set ls \<Longrightarrow> es_run b (ls @ rest) = es_run (fold es_field ls b) rest"
  by (induction ls arbitrary: b) auto

lemma es_field_data: "es_field (''data: '' @ p) b = b\<lparr>b_data := b_data b @ p @ [LF]\<rparr>"
  by (simp add: es_field_def starts_with_def)

lemma es_field_event: "es_field (''event: '' @ p) b = b\<lparr>b_event := Some p\<rparr>"
  by (simp add: es_field_def starts_with_def)

lemma es_field_id: "CHR 0x00 \<notin> set p \<Longrightarrow> es_field (''id: '' @ p) b = b\<lparr>b_id := Some p\<rparr>"
  by (simp add: es_field_def starts_with_def)

lemma es_field_retry: "es_field (''retry: '' @ show_nat k) b = b\<lparr>b_retry := Some k\<rparr>"
proof -
  have "list_all is_digit (show_nat k)" using show_nat_digits by (auto simp: list_all_iff)
  then show ?thesis by (simp add: es_field_def starts_with_def digits_acc_show_base)
qed

lemma fold_data:
  "fold es_field (map (\<lambda>p. ''data: '' @ p) ps) b = b\<lparr>b_data := b_data b @ terminated ps\<rparr>"
  by (induction ps arbitrary: b) (simp_all add: es_field_data [simplified])

lemma terminated_join: "ps \<noteq> [] \<Longrightarrow> terminated ps = join [LF] ps @ [LF]"
  by (induction "[LF]" ps rule: join.induct) auto

lemma es_run_event:
  assumes "wf_event e"
  shows "es_run empty_block (ev_lines e @ '''' # rest) = e # es_run empty_block rest"
proof -
  have ne: "'''' \<notin> set (ev_lines e)" using ev_lines_no_breaks [OF assms] by blast
  have "join [LF] (data_lines (ev_data e)) = ev_data e"
    by (simp add: data_lines_def roundtrip_simps)
  then have t: "terminated (data_lines (ev_data e)) = ev_data e @ [LF]"
    by (subst terminated_join) (auto simp: data_lines_def)
  have "fold es_field (ev_lines e) empty_block =
      \<lparr>b_id = ev_id e, b_event = ev_event e, b_data = ev_data e @ [LF], b_retry = ev_retry e\<rparr>"
    unfolding ev_lines_def fold_append comp_apply fold_data t
    using assms es_field_id es_field_event es_field_retry
    by (auto simp: opt_item_def empty_block_def wf_event_def split: option.splits)
  then show ?thesis by (simp add: es_run_lines [OF ne])
qed

text \<open>What the body consists of: events and heartbeats.\<close>

definition chunk_of :: "sse_event option \<Rightarrow> string" where
  "chunk_of it = (case it of Some e \<Rightarrow> encode e | None \<Rightarrow> heartbeat)"

lemma parse_chunks:
  assumes "\<forall>e \<in> set (List.map_filter id its). wf_event e"
  shows "parse_stream (concat (map chunk_of its)) = List.map_filter id its"
proof -
  define item_lines where "item_lines it = (case it of Some e \<Rightarrow> ev_lines e @ [''''] | None \<Rightarrow> ['':'', ''''])" for it
  have lines: "concat (map chunk_of its) = terminated (concat (map item_lines its))
      \<and> (\<forall>l \<in> set (concat (map item_lines its)). no_breaks l)
      \<and> es_run empty_block (concat (map item_lines its)) = List.map_filter id its"
    using assms
  proof (induction its)
    case (Cons it its)
    have hb: "chunk_of None = terminated (item_lines None)" "\<forall>l \<in> set (item_lines None). no_breaks l"
      "es_run empty_block (item_lines None @ r) = es_run empty_block r" for r
      by (simp_all add: chunk_of_def heartbeat_def item_lines_def no_breaks_def es_field_def empty_block_def)
    have ev: "chunk_of (Some e) = terminated (item_lines (Some e))" "\<forall>l \<in> set (item_lines (Some e)). no_breaks l"
      "es_run empty_block (item_lines (Some e) @ r) = e # es_run empty_block r" if "wf_event e" for e r
      using ev_lines_no_breaks [OF that] encode_lines [OF that] es_run_event [OF that]
      by (auto simp: chunk_of_def item_lines_def no_breaks_def)
    show ?case
    proof (cases it)
      case None
      with Cons hb show ?thesis by (auto simp: map_filter_simps)
    next
      case (Some e)
      then have "wf_event e" using Cons.prems by (simp add: map_filter_simps)
      with Cons Some ev [OF this] show ?thesis by (auto simp: map_filter_simps)
    qed
  qed (simp add: map_filter_simps)
  then show ?thesis using parse_terminated by metis
qed


subsection \<open>From send to the client\<close>

fun sent :: "sse_label list \<Rightarrow> sse_event list" where
  "sent [] = []"
| "sent (Send e # ls) = e # sent ls"
| "sent (_ # ls) = sent ls"

lemma sent_append [simp]: "sent (ls @ ms) = sent ls @ sent ms"
  by (induction ls rule: sent.induct) auto

definition chunks :: "sse_state \<Rightarrow> string list" where
  "chunks s = delivered s @ merged s @ (case in_flight s of Some b \<Rightarrow> [b] | None \<Rightarrow> [])"

definition sse_inv :: "sse_event list \<Rightarrow> sse_state \<Rightarrow> bool" where
  "sse_inv evs s \<longleftrightarrow>
     (\<exists>its. chunks s = map chunk_of its \<and> List.map_filter id its @ queue s = evs) \<and>
     (task_done s \<longrightarrow> queue s = [] \<and> in_flight s = None) \<and> (task_done s \<longleftrightarrow> rx_gone s) \<and>
     length (queue s) \<le> cap s \<and> length (merged s) \<le> MERGED_CAP \<and> \<not> client_gone s"

lemma sse_invI:
  assumes "chunks s = map chunk_of its" and "List.map_filter id its @ queue s = evs"
    and "task_done s \<longrightarrow> queue s = [] \<and> in_flight s = None" and "task_done s \<longleftrightarrow> rx_gone s"
    and "length (queue s) \<le> cap s" and "length (merged s) \<le> MERGED_CAP" and "\<not> client_gone s"
  shows "sse_inv evs s"
  using assms unfolding sse_inv_def by blast

lemma sse_invE:
  assumes "sse_inv evs s"
  obtains its where "chunks s = map chunk_of its" and "List.map_filter id its @ queue s = evs"
    and "task_done s \<longrightarrow> queue s = [] \<and> in_flight s = None" and "task_done s \<longleftrightarrow> rx_gone s"
    and "length (queue s) \<le> cap s" and "length (merged s) \<le> MERGED_CAP" and "\<not> client_gone s"
  using assms unfolding sse_inv_def by (elim conjE exE) (rule that)

lemma sse_step_Send:
  "sse_step (Send e) s =
     (if senders_gone s \<or> rx_gone s \<or> cap s \<le> length (queue s) then None
      else Some (s\<lparr>queue := queue s @ [e]\<rparr>))"
  by (simp add: sse_send_def split: unit.split)

lemma sse_step_inv:
  assumes "sse_step l s = Some s'" and "sse_inv evs s" and "l \<noteq> ClientLeaves"
  shows "sse_inv (evs @ sent [l]) s'"
  using assms(2)
proof (rule sse_invE)
  fix its
  assume its: "chunks s = map chunk_of its" "List.map_filter id its @ queue s = evs"
    and inv: "task_done s \<longrightarrow> queue s = [] \<and> in_flight s = None" "task_done s \<longleftrightarrow> rx_gone s"
      "length (queue s) \<le> cap s" "length (merged s) \<le> MERGED_CAP" "\<not> client_gone s"
  show ?thesis
  proof (cases l)
    case (Send e)
    have s': "s' = s\<lparr>queue := queue s @ [e]\<rparr>" and "\<not> rx_gone s" "length (queue s) < cap s"
      using assms(1) unfolding Send sse_step_Send by (auto split: if_splits)
    then show ?thesis using its inv Send unfolding s'
      by (intro sse_invI [where its = its]) (simp_all add: chunks_def)
  next
    case SendersDrop
    then have "s' = s\<lparr>senders_gone := True\<rparr>" using assms(1) by simp
    then show ?thesis using its inv SendersDrop by (intro sse_invI [where its = its]) (simp_all add: chunks_def)
  next
    case EventBranch
    show ?thesis
    proof (cases "queue s")
      case Nil
      then have s': "s' = s\<lparr>task_done := True, rx_gone := True\<rparr>" "in_flight s = None"
        using assms(1) EventBranch by (auto simp: sse_recv_def split: if_splits)
      then show ?thesis using its inv EventBranch Nil
        by (intro sse_invI [where its = its]) (simp_all add: chunks_def)
    next
      case (Cons e es)
      then have s': "s' = s\<lparr>queue := es, in_flight := Some (encode e)\<rparr>" "in_flight s = None" "\<not> task_done s"
        using assms(1) EventBranch by (auto simp: sse_recv_def split: if_splits)
      then show ?thesis using its inv EventBranch Cons
        by (intro sse_invI [where its = "its @ [Some e]"]) (simp_all add: chunks_def chunk_of_def map_filter_def)
    qed
  next
    case HeartbeatBranch
    then have s': "s' = s\<lparr>in_flight := Some heartbeat\<rparr>" "in_flight s = None" "\<not> task_done s"
      using assms(1) by (auto split: if_splits)
    then show ?thesis using its inv HeartbeatBranch
      by (intro sse_invI [where its = "its @ [None]"]) (simp_all add: chunks_def chunk_of_def map_filter_def)
  next
    case Push
    then obtain b where "in_flight s = Some b" "length (merged s) < MERGED_CAP"
      "s' = s\<lparr>in_flight := None, merged := merged s @ [b]\<rparr>"
      using assms(1) inv(5) by (auto split: option.splits if_splits)
    then show ?thesis using its inv Push by (intro sse_invI [where its = its]) (auto simp: chunks_def)
  next
    case ClientReads
    then obtain b bs where "merged s = b # bs" "s' = s\<lparr>merged := bs, delivered := delivered s @ [b]\<rparr>"
      using assms(1) inv(5) by (auto split: list.splits)
    then show ?thesis using its inv ClientReads by (intro sse_invI [where its = its]) (auto simp: chunks_def)
  qed (use assms(3) in simp)
qed

lemma sse_run_inv:
  assumes "sse_run s0 ls s" and "sse_inv [] s0" and "ClientLeaves \<notin> set ls"
  shows "sse_inv (sent ls) s"
  using assms
proof (induction rule: sse_run.induct)
  case (step ls s l s')
  then show ?case using sse_step_inv [of l s s' "sent ls"] by auto
qed simp

lemma sse_channel_inv: "sse_channel n = Some s0 \<Longrightarrow> sse_inv [] s0"
  by (auto simp: sse_channel_def sse_inv_def chunks_def map_filter_simps MERGED_CAP_def split: if_splits)

lemma map_chunk_split:
  assumes "map chunk_of its = xs @ ys"
  obtains its1 its2 where "its = its1 @ its2" "xs = map chunk_of its1" "ys = map chunk_of its2"
  using assms by (metis map_eq_append_conv)

text \<open>C39. Events are delivered in order, without loss or duplication, and no heartbeat disturbs them:
  for every interleaving of senders, merge task, heartbeats and a client that stays, what the reference
  parser reads from the chunks delivered or on their way, followed by the queue, is exactly the list of
  events accepted by \<open>send\<close>; what it reads from the chunks delivered is a prefix of it, and all of it
  once the body has ended. Neither channel exceeds its capacity. The events are assumed to be ones the
  encoder can carry (\<open>wf_event\<close>): no line break in the id and the event type, no NUL in the id, and in the
  data no carriage return and no line feed at the end (other line feeds may occur). The code does not check
  this, and an event outside it is written so that a client reads something else.\<close>

theorem sse_delivery:
  assumes "sse_channel n = Some s0" and "sse_run s0 ls s" and "ClientLeaves \<notin> set ls"
    and "\<forall>e \<in> set (sent ls). wf_event e"
  shows "parse_stream (concat (chunks s)) @ queue s = sent ls
    \<and> (\<exists>rest. parse_stream (concat (delivered s)) @ rest = sent ls)
    \<and> (stream_ended s \<longrightarrow> parse_stream (concat (delivered s)) = sent ls)
    \<and> length (queue s) \<le> cap s \<and> length (merged s) \<le> 32"
proof -
  have inv: "sse_inv (sent ls) s" using sse_run_inv [OF assms(2) sse_channel_inv [OF assms(1)] assms(3)] .
  then obtain its where its: "chunks s = map chunk_of its" "List.map_filter id its @ queue s = sent ls"
    by (auto simp: sse_inv_def)
  then obtain its1 its2 where s: "its = its1 @ its2" "delivered s = map chunk_of its1"
    using map_chunk_split [of its "delivered s"] unfolding chunks_def by metis
  have wf: "\<forall>e \<in> set (List.map_filter id its). wf_event e" using assms(4) its(2) by (metis Un_iff set_append)
  have f: "List.map_filter id its = List.map_filter id its1 @ List.map_filter id its2"
    by (simp add: s(1) map_filter_def)
  have p: "parse_stream (concat (delivered s)) = List.map_filter id its1"
    unfolding s(2) using wf f by (intro parse_chunks) auto
  have "parse_stream (concat (delivered s)) = sent ls" if "stream_ended s"
  proof -
    have "chunks s = delivered s" "queue s = []"
      using that inv by (auto simp: stream_ended_def sse_inv_def chunks_def)
    then show ?thesis using its parse_chunks [OF wf] by simp
  qed
  moreover have "parse_stream (concat (chunks s)) @ queue s = sent ls"
    unfolding its(1) parse_chunks [OF wf] by (rule its(2))
  moreover have "parse_stream (concat (delivered s)) @ (List.map_filter id its2 @ queue s) = sent ls"
    using its(2) by (simp add: p f)
  ultimately show ?thesis using inv unfolding sse_inv_def MERGED_CAP_def by blast
qed

theorem sse_delivery_witness:
  "parse_stream (''data: hi'' @ [LF, LF] @ '':'' @ [LF, LF]) = [sse_data ''hi'']"
proof -
  let ?e = "sse_data ''hi''" and ?ls = "[] @ [Send (sse_data ''hi'')] @ [EventBranch] @ [Push] @ [HeartbeatBranch]"
  define s0 where "s0 = the (sse_channel 1)"
  have c: "sse_channel 1 = Some s0" by (simp add: s0_def sse_channel_def)
  have enc: "encode ?e = ''data: hi'' @ [LF, LF]" by code_simp
  define s4 where "s4 = s0\<lparr>merged := [encode ?e], in_flight := Some heartbeat\<rparr>"
  have 1: "sse_run s0 ([] @ [Send ?e]) (s0\<lparr>queue := [?e]\<rparr>)"
    by (rule sse_run.step [OF sse_run.start]) (simp add: s0_def sse_channel_def sse_step_Send del: sse_step.simps)
  have "sse_step EventBranch (s0\<lparr>queue := [?e]\<rparr>) = Some (s0\<lparr>in_flight := Some (encode ?e)\<rparr>)"
    by (simp add: s0_def sse_channel_def sse_recv_def)
  note 2 = sse_run.step [OF 1 this]
  have "sse_step Push (s0\<lparr>in_flight := Some (encode ?e)\<rparr>) = Some (s0\<lparr>merged := [encode ?e]\<rparr>)"
    by (simp add: s0_def sse_channel_def MERGED_CAP_def)
  note 3 = sse_run.step [OF 2 this]
  have "sse_step HeartbeatBranch (s0\<lparr>merged := [encode ?e]\<rparr>) = Some s4"
    by (simp add: s0_def sse_channel_def s4_def)
  note 4 = sse_run.step [OF 3 this]
  have "wf_event ?e" by (simp add: wf_event_def sse_data_def)
  then have "parse_stream (concat (chunks s4)) @ queue s4 = [?e]"
    using sse_delivery [OF c 4] by simp
  then show ?thesis by (simp add: s4_def s0_def sse_channel_def chunks_def enc heartbeat_def)
qed

end
