(* ===== verification/Gzip.thy ===== *)
theory Gzip
  imports Body
begin

section \<open>Bounded decompression of response bodies (oxihttp-client lib.rs)\<close>

text \<open>
  The gzip container parser, and the decoders bounded by a cap. The DEFLATE decoders and the CRC-32
  of the \<open>oxiarc\<close> crates are parameters: \<open>inflate src dst\<close> gives the number of bytes written or the text
  of the error, with the new contents of the buffer. The locale \<open>bounded_inflater\<close> states what the
  crate documents of them: they write only into the buffer they are given and report how much.
\<close>

type_synonym inflater = "bytes \<Rightarrow> bytes \<Rightarrow> (string + nat) \<times> bytes"

type_synonym decoder = "bytes \<Rightarrow> bytes \<Rightarrow> (oxi_error + nat) \<times> bytes"

definition saturating_mul :: "nat \<Rightarrow> nat \<Rightarrow> nat" where
  "saturating_mul a b = min (a * b) usize_max"

definition first_try :: "nat \<Rightarrow> nat \<Rightarrow> nat" where
  "first_try src_len cap = min (max (saturating_mul src_len 8) 8192) cap"

definition bounded_inflate :: "bytes \<Rightarrow> nat \<Rightarrow> decoder \<Rightarrow> bytes oxi_result" where
  "bounded_inflate src cap decode =
     (let n = first_try (length src) cap in
      case decode src (replicate n 0) of
        (Inr written, buf) \<Rightarrow> Inr (take written buf)
      | (Inl first_err, _) \<Rightarrow>
          if cap \<le> n then Inl first_err
          else (case decode src (replicate cap 0) of
                  (Inr written, buf) \<Rightarrow> Inr (take written buf)
                | (Inl e, _) \<Rightarrow> Inl e))"

definition body_decoder :: "string \<Rightarrow> inflater \<Rightarrow> decoder" where
  "body_decoder what f src dst = (case f src dst of (r, dst') \<Rightarrow> (map_sum (\<lambda>e. BodyErr (what @ e)) id r, dst'))"

text \<open>The zlib decoder first, and raw DEFLATE when it fails, on the buffer it left.\<close>

definition or_else :: "inflater \<Rightarrow> inflater \<Rightarrow> inflater" where
  "or_else f g src dst = (case f src dst of (Inr n, dst') \<Rightarrow> (Inr n, dst') | (Inl _, dst') \<Rightarrow> g src dst')"

definition bounded_deflate_decompress :: "inflater \<Rightarrow> inflater \<Rightarrow> bytes \<Rightarrow> nat \<Rightarrow> bytes oxi_result" where
  "bounded_deflate_decompress zlib inflate raw cap =
     bounded_inflate raw cap (body_decoder ''deflate decompression error: '' (or_else zlib inflate))"

subsection \<open>The gzip header\<close>

unbundle bit_operations_syntax

definition le16 :: "u8 \<Rightarrow> u8 \<Rightarrow> nat" where
  "le16 a b = unat a + 256 * unat b"

text \<open>Skipping to the next NUL byte: the position of it, or the length of the data.\<close>

definition find_nul :: "bytes \<Rightarrow> nat \<Rightarrow> nat" where
  "find_nul data pos = pos + length (takeWhile (\<lambda>b. b \<noteq> 0) (drop pos data))"

definition skip_extra :: "bytes \<Rightarrow> nat \<Rightarrow> nat oxi_result" where
  "skip_extra data pos =
     (if length data < pos + 2 then Inl (BodyErr ''gzip: truncated FEXTRA length'')
      else (let xlen = le16 (data ! pos) (data ! (pos + 1)); pos = pos + 2 in
        if usize_max < pos + xlen then Inl (BodyErr ''gzip: FEXTRA length overflow'')
        else if length data < pos + xlen then Inl (BodyErr ''gzip: truncated FEXTRA data'')
        else Inr (pos + xlen)))"

definition skip_string :: "string \<Rightarrow> bytes \<Rightarrow> nat \<Rightarrow> nat oxi_result" where
  "skip_string what data pos =
     (let pos = find_nul data pos in
      if length data \<le> pos then Inl (BodyErr (''gzip: truncated '' @ what)) else Inr (pos + 1))"

definition skip_hcrc :: "bytes \<Rightarrow> nat \<Rightarrow> nat oxi_result" where
  "skip_hcrc data pos = (if length data < pos + 2 then Inl (BodyErr ''gzip: truncated FHCRC'') else Inr (pos + 2))"

definition when_flag :: "bool \<Rightarrow> (nat \<Rightarrow> nat oxi_result) \<Rightarrow> nat \<Rightarrow> nat oxi_result" where
  "when_flag f g pos = (if f then g pos else Inr pos)"

definition gzip_deflate_payload_start :: "bytes \<Rightarrow> nat oxi_result" where
  "gzip_deflate_payload_start data =
     (if length data < 10 then Inl (BodyErr ''gzip: stream too short'')
      else if data ! 0 \<noteq> 0x1F \<or> data ! 1 \<noteq> 0x8B then Inl (BodyErr ''gzip: bad magic bytes'')
      else if data ! 2 \<noteq> 8 then
        Inl (BodyErr (''gzip: unsupported compression method '' @ show_nat (unat (data ! 2))))
      else (let flg = data ! 3 in
        rbind (when_flag (flg AND 0x04 \<noteq> 0) (skip_extra data) 10) (\<lambda>pos.
        rbind (when_flag (flg AND 0x08 \<noteq> 0) (skip_string ''FNAME'' data) pos) (\<lambda>pos.
        rbind (when_flag (flg AND 0x10 \<noteq> 0) (skip_string ''FCOMMENT'' data) pos) (\<lambda>pos.
        rbind (when_flag (flg AND 0x02 \<noteq> 0) (skip_hcrc data) pos) (\<lambda>pos.
          if length data < pos then Inl (BodyErr ''gzip: header extends past end of data'')
          else Inr pos))))))"

definition le32 :: "bytes \<Rightarrow> nat" where
  "le32 b = unat (b ! 0) + 256 * unat (b ! 1) + 65536 * unat (b ! 2) + 16777216 * unat (b ! 3)"

text \<open>The format \<open>{:#010x}\<close>.\<close>

definition hex10 :: "nat \<Rightarrow> string" where
  "hex10 n = ''0x'' @ pad_left 8 (show_hex n)"

definition bounded_gzip_decompress :: "inflater \<Rightarrow> (bytes \<Rightarrow> u32) \<Rightarrow> bytes \<Rightarrow> nat \<Rightarrow> bytes oxi_result" where
  "bounded_gzip_decompress inflate crc32 raw cap =
     rbind (gzip_deflate_payload_start raw) (\<lambda>deflate_start.
       if length raw < deflate_start + 8 then Inl (BodyErr ''gzip: missing trailer'')
       else (let trailer = drop (length raw - 8) raw;
                 expected_crc = le32 trailer;
                 expected_isize = le32 (drop 4 trailer);
                 deflate_payload = drop deflate_start raw
         in rbind (bounded_inflate deflate_payload cap (body_decoder ''gzip decompression error: '' inflate)) (\<lambda>decoded.
              let actual_isize = length decoded mod 2 ^ 32 in
              if actual_isize \<noteq> expected_isize then
                Inl (BodyErr (''gzip: decoded length does not match the trailing ISIZE field (truncated body, ''
                  @ ''corrupted data, or an unsupported concatenated multi-member stream)''))
              else (let actual_crc = unat (crc32 decoded) in
                if actual_crc \<noteq> expected_crc then
                  Inl (BodyErr (''gzip: CRC-32 mismatch (stored '' @ hex10 expected_crc @ '', computed ''
                    @ hex10 actual_crc @ ''): response body is corrupted''))
                else Inr decoded))))"

subsection \<open>Bounds\<close>

lemma first_try_le: "first_try n cap \<le> cap"
  by (simp add: first_try_def)

locale bounded_inflater =
  fixes inflate :: inflater
  assumes in_place: "length (snd (inflate src dst)) = length dst"
begin

lemma decoder_length: "length (snd (body_decoder what inflate src dst)) = length dst"
  using in_place [of src dst] by (auto simp: body_decoder_def split: prod.splits)

lemma bounded_length:
  "bounded_inflate src cap (body_decoder what inflate) = Inr d \<Longrightarrow> length d \<le> cap"
  using decoder_length [of what src "replicate (first_try (length src) cap) 0"] decoder_length [of what src "replicate cap 0"]
    first_try_le [of "length src" cap]
  by (auto simp: bounded_inflate_def Let_def split: prod.splits sum.splits if_splits)

lemma gzip_length: "bounded_gzip_decompress inflate crc32 raw cap = Inr d \<Longrightarrow> length d \<le> cap"
  by (auto simp: bounded_gzip_decompress_def Let_def rbind_Inr dest!: bounded_length split: if_splits)

end

lemma or_else_in_place:
  assumes "bounded_inflater f" and "bounded_inflater g" shows "bounded_inflater (or_else f g)"
proof
  fix src dst :: bytes
  show "length (snd (or_else f g src dst)) = length dst"
    using bounded_inflater.in_place [OF assms(1), of src dst] bounded_inflater.in_place [OF assms(2), of src]
    by (auto simp: or_else_def split: prod.splits sum.splits)
qed

text \<open>A decoder of stored data, which copies its input when it fits; it shows that the contract can be met.\<close>

definition stored :: inflater where
  "stored src dst =
     (let n = length src in
      if n \<le> length dst then (Inr n, src @ drop n dst) else (Inl ''output buffer too small'', dst))"

interpretation stored_copy: bounded_inflater stored
  by unfold_locales (simp add: stored_def Let_def)

subsection \<open>A reference writer of gzip members\<close>

record gz_fields =
  gz_misc :: bytes
  gz_extra :: "bytes option"
  gz_name :: "bytes option"
  gz_comment :: "bytes option"
  gz_hcrc :: "bytes option"

definition flag_byte :: "bool \<Rightarrow> bool \<Rightarrow> bool \<Rightarrow> bool \<Rightarrow> u8" where
  "flag_byte e n c h = (if e then 4 else 0) OR (if n then 8 else 0) OR (if c then 16 else 0) OR (if h then 2 else 0)"

definition le16b :: "nat \<Rightarrow> bytes" where
  "le16b v = [of_nat (v mod 256), of_nat (v div 256)]"

definition le32b :: "nat \<Rightarrow> bytes" where
  "le32b v = [of_nat (v mod 256), of_nat (v div 256 mod 256), of_nat (v div 65536 mod 256), of_nat (v div 16777216 mod 256)]"

definition opt_bytes :: "(bytes \<Rightarrow> bytes) \<Rightarrow> bytes option \<Rightarrow> bytes" where
  "opt_bytes f x = (case x of None \<Rightarrow> [] | Some b \<Rightarrow> f b)"

definition gz_header :: "gz_fields \<Rightarrow> bytes" where
  "gz_header g =
     [0x1F, 0x8B, 8, flag_byte (gz_extra g \<noteq> None) (gz_name g \<noteq> None) (gz_comment g \<noteq> None) (gz_hcrc g \<noteq> None)]
     @ gz_misc g @ opt_bytes (\<lambda>x. le16b (length x) @ x) (gz_extra g) @ opt_bytes (\<lambda>s. s @ [0]) (gz_name g)
     @ opt_bytes (\<lambda>s. s @ [0]) (gz_comment g) @ opt_bytes id (gz_hcrc g)"

definition wf_gz :: "gz_fields \<Rightarrow> bool" where
  "wf_gz g \<longleftrightarrow> length (gz_misc g) = 6
     \<and> (case gz_extra g of Some x \<Rightarrow> length x < 65536 | None \<Rightarrow> True)
     \<and> (case gz_name g of Some s \<Rightarrow> 0 \<notin> set s | None \<Rightarrow> True)
     \<and> (case gz_comment g of Some s \<Rightarrow> 0 \<notin> set s | None \<Rightarrow> True)
     \<and> (case gz_hcrc g of Some h \<Rightarrow> length h = 2 | None \<Rightarrow> True)"

definition gzip_member :: "gz_fields \<Rightarrow> bytes \<Rightarrow> nat \<Rightarrow> nat \<Rightarrow> bytes" where
  "gzip_member g payload crc sz = gz_header g @ payload @ le32b crc @ le32b sz"

lemma flag_bits:
  "flag_byte e n c h AND 4 \<noteq> 0 \<longleftrightarrow> e" "flag_byte e n c h AND 8 \<noteq> 0 \<longleftrightarrow> n"
  "flag_byte e n c h AND 16 \<noteq> 0 \<longleftrightarrow> c" "flag_byte e n c h AND 2 \<noteq> 0 \<longleftrightarrow> h"
  by (cases e; cases n; cases c; cases h; simp add: flag_byte_def)+

lemma unat_of_nat_byte: "unat (of_nat (v mod 256) :: u8) = v mod 256"
  by (simp add: unat_of_nat)

lemma le32_le32b: "le32 (le32b v @ t) = v mod 4294967296"
proof -
  have "v mod 4294967296 = v mod 256 + 256 * (v div 256 mod 16777216)"
    using mod_mult2_eq [of v 256 16777216] by simp
  also have "v div 256 mod 16777216 = v div 256 mod 256 + 256 * (v div 65536 mod 65536)"
    using mod_mult2_eq [of "v div 256" 256 65536] by (simp flip: div_mult2_eq)
  also have "v div 65536 mod 65536 = v div 65536 mod 256 + 256 * (v div 16777216 mod 256)"
    using mod_mult2_eq [of "v div 65536" 256 256] by (simp flip: div_mult2_eq)
  finally show ?thesis
    unfolding le32_def le32b_def by (simp add: unat_of_nat_byte del: of_nat_mod)
qed

lemma le16_le16b:
  assumes "v < 65536" shows "le16 (of_nat (v mod 256)) (of_nat (v div 256)) = v"
proof -
  have "v div 256 < 256" using assms by (simp add: less_mult_imp_div_less)
  then have "unat (of_nat (v div 256) :: u8) = v div 256" by (simp add: unat_of_nat)
  then show ?thesis unfolding le16_def unat_of_nat_byte by simp
qed

lemma find_nul_append: "0 \<notin> set s \<Longrightarrow> find_nul (pre @ s @ 0 # rest) (length pre) = length pre + length s"
  by (simp add: find_nul_def takeWhile_append)

lemma skip_string_append:
  "0 \<notin> set s \<Longrightarrow> skip_string what (pre @ s @ 0 # rest) (length pre) = Inr (length (pre @ s @ [0]))"
  by (simp add: skip_string_def find_nul_append Let_def)

lemma skip_extra_append:
  assumes "length x < 65536" and "length (pre @ le16b (length x) @ x @ rest) \<le> usize_max"
  shows "skip_extra (pre @ le16b (length x) @ x @ rest) (length pre) = Inr (length (pre @ le16b (length x) @ x))"
proof -
  have n: "(pre @ le16b (length x) @ x @ rest) ! length pre = of_nat (length x mod 256)"
    "(pre @ le16b (length x) @ x @ rest) ! (length pre + 1) = of_nat (length x div 256)"
    by (simp_all add: le16b_def nth_append)
  have l: "length (le16b k) = 2" for k by (simp add: le16b_def)
  show ?thesis
    using assms unfolding skip_extra_def n le16_le16b [OF assms(1)] Let_def by (simp add: l)
qed

lemma when_flag_opt:
  assumes "\<And>x. v = Some x \<Longrightarrow> g (length pre) = Inr (length (pre @ f x))"
  shows "when_flag (v \<noteq> None) g (length pre) = Inr (length (pre @ opt_bytes f v))"
  using assms by (cases v) (simp_all add: when_flag_def opt_bytes_def)

lemma payload_start:
  assumes "wf_gz g" and "length (gz_header g @ rest) \<le> usize_max"
  shows "gzip_deflate_payload_start (gz_header g @ rest) = Inr (length (gz_header g))"
proof -
  let ?flg = "flag_byte (gz_extra g \<noteq> None) (gz_name g \<noteq> None) (gz_comment g \<noteq> None) (gz_hcrc g \<noteq> None)"
  define h0 where "h0 = [0x1F, 0x8B, 8, ?flg] @ gz_misc g"
  define h1 where "h1 = h0 @ opt_bytes (\<lambda>x. le16b (length x) @ x) (gz_extra g)"
  define h2 where "h2 = h1 @ opt_bytes (\<lambda>s. s @ [0]) (gz_name g)"
  define h3 where "h3 = h2 @ opt_bytes (\<lambda>s. s @ [0]) (gz_comment g)"
  define h4 where "h4 = h3 @ opt_bytes id (gz_hcrc g)"
  let ?data = "h4 @ rest"
  have H: "gz_header g = h4" by (simp add: gz_header_def h0_def h1_def h2_def h3_def h4_def)
  have l0: "length h0 = 10" using assms(1) by (simp add: h0_def wf_gz_def)
  have w: "\<forall>x. gz_extra g = Some x \<longrightarrow> length x < 65536" "\<forall>s. gz_name g = Some s \<longrightarrow> 0 \<notin> set s"
    "\<forall>s. gz_comment g = Some s \<longrightarrow> 0 \<notin> set s" "\<forall>x. gz_hcrc g = Some x \<longrightarrow> length x = 2"
    using assms(1) by (auto simp: wf_gz_def split: option.splits)
  have s1: "when_flag (gz_extra g \<noteq> None) (skip_extra ?data) (length h0) = Inr (length h1)"
    unfolding h1_def
  proof (rule when_flag_opt)
    fix x assume x: "gz_extra g = Some x"
    have d: "?data = h0 @ le16b (length x) @ x @ drop (length (h0 @ le16b (length x) @ x)) ?data"
      by (simp add: h4_def h3_def h2_def h1_def x opt_bytes_def)
    show "skip_extra ?data (length h0) = Inr (length (h0 @ le16b (length x) @ x))"
      using skip_extra_append [of x h0 "drop (length (h0 @ le16b (length x) @ x)) ?data"] w(1) x assms(2) d H by metis
  qed
  have s2: "when_flag (gz_name g \<noteq> None) (skip_string ''FNAME'' ?data) (length h1) = Inr (length h2)"
    unfolding h2_def
    by (rule when_flag_opt) (use w(2) skip_string_append [of _ "''FNAME''" h1] in
        \<open>simp add: h4_def h3_def h2_def opt_bytes_def\<close>)
  have s3: "when_flag (gz_comment g \<noteq> None) (skip_string ''FCOMMENT'' ?data) (length h2) = Inr (length h3)"
    unfolding h3_def
    by (rule when_flag_opt) (use w(3) skip_string_append [of _ "''FCOMMENT''" h2] in
        \<open>simp add: h4_def h3_def opt_bytes_def\<close>)
  have s4: "when_flag (gz_hcrc g \<noteq> None) (skip_hcrc ?data) (length h3) = Inr (length h4)"
    unfolding h4_def
    by (rule when_flag_opt) (use w(4) in \<open>simp add: skip_hcrc_def opt_bytes_def\<close>)
  have ge: "10 \<le> length ?data" using l0 by (simp add: h4_def h3_def h2_def h1_def)
  have b: "?data ! 0 = 0x1F" "?data ! 1 = 0x8B" "?data ! 2 = 8" "?data ! 3 = ?flg"
    by (simp_all add: h4_def h3_def h2_def h1_def h0_def)
  show ?thesis
    unfolding H gzip_deflate_payload_start_def b flag_bits Let_def l0 [symmetric] s1 rbind.simps s2 s3 s4
    using ge l0 by simp
qed

subsection \<open>Decoding what a compressor wrote\<close>

text \<open>A compressor and its decoder: the decoder finds the end of the data by itself, ignores what
  follows, and fails when the buffer is too small.\<close>

locale deflate_codec = bounded_inflater inflate
  for inflate :: inflater +
  fixes deflate :: "bytes \<Rightarrow> bytes"
  assumes fits: "length d \<le> length dst \<Longrightarrow> \<exists>tail. inflate (deflate d @ t) dst = (Inr (length d), d @ tail)"
    and too_small: "length dst < length d \<Longrightarrow> \<exists>e dst'. inflate (deflate d @ t) dst = (Inl e, dst')"
begin

lemma bounded_fits:
  assumes "length d \<le> cap"
  shows "bounded_inflate (deflate d @ t) cap (body_decoder what inflate) = Inr d"
proof -
  define n where "n = first_try (length (deflate d @ t)) cap"
  have "\<exists>tail. body_decoder what inflate (deflate d @ t) (replicate m 0) = (Inr (length d), d @ tail)"
    if "length d \<le> m" for m
    using fits [of d "replicate m 0" t] that by (auto simp: body_decoder_def)
  moreover have "\<exists>e dst'. body_decoder what inflate (deflate d @ t) (replicate n 0) = (Inl e, dst')" if "n < length d"
    using too_small [of "replicate n 0" d t] that by (auto simp: body_decoder_def)
  ultimately show ?thesis
    unfolding bounded_inflate_def Let_def n_def [symmetric] using assms
    by (cases "length d \<le> n") (fastforce simp: not_le)+
qed

lemma bounded_too_large:
  assumes "cap < length d"
  shows "\<exists>e. bounded_inflate (deflate d @ t) cap (body_decoder what inflate) = Inl (BodyErr (what @ e))"
proof -
  define n where "n = first_try (length (deflate d @ t)) cap"
  have small: "\<exists>e dst'. body_decoder what inflate (deflate d @ t) (replicate m 0) = (Inl (BodyErr (what @ e)), dst')"
    if "m < length d" for m
    using too_small [of "replicate m 0" d t] that by (auto simp: body_decoder_def)
  have "n \<le> cap" by (simp add: n_def first_try_le)
  with assms small obtain e1 b1 where "body_decoder what inflate (deflate d @ t) (replicate n 0) = (Inl (BodyErr (what @ e1)), b1)"
    by fastforce
  moreover from assms small obtain e2 b2 where
    "body_decoder what inflate (deflate d @ t) (replicate cap 0) = (Inl (BodyErr (what @ e2)), b2)" by fastforce
  ultimately show ?thesis unfolding bounded_inflate_def Let_def n_def [symmetric] by simp
qed

lemma gzip_member_decompress:
  assumes "wf_gz g" and "length (gzip_member g (deflate d) (unat (crc32 d)) (length d)) \<le> usize_max"
  shows "bounded_gzip_decompress inflate crc32 (gzip_member g (deflate d) (unat (crc32 d)) (length d)) cap =
    rbind (bounded_inflate (deflate d @ le32b (unat (crc32 d)) @ le32b (length d)) cap
       (body_decoder ''gzip decompression error: '' inflate))
      (\<lambda>decoded. if length decoded mod 2 ^ 32 \<noteq> length d mod 2 ^ 32 then
         Inl (BodyErr (''gzip: decoded length does not match the trailing ISIZE field (truncated body, ''
           @ ''corrupted data, or an unsupported concatenated multi-member stream)''))
       else if unat (crc32 decoded) \<noteq> unat (crc32 d) then
         Inl (BodyErr (''gzip: CRC-32 mismatch (stored '' @ hex10 (unat (crc32 d)) @ '', computed ''
           @ hex10 (unat (crc32 decoded)) @ ''): response body is corrupted''))
       else Inr decoded)"
proof -
  let ?c = "le32b (unat (crc32 d))" and ?s = "le32b (length d)"
  let ?raw = "gz_header g @ deflate d @ ?c @ ?s"
  have l: "length (le32b v) = 4" for v by (simp add: le32b_def)
  have "drop (length ?raw - 8) ?raw = drop (length (gz_header g @ deflate d)) ((gz_header g @ deflate d) @ ?c @ ?s)"
    by (simp add: l)
  then have t: "drop (length ?raw - 8) ?raw = ?c @ ?s" by (simp only: append_eq_conv_conj) simp
  have t4: "drop 4 (?c @ ?s) = ?s" using l [of "unat (crc32 d)"] by simp
  have c: "le32 (?c @ ?s) = unat (crc32 d)"
  proof -
    have "unat (crc32 d) < 2 ^ 32" using unsigned_less [of "crc32 d"] by simp
    then show ?thesis unfolding le32_le32b by simp
  qed
  have s: "le32 ?s = length d mod 2 ^ 32" using le32_le32b [of "length d" "[]"] by simp
  have p: "drop (length (gz_header g)) ?raw = deflate d @ ?c @ ?s" by simp
  have st: "gzip_deflate_payload_start ?raw = Inr (length (gz_header g))"
    using payload_start [OF assms(1), of "deflate d @ ?c @ ?s"] assms(2) by (simp add: gzip_member_def)
  have big: "\<not> length ?raw < length (gz_header g) + 8" by (simp add: l)
  show ?thesis
    unfolding gzip_member_def bounded_gzip_decompress_def st rbind.simps Let_def t t4 c s p
    using big by simp
qed

end

text \<open>A codec that marks each byte and the end; it shows that the contract can be met.\<close>

fun marked_deflate :: "bytes \<Rightarrow> bytes" where
  "marked_deflate [] = [0]"
| "marked_deflate (b # bs) = 1 # b # marked_deflate bs"

fun marked_read :: "bytes \<Rightarrow> bytes option" where
  "marked_read (m # rest) = (if m = 0 then Some [] else
     (case rest of [] \<Rightarrow> None | b # rest' \<Rightarrow> map_option (Cons b) (marked_read rest')))"
| "marked_read [] = None"

definition marked_inflate :: inflater where
  "marked_inflate src dst =
     (case marked_read src of None \<Rightarrow> (Inl ''unexpected end'', dst)
      | Some d \<Rightarrow> if length d \<le> length dst then (Inr (length d), d @ drop (length d) dst)
                   else (Inl ''output buffer too small'', dst))"

lemma marked_read_deflate: "marked_read (marked_deflate d @ t) = Some d"
  by (induction d) auto

interpretation marked: deflate_codec marked_inflate marked_deflate
proof unfold_locales
  fix src dst
  show "length (snd (marked_inflate src dst)) = length dst"
    by (simp add: marked_inflate_def split: option.splits)
next
  fix d dst t :: bytes
  show "length d \<le> length dst \<Longrightarrow> \<exists>tail. marked_inflate (marked_deflate d @ t) dst = (Inr (length d), d @ tail)"
    by (simp add: marked_inflate_def marked_read_deflate)
  show "length dst < length d \<Longrightarrow> \<exists>e dst'. marked_inflate (marked_deflate d @ t) dst = (Inl e, dst')"
    by (simp add: marked_inflate_def marked_read_deflate)
qed

text \<open>C10. A gzip body is decoded exactly: for every member with any combination of the optional header
  fields, the decompressor returns the original data when it is within the cap, and a typed error
  when it is longer, whatever the first buffer size was.\<close>

theorem gzip_roundtrip:
  assumes "deflate_codec inflate deflate" and "wf_gz g"
    and "length (gzip_member g (deflate d) (unat (crc32 d)) (length d)) \<le> usize_max"
  shows "(length d \<le> cap \<longrightarrow>
      bounded_gzip_decompress inflate crc32 (gzip_member g (deflate d) (unat (crc32 d)) (length d)) cap = Inr d)
    \<and> (cap < length d \<longrightarrow>
      (\<exists>e. bounded_gzip_decompress inflate crc32 (gzip_member g (deflate d) (unat (crc32 d)) (length d)) cap =
        Inl (BodyErr (''gzip decompression error: '' @ e))))"
  unfolding deflate_codec.gzip_member_decompress [where ?crc32.0 = crc32 and d = d and g = g, OF assms]
  using deflate_codec.bounded_fits [OF assms(1), of d cap]
    deflate_codec.bounded_too_large [OF assms(1), of cap d "le32b (unat (crc32 d)) @ le32b (length d)" "''gzip decompression error: ''"]
  by auto

theorem gzip_roundtrip_witness:
  "bounded_gzip_decompress marked_inflate (\<lambda>d. 7)
     (gzip_member \<lparr>gz_misc = [0, 0, 0, 0, 0, 3], gz_extra = Some [9], gz_name = Some [65], gz_comment = None, gz_hcrc = Some [1, 2]\<rparr>
       (marked_deflate [1, 2, 3]) 7 3) 3 = Inr [1, 2, 3]"
proof -
  let ?g = "\<lparr>gz_misc = [0, 0, 0, 0, 0, 3], gz_extra = Some [9], gz_name = Some [65], gz_comment = None, gz_hcrc = Some [1, 2]\<rparr>"
  have w: "wf_gz ?g" by (simp add: wf_gz_def)
  have "length (gzip_member ?g (marked_deflate [1, 2, 3]) (unat ((\<lambda>d. 7 :: u32) ([1, 2, 3] :: bytes))) (length ([1, 2, 3] :: bytes))) \<le> usize_max"
    by (simp add: gzip_member_def gz_header_def opt_bytes_def le16b_def le32b_def usize_max_def)
  from gzip_roundtrip [where ?crc32.0 = "\<lambda>d. 7" and d = "[1, 2, 3]", OF marked.deflate_codec_axioms w this, of 3] show ?thesis
    by (simp add: eval_nat_numeral(3) [symmetric] flip: numeral_3_eq_3)
qed

text \<open>No allocation bomb: whatever bytes a server sends, a decoded body is never longer than the cap,
  and a gzip body is only returned when its length and its CRC-32 agree with the trailer; the
  header parser never points outside of the data.\<close>

theorem decompression_bounded:
  assumes "bounded_inflater inflate" and "bounded_inflater zlib"
  shows "(\<forall>d. bounded_gzip_decompress inflate crc32 raw cap = Inr d \<longrightarrow> length d \<le> cap \<and>
        unat (crc32 d) = le32 (drop (length raw - 8) raw) \<and>
        length d mod 2 ^ 32 = le32 (drop 4 (drop (length raw - 8) raw)))
    \<and> (\<forall>d. bounded_deflate_decompress zlib inflate raw cap = Inr d \<longrightarrow> length d \<le> cap)
    \<and> (\<forall>pos. gzip_deflate_payload_start raw = Inr pos \<longrightarrow> pos \<le> length raw)"
proof (intro conjI allI impI)
  fix d assume d: "bounded_gzip_decompress inflate crc32 raw cap = Inr d"
  show "length d \<le> cap" by (rule bounded_inflater.gzip_length [OF assms(1) d])
  show "unat (crc32 d) = le32 (drop (length raw - 8) raw)"
    "length d mod 2 ^ 32 = le32 (drop 4 (drop (length raw - 8) raw))"
    using d by (auto simp: bounded_gzip_decompress_def Let_def rbind_Inr split: if_splits)
next
  fix d assume "bounded_deflate_decompress zlib inflate raw cap = Inr d"
  then show "length d \<le> cap"
    using bounded_inflater.bounded_length [OF or_else_in_place [OF assms(2,1)]]
    by (simp add: bounded_deflate_decompress_def)
next
  fix pos assume "gzip_deflate_payload_start raw = Inr pos"
  then show "pos \<le> length raw"
    by (auto simp: gzip_deflate_payload_start_def Let_def rbind_Inr split: if_splits)
qed

theorem decompression_bounded_witness:
  "bounded_deflate_decompress stored stored [1, 2] 5 = Inr [1, 2] \<and> length [1, 2 :: u8] \<le> 5"
proof -
  have "bounded_deflate_decompress stored stored [1, 2] 5 = Inr [1, 2]"
    by (simp add: bounded_deflate_decompress_def bounded_inflate_def body_decoder_def or_else_def stored_def
        first_try_def saturating_mul_def usize_max_def)
  then show ?thesis
    using decompression_bounded [OF stored_copy.bounded_inflater_axioms stored_copy.bounded_inflater_axioms] by blast
qed

end
