(* ===== verification/ContentType.thy ===== *)
theory ContentType
  imports Headers Complex_Main "HOL-Library.Product_Lexorder"
begin

section \<open>Content types and negotiation (oxihttp-core content_type.rs)\<close>

text \<open>
  Parsing and printing of content types, detection from extensions, and \<open>Accept\<close> negotiation. The
  quality of an entry is an \<open>f32\<close>: a rational number, an infinity or NaN, as the parser of the standard
  library, the parameter \<open>parse_f32\<close>, yields them (which of the representable numbers a text rounds to is
  left to it). Case folding is that of ASCII.
\<close>

datatype content_type = CtJson | CtForm | CtMultipart "string option" | CtOctetStream
  | CtText "string option" | CtHtml "string option" | CtXml | CtOther string

fun mime_type :: "content_type \<Rightarrow> string" where
  "mime_type CtJson = ''application/json''"
| "mime_type CtForm = ''application/x-www-form-urlencoded''"
| "mime_type (CtMultipart _) = ''multipart/form-data''"
| "mime_type CtOctetStream = ''application/octet-stream''"
| "mime_type (CtText _) = ''text/plain''"
| "mime_type (CtHtml _) = ''text/html''"
| "mime_type CtXml = ''application/xml''"
| "mime_type (CtOther s) = s"

fun charset :: "content_type \<Rightarrow> string option" where
  "charset (CtText c) = c"
| "charset (CtHtml c) = c"
| "charset _ = None"

fun is_text :: "content_type \<Rightarrow> bool" where
  "is_text (CtText _) = True"
| "is_text (CtHtml _) = True"
| "is_text CtJson = True"
| "is_text CtXml = True"
| "is_text _ = False"

definition from_extension :: "string \<Rightarrow> content_type" where
  "from_extension ext =
     (let e = lower ext in
      if e = ''json'' then CtJson
      else if e = ''html'' \<or> e = ''htm'' then CtHtml (Some ''utf-8'')
      else if e = ''txt'' \<or> e = ''text'' then CtText (Some ''utf-8'')
      else if e = ''xml'' then CtXml
      else if e = ''css'' then CtOther ''text/css''
      else if e = ''js'' \<or> e = ''mjs'' then CtOther ''application/javascript''
      else if e = ''png'' then CtOther ''image/png''
      else if e = ''jpg'' \<or> e = ''jpeg'' then CtOther ''image/jpeg''
      else if e = ''gif'' then CtOther ''image/gif''
      else if e = ''svg'' then CtOther ''image/svg+xml''
      else if e = ''ico'' then CtOther ''image/x-icon''
      else if e = ''woff'' then CtOther ''font/woff''
      else if e = ''woff2'' then CtOther ''font/woff2''
      else if e = ''pdf'' then CtOther ''application/pdf''
      else if e = ''wasm'' then CtOther ''application/wasm''
      else CtOctetStream)"

fun content_type_to_string :: "content_type \<Rightarrow> string" where
  "content_type_to_string (CtMultipart (Some b)) = ''multipart/form-data; boundary='' @ b"
| "content_type_to_string (CtText (Some c)) = ''text/plain; charset='' @ c"
| "content_type_to_string (CtHtml (Some c)) = ''text/html; charset='' @ c"
| "content_type_to_string ct = mime_type ct"

text \<open>The \<open>find_map\<close> over the parameters.\<close>

definition param_value :: "string \<Rightarrow> string \<Rightarrow> string option" where
  "param_value key param =
     (case split_once CHR ''='' param of None \<Rightarrow> None
      | Some (k, v) \<Rightarrow> if eq_ignore_case (trim k) key then Some (trim_by (\<lambda>c. c = CHR 0x22) (trim v)) else None)"

fun find_map :: "('a \<Rightarrow> 'b option) \<Rightarrow> 'a list \<Rightarrow> 'b option" where
  "find_map f [] = None"
| "find_map f (x # xs) = (case f x of Some y \<Rightarrow> Some y | None \<Rightarrow> find_map f xs)"

definition find_param :: "string \<Rightarrow> string option \<Rightarrow> string option" where
  "find_param key params_raw =
     Option.bind params_raw (\<lambda>p. find_map (param_value key) (map trim (split_on CHR '';'' p)))"

definition content_type_from_str :: "string \<Rightarrow> content_type oxi_result" where
  "content_type_from_str s =
     (let trimmed_s = trim s;
          (mime_raw, params_raw) =
            (case split_once CHR '';'' trimmed_s of Some (m, p) \<Rightarrow> (trim m, Some (trim p)) | None \<Rightarrow> (trimmed_s, None));
          mime = lower mime_raw;
          chars = find_param ''charset'' params_raw;
          bound = find_param ''boundary'' params_raw
      in if mime = ''application/json'' then Inr CtJson
         else if mime = ''application/x-www-form-urlencoded'' then Inr CtForm
         else if mime = ''multipart/form-data'' then Inr (CtMultipart bound)
         else if mime = ''application/octet-stream'' then Inr CtOctetStream
         else if mime = ''text/plain'' then Inr (CtText chars)
         else if mime = ''text/html'' then Inr (CtHtml chars)
         else if mime = ''application/xml'' \<or> mime = ''text/xml'' then Inr CtXml
         else Inr (CtOther mime))"

subsection \<open>Accept\<close>

datatype f32 = F32 rat | F32_Inf | F32_NegInf | F32_NaN


record accept_entry =
  ae_type :: content_type
  ae_quality :: f32

type_synonym f32_parser = "string \<Rightarrow> f32 option"

definition extract_quality :: "f32_parser \<Rightarrow> string \<Rightarrow> string \<times> f32" where
  "extract_quality parse_f32 s =
     (case split_once_str '';q='' (lower s) of
        Some (pre, _) \<Rightarrow>
          (let mime = take (length pre) s; rest = drop (length pre) s; q_str = drop 3 rest;
               q_val = (case parse_f32 (trim (hd (split_on CHR '';'' q_str))) of Some q \<Rightarrow> q | None \<Rightarrow> F32 1)
           in (trim mime, q_val))
      | None \<Rightarrow> (s, F32 1))"

definition accept_part :: "f32_parser \<Rightarrow> string \<Rightarrow> accept_entry option" where
  "accept_part parse_f32 part0 =
     (let part = trim part0 in
      if part = '''' then None
      else (let (mime_part, q) = extract_quality parse_f32 part in
        case content_type_from_str mime_part of Inl e \<Rightarrow> None
        | Inr ct \<Rightarrow> Some \<lparr>ae_type = ct, ae_quality = q\<rparr>))"

definition accept_entries :: "f32_parser \<Rightarrow> string \<Rightarrow> accept_entry list" where
  "accept_entries parse_f32 header = List.map_filter (accept_part parse_f32) (split_on CHR '','' header)"

text \<open>\<open>sort_by\<close> is a stable sort when the comparison is a total order, which it is (highest first) for
  qualities without NaN. With a NaN the comparison is not one: the standard library then leaves the
  order unspecified and may panic. That case is the parameter \<open>resort\<close>, whose \<open>None\<close> is the panic.\<close>

fun descending :: "f32 \<Rightarrow> nat \<times> rat" where
  "descending F32_Inf = (0, 0)"
| "descending (F32 q) = (1, - q)"
| "descending F32_NegInf = (2, 0)"
| "descending F32_NaN = (3, 0)"

type_synonym resort = "accept_entry list \<Rightarrow> accept_entry list option"

definition sort_by_quality :: "resort \<Rightarrow> accept_entry list \<Rightarrow> accept_entry list option" where
  "sort_by_quality resort es =
     (if list_ex (\<lambda>e. ae_quality e = F32_NaN) es then resort es
      else Some (sort_key (\<lambda>e. descending (ae_quality e)) es))"

definition parse_accept :: "f32_parser \<Rightarrow> resort \<Rightarrow> string \<Rightarrow> accept_entry list option" where
  "parse_accept parse_f32 resort header = sort_by_quality resort (accept_entries parse_f32 header)"

definition type_part :: "string \<Rightarrow> string" where
  "type_part m = hd (split_on CHR ''/'' m)"

definition entry_accepts :: "accept_entry \<Rightarrow> content_type \<Rightarrow> bool" where
  "entry_accepts e st =
     (let em = mime_type (ae_type e); sm = mime_type st in
      em = sm \<or> em = ''*/*'' \<or> (ends_with ''/*'' em \<and> type_part em = type_part sm))"

fun negotiate_entries :: "accept_entry list \<Rightarrow> content_type list \<Rightarrow> content_type option" where
  "negotiate_entries [] sups = None"
| "negotiate_entries (e # es) sups =
     (case List.find (entry_accepts e) sups of Some st \<Rightarrow> Some st | None \<Rightarrow> negotiate_entries es sups)"

definition negotiate_content_type ::
  "f32_parser \<Rightarrow> resort \<Rightarrow> string \<Rightarrow> content_type list \<Rightarrow> content_type option option" where
  "negotiate_content_type parse_f32 resort accept_header sups =
     map_option (\<lambda>es. negotiate_entries es sups) (parse_accept parse_f32 resort accept_header)"

subsection \<open>Parsing what was printed\<close>

definition param_text :: "string \<Rightarrow> bool" where
  "param_text v \<longleftrightarrow> trimmed v \<and> CHR '';'' \<notin> set v \<and>
     (v \<noteq> '''' \<longrightarrow> hd v \<noteq> CHR 0x22 \<and> last v \<noteq> CHR 0x22)"

definition known_types :: "string list" where
  "known_types = [''application/json'', ''application/x-www-form-urlencoded'', ''multipart/form-data'',
     ''application/octet-stream'', ''text/plain'', ''text/html'', ''application/xml'', ''text/xml'']"

fun wf_content_type :: "content_type \<Rightarrow> bool" where
  "wf_content_type (CtMultipart b) \<longleftrightarrow> (case b of Some v \<Rightarrow> param_text v | None \<Rightarrow> True)"
| "wf_content_type (CtText c) \<longleftrightarrow> (case c of Some v \<Rightarrow> param_text v | None \<Rightarrow> True)"
| "wf_content_type (CtHtml c) \<longleftrightarrow> (case c of Some v \<Rightarrow> param_text v | None \<Rightarrow> True)"
| "wf_content_type (CtOther s) \<longleftrightarrow> trimmed s \<and> lower s = s \<and> CHR '';'' \<notin> set s \<and> s \<notin> set known_types"
| "wf_content_type _ \<longleftrightarrow> True"

definition known_of :: "string \<Rightarrow> string option \<Rightarrow> string option \<Rightarrow> content_type" where
  "known_of mime chars bound =
     (if mime = ''application/json'' then CtJson
      else if mime = ''application/x-www-form-urlencoded'' then CtForm
      else if mime = ''multipart/form-data'' then CtMultipart bound
      else if mime = ''application/octet-stream'' then CtOctetStream
      else if mime = ''text/plain'' then CtText chars
      else if mime = ''text/html'' then CtHtml chars
      else if mime = ''application/xml'' \<or> mime = ''text/xml'' then CtXml
      else CtOther mime)"

lemma from_str_plain:
  assumes "trimmed s" and "CHR '';'' \<notin> set s"
  shows "content_type_from_str s = Inr (known_of (lower s) None None)"
proof -
  have "split_once CHR '';'' s = None" using assms(2) by (simp add: split_once_None)
  then show ?thesis
    unfolding content_type_from_str_def known_of_def Let_def trim_trimmed [OF assms(1)] find_param_def by simp
qed

lemma from_str_param:
  assumes "m \<noteq> ''''" and "\<forall>c \<in> set m. \<not> is_ws c \<and> c \<noteq> CHR '';''"
    and "k \<noteq> ''''" and "\<forall>c \<in> set k. \<not> is_ws c \<and> c \<noteq> CHR ''='' \<and> c \<noteq> CHR '';''" and v: "param_text v"
  shows "content_type_from_str (m @ ''; '' @ k @ ''='' @ v) =
    Inr (known_of (lower m) (if eq_ignore_case k ''charset'' then Some v else None)
      (if eq_ignore_case k ''boundary'' then Some v else None))"
proof -
  let ?p = "k @ ''='' @ v" and ?s = "m @ ''; '' @ k @ ''='' @ v"
  have tv: "trimmed v" and sv: "CHR '';'' \<notin> set v" and qv: "trim_by (\<lambda>c. c = CHR 0x22) v = v"
    using v by (auto simp: param_text_def intro!: trim_by_id)
  have tp: "trimmed ?p" using assms(3,4) tv by (cases k) (auto simp: trimmed_def is_ws_def)
  have ts: "trimmed ?s"
    using assms(1,2) tp by (cases m) (auto simp: trimmed_def)
  have s1: "split_once CHR '';'' ?s = Some (m, '' '' @ ?p)"
    using split_once_append [of "CHR '';''" m "'' '' @ ?p"] assms(2) by auto
  have tm: "trim m = m" by (rule trim_no_ws) (use assms(2) in auto)
  have "trim (CHR '' '' # ?p) = trim ?p" by (simp add: trim_def trim_by_def is_ws_def)
  with trim_trimmed [OF tp] have tsp: "trim ('' '' @ ?p) = ?p" by simp
  have s2: "split_on CHR '';'' ?p = [?p]" using assms(4) sv by (intro split_on_id) auto
  have s3: "split_once CHR ''='' ?p = Some (k, v)"
    using split_once_append [of "CHR ''=''" k v] assms(4) by auto
  have tk: "trim k = k" by (rule trim_no_ws) (use assms(4) in auto)
  have pv: "param_value key ?p = (if eq_ignore_case k key then Some v else None)" for key
    unfolding param_value_def s3 option.case prod.case tk trim_trimmed [OF tv] qv by simp
  have "find_param key (Some ?p) = (if eq_ignore_case k key then Some v else None)" for key
    unfolding find_param_def Option.bind.simps s2 list.map trim_trimmed [OF tp] find_map.simps pv by simp
  then show ?thesis
    unfolding content_type_from_str_def known_of_def Let_def trim_trimmed [OF ts] s1 option.case prod.case tm tsp by simp
qed

lemma lower_mimes:
  "lower ''application/json'' = ''application/json''"
  "lower ''application/x-www-form-urlencoded'' = ''application/x-www-form-urlencoded''"
  "lower ''multipart/form-data'' = ''multipart/form-data''"
  "lower ''application/octet-stream'' = ''application/octet-stream''"
  "lower ''text/plain'' = ''text/plain''" "lower ''text/html'' = ''text/html''"
  "lower ''application/xml'' = ''application/xml''"
  by code_simp+

lemma param_names:
  "eq_ignore_case ''charset'' ''charset''" "\<not> eq_ignore_case ''charset'' ''boundary''"
  "eq_ignore_case ''boundary'' ''boundary''" "\<not> eq_ignore_case ''boundary'' ''charset''"
  by code_simp+

text \<open>C30. Content types survive the wire: parsing the printed form of a content type gives it back,
  with its charset or boundary; parameter texts must be free of semicolons and not begin or end
  with white space or quotes, and another type (\<open>Other\<close>) must be in lower case, without semicolons,
  without white space at its ends, and not one of the known. The parser is lossy on any other value:
  it lowers the case, trims and cuts at the semicolon.\<close>

theorem content_type_roundtrip:
  assumes "wf_content_type ct"
  shows "content_type_from_str (content_type_to_string ct) = Inr ct"
proof -
  have plain: "content_type_from_str (mime_type ct) = Inr (known_of (lower (mime_type ct)) None None)"
    using assms by (intro from_str_plain) (cases ct; simp add: trimmed_def is_ws_def)+
  show ?thesis
  proof (cases ct)
    case (CtMultipart b)
    show ?thesis
    proof (cases b)
      case (Some v)
      with assms CtMultipart from_str_param [of "''multipart/form-data''" "''boundary''" v] show ?thesis
        by (simp add: is_ws_def lower_mimes known_of_def param_names)
    qed (use plain CtMultipart in \<open>simp add: lower_mimes known_of_def\<close>)
  next
    case (CtText b)
    show ?thesis
    proof (cases b)
      case (Some v)
      with assms CtText from_str_param [of "''text/plain''" "''charset''" v] show ?thesis
        by (simp add: is_ws_def lower_mimes known_of_def param_names)
    qed (use plain CtText in \<open>simp add: lower_mimes known_of_def\<close>)
  next
    case (CtHtml b)
    show ?thesis
    proof (cases b)
      case (Some v)
      with assms CtHtml from_str_param [of "''text/html''" "''charset''" v] show ?thesis
        by (simp add: is_ws_def lower_mimes known_of_def param_names)
    qed (use plain CtHtml in \<open>simp add: lower_mimes known_of_def\<close>)
  qed (use plain assms in \<open>simp_all add: lower_mimes known_of_def known_types_def\<close>)
qed

theorem content_type_roundtrip_witness:
  "content_type_from_str (content_type_to_string (CtHtml (Some ''UTF-8''))) = Inr (CtHtml (Some ''UTF-8''))"
  by (rule content_type_roundtrip) (simp add: param_text_def trimmed_def is_ws_def)

subsection \<open>Negotiation\<close>







lemmas accept_eval = accept_entries_def List.map_filter_def accept_part_def extract_quality_def content_type_from_str_def
  find_param_def trim_def trim_by_def is_ws_def Let_def lower_mimes lower_def lower_char_def starts_with_def


text \<open>A NaN breaks this: with the insertion sort that the standard library uses for short lists, which
  finds nothing to move because the NaN in the middle compares equal to both neighbours, the first
  offer wins at a quality of one half although another is wanted at one.\<close>

theorem negotiate_nan:
  assumes "p ''0.5'' = Some (F32 (1/2))" and "p ''nan'' = Some F32_NaN"
  shows "negotiate_content_type p Some ''text/html;q=0.5,text/css;q=nan,application/json'' [CtHtml None, CtJson] = Some (Some (CtHtml None))
    \<and> \<lparr>ae_type = CtJson, ae_quality = F32 1\<rparr> \<in> set (accept_entries p ''text/html;q=0.5,text/css;q=nan,application/json'')"
proof -
  have e: "accept_entries p ''text/html;q=0.5,text/css;q=nan,application/json'' =
      [\<lparr>ae_type = CtHtml None, ae_quality = F32 (1/2)\<rparr>, \<lparr>ae_type = CtOther ''text/css'', ae_quality = F32_NaN\<rparr>,
       \<lparr>ae_type = CtJson, ae_quality = F32 1\<rparr>]"
    using assms by (simp add: accept_eval)
  then show ?thesis
    by (simp add: negotiate_content_type_def parse_accept_def sort_by_quality_def entry_accepts_def)
qed

theorem negotiate_nan_witness:
  "negotiate_content_type (\<lambda>s. if s = ''0.5'' then Some (F32 (1/2)) else if s = ''nan'' then Some F32_NaN else None) Some
     ''text/html;q=0.5,text/css;q=nan,application/json'' [CtHtml None, CtJson] = Some (Some (CtHtml None))"
  using negotiate_nan [of "\<lambda>s. if s = ''0.5'' then Some (F32 (1/2)) else if s = ''nan'' then Some F32_NaN else None"] by simp

lemma split_once_str_None: "split_once_str p s = None \<longleftrightarrow> \<not> occurs p s"
  by (induction s) auto

text \<open>Two departures from RFC 9110: a quality after optional white space is not seen, so the entry
  counts with the highest quality, and a type that the client excludes with quality zero is still
  served.\<close>

theorem quality_departures:
  assumes "\<not> occurs '';q='' (lower part)"
  shows "extract_quality p part = (part, F32 1)
    \<and> (p ''0'' = Some (F32 0) \<longrightarrow> negotiate_content_type p resort ''text/html;q=0'' [CtHtml None] = Some (Some (CtHtml None)))"
proof (intro conjI impI)
  show "extract_quality p part = (part, F32 1)"
    using assms by (simp add: extract_quality_def flip: split_once_str_None)
  assume "p ''0'' = Some (F32 0)"
  then have "accept_entries p ''text/html;q=0'' = [\<lparr>ae_type = CtHtml None, ae_quality = F32 0\<rparr>]"
    by (simp add: accept_eval)
  then show "negotiate_content_type p resort ''text/html;q=0'' [CtHtml None] = Some (Some (CtHtml None))"
    by (simp add: negotiate_content_type_def parse_accept_def sort_by_quality_def entry_accepts_def)
qed

theorem quality_departures_witness: "extract_quality (\<lambda>s. Some (F32 (1/10))) ''text/html; q=0.1'' = (''text/html; q=0.1'', F32 1)"
  using quality_departures [of "''text/html; q=0.1''" "\<lambda>s. Some (F32 (1/10))"]
  by (simp add: lower_def lower_char_def starts_with_def)

end
