(* ===== verification/TypedHeaders.thy ===== *)
theory TypedHeaders
  imports ContentType
begin

section \<open>Typed header access and the request builder (oxihttp-core header_ext.rs, header_types.rs, request_builder.rs)\<close>

text \<open>
  The getters and setters of \<open>HeaderMapExt\<close>, the decoders of the typed headers and the builder that
  makes a request without sending it. A setter gives the new map or the error; on an error the
  caller's map is unchanged.
\<close>

subsection \<open>Getters\<close>

definition hx_content_type :: "http_lib \<Rightarrow> header_map \<Rightarrow> content_type option" where
  "hx_content_type lib h =
     Option.bind (hm_str lib ''content-type'' h)
       (\<lambda>s. case content_type_from_str s of Inl e \<Rightarrow> None | Inr ct \<Rightarrow> Some ct)"

definition hx_content_length :: "http_lib \<Rightarrow> header_map \<Rightarrow> nat option" where
  "hx_content_length lib h = Option.bind (hm_str lib ''content-length'' h) parse_u64"

definition hx_authorization :: "http_lib \<Rightarrow> header_map \<Rightarrow> string option" where
  "hx_authorization lib h = hm_str lib ''authorization'' h"

definition hx_accept :: "http_lib \<Rightarrow> header_map \<Rightarrow> string option" where
  "hx_accept lib h = hm_str lib ''accept'' h"

definition hx_host :: "http_lib \<Rightarrow> header_map \<Rightarrow> string option" where
  "hx_host lib h = hm_str lib ''host'' h"

definition hx_user_agent :: "http_lib \<Rightarrow> header_map \<Rightarrow> string option" where
  "hx_user_agent lib h = hm_str lib ''user-agent'' h"

definition hx_cache_control :: "http_lib \<Rightarrow> header_map \<Rightarrow> string option" where
  "hx_cache_control lib h = hm_str lib ''cache-control'' h"

definition hx_etag :: "http_lib \<Rightarrow> header_map \<Rightarrow> string option" where
  "hx_etag lib h = hm_str lib ''etag'' h"

definition hx_if_none_match :: "http_lib \<Rightarrow> header_map \<Rightarrow> string option" where
  "hx_if_none_match lib h = hm_str lib ''if-none-match'' h"

definition hx_if_modified_since :: "http_lib \<Rightarrow> header_map \<Rightarrow> string option" where
  "hx_if_modified_since lib h = hm_str lib ''if-modified-since'' h"

definition hx_cookie_header :: "http_lib \<Rightarrow> header_map \<Rightarrow> string option" where
  "hx_cookie_header lib h = hm_str lib ''cookie'' h"

definition hx_location :: "http_lib \<Rightarrow> header_map \<Rightarrow> string option" where
  "hx_location lib h = hm_str lib ''location'' h"

definition hx_referer :: "http_lib \<Rightarrow> header_map \<Rightarrow> string option" where
  "hx_referer lib h = hm_str lib ''referer'' h"

subsection \<open>Setters\<close>

definition set_content_type :: "http_lib \<Rightarrow> content_type \<Rightarrow> header_map \<Rightarrow> header_map oxi_result" where
  "set_content_type lib ct h = hm_set lib id ''content-type'' (content_type_to_string ct) h"

definition set_content_length :: "http_lib \<Rightarrow> nat \<Rightarrow> header_map \<Rightarrow> header_map oxi_result" where
  "set_content_length lib len h = hm_set lib id ''content-length'' (show_nat len) h"

definition set_bearer_auth :: "http_lib \<Rightarrow> string \<Rightarrow> header_map \<Rightarrow> header_map oxi_result" where
  "set_bearer_auth lib token h = hm_set lib id ''authorization'' (''Bearer '' @ token) h"

definition set_basic_auth :: "http_lib \<Rightarrow> string \<Rightarrow> string option \<Rightarrow> header_map \<Rightarrow> header_map oxi_result" where
  "set_basic_auth lib username password h =
     (let buf = as_bytes (username @ '':'') @ (case password of Some pw \<Rightarrow> as_bytes pw | None \<Rightarrow> []);
          encoded = base64_encode buf
      in hm_set lib id ''authorization'' (''Basic '' @ encoded) h)"

definition set_cache_control :: "http_lib \<Rightarrow> string \<Rightarrow> header_map \<Rightarrow> header_map oxi_result" where
  "set_cache_control lib v h = hm_set lib (\<lambda>_. ''invalid Cache-Control value: '' @ v) ''cache-control'' v h"

definition set_etag :: "http_lib \<Rightarrow> string \<Rightarrow> header_map \<Rightarrow> header_map oxi_result" where
  "set_etag lib v h = hm_set lib (\<lambda>_. ''invalid ETag value: '' @ v) ''etag'' v h"

definition set_location :: "http_lib \<Rightarrow> string \<Rightarrow> header_map \<Rightarrow> header_map oxi_result" where
  "set_location lib v h = hm_set lib (\<lambda>_. ''invalid Location value: '' @ v) ''location'' v h"

definition set_cookie_header :: "http_lib \<Rightarrow> string \<Rightarrow> header_map \<Rightarrow> header_map oxi_result" where
  "set_cookie_header lib v h =
     (case hv_error lib v of Some e \<Rightarrow> Inl (InvalidHeader (''invalid Set-Cookie value: '' @ v))
      | None \<Rightarrow> Inr (hm_append ''set-cookie'' v h))"

subsection \<open>Typed headers\<close>

definition decode_content_type :: "http_lib \<Rightarrow> header_map \<Rightarrow> content_type oxi_result" where
  "decode_content_type lib h =
     (case hx_content_type lib h of Some ct \<Rightarrow> Inr ct
      | None \<Rightarrow> Inl (InvalidHeader ''missing or invalid Content-Type header''))"

text \<open>The display text of a \<open>ParseIntError\<close> for an unsigned type of \<open>w\<close> bits; the digits are read from
  the left, and of two errors the first one met is reported.\<close>

fun int_error_from :: "nat \<Rightarrow> nat \<Rightarrow> string \<Rightarrow> string option" where
  "int_error_from w acc [] = None"
| "int_error_from w acc (c # cs) =
     (case digit_of 10 c of None \<Rightarrow> Some ''invalid digit found in string''
      | Some d \<Rightarrow> if acc * 10 + d < 2 ^ w then int_error_from w (acc * 10 + d) cs
                  else Some ''number too large to fit in target type'')"

definition int_error :: "nat \<Rightarrow> string \<Rightarrow> string option" where
  "int_error w s =
     (if s = '''' then Some ''cannot parse integer from empty string''
      else if s = ''+'' \<or> s = ''-'' then Some ''invalid digit found in string''
      else int_error_from w 0 (if hd s = CHR ''+'' then tl s else s))"

definition decode_content_length :: "http_lib \<Rightarrow> header_map \<Rightarrow> nat oxi_result" where
  "decode_content_length lib h =
     (case hm_get ''content-length'' h of
        None \<Rightarrow> Inl (InvalidHeader ''missing Content-Length header'')
      | Some v \<Rightarrow> (case to_str_error lib v of
          Some e \<Rightarrow> Inl (InvalidHeader (''invalid Content-Length value: '' @ e))
        | None \<Rightarrow> (case int_error 64 (trim v) of
            Some e \<Rightarrow> Inl (InvalidHeader (''cannot parse Content-Length: '' @ e))
          | None \<Rightarrow> Inr (the (parse_u64 (trim v))))))"

text \<open>The macro \<open>string_header!\<close> and its six instances.\<close>

definition decode_string :: "string \<Rightarrow> string \<Rightarrow> http_lib \<Rightarrow> header_map \<Rightarrow> string oxi_result" where
  "decode_string header display_name lib h =
     (case hm_get header h of
        None \<Rightarrow> Inl (InvalidHeader (''missing '' @ display_name @ '' header''))
      | Some v \<Rightarrow> (case to_str_error lib v of
          Some e \<Rightarrow> Inl (InvalidHeader (''invalid '' @ display_name @ '' header value: '' @ e))
        | None \<Rightarrow> Inr v))"

definition decode_host :: "http_lib \<Rightarrow> header_map \<Rightarrow> string oxi_result" where
  "decode_host = decode_string ''host'' ''Host''"

definition decode_etag :: "http_lib \<Rightarrow> header_map \<Rightarrow> string oxi_result" where
  "decode_etag = decode_string ''etag'' ''ETag''"

definition decode_authorization :: "http_lib \<Rightarrow> header_map \<Rightarrow> string oxi_result" where
  "decode_authorization = decode_string ''authorization'' ''Authorization''"

definition decode_cache_control :: "http_lib \<Rightarrow> header_map \<Rightarrow> string oxi_result" where
  "decode_cache_control = decode_string ''cache-control'' ''Cache-Control''"

definition decode_referer :: "http_lib \<Rightarrow> header_map \<Rightarrow> string oxi_result" where
  "decode_referer = decode_string ''referer'' ''Referer''"

definition decode_location :: "http_lib \<Rightarrow> header_map \<Rightarrow> string oxi_result" where
  "decode_location = decode_string ''location'' ''Location''"

subsection \<open>The request builder\<close>

record 's core_request_builder =
  rb_method :: string
  rb_uri :: uri
  rb_headers :: header_map
  rb_body :: "'s body"

record 's http_message =
  msg_method :: string
  msg_uri :: uri
  msg_headers :: header_map
  msg_body :: "'s body"

definition core_new :: "string \<Rightarrow> uri \<Rightarrow> 's core_request_builder" where
  "core_new m u = \<lparr>rb_method = m, rb_uri = u, rb_headers = [], rb_body = BodyEmpty\<rparr>"

definition core_with_uri :: "http_lib \<Rightarrow> string \<Rightarrow> string \<Rightarrow> 's core_request_builder oxi_result" where
  "core_with_uri lib m u = (case uri_of lib u of Inl e \<Rightarrow> Inl (InvalidUri e) | Inr u' \<Rightarrow> Inr (core_new m u'))"

definition core_get :: "http_lib \<Rightarrow> string \<Rightarrow> 's core_request_builder oxi_result" where
  "core_get lib = core_with_uri lib ''GET''"

definition core_post :: "http_lib \<Rightarrow> string \<Rightarrow> 's core_request_builder oxi_result" where
  "core_post lib = core_with_uri lib ''POST''"

definition core_put :: "http_lib \<Rightarrow> string \<Rightarrow> 's core_request_builder oxi_result" where
  "core_put lib = core_with_uri lib ''PUT''"

definition core_delete :: "http_lib \<Rightarrow> string \<Rightarrow> 's core_request_builder oxi_result" where
  "core_delete lib = core_with_uri lib ''DELETE''"

definition core_patch :: "http_lib \<Rightarrow> string \<Rightarrow> 's core_request_builder oxi_result" where
  "core_patch lib = core_with_uri lib ''PATCH''"

definition core_head :: "http_lib \<Rightarrow> string \<Rightarrow> 's core_request_builder oxi_result" where
  "core_head lib = core_with_uri lib ''HEAD''"

text \<open>Names are checked before values.\<close>

definition checked_header :: "http_lib \<Rightarrow> string \<Rightarrow> string \<Rightarrow> header_map \<Rightarrow> header_map oxi_result" where
  "checked_header lib n v h =
     (case hn_of lib n of Inl e \<Rightarrow> Inl (InvalidHeader e) | Inr k \<Rightarrow> hm_set lib id k v h)"

definition core_header :: "http_lib \<Rightarrow> string \<Rightarrow> string \<Rightarrow> 's core_request_builder \<Rightarrow> 's core_request_builder oxi_result" where
  "core_header lib n v b = map_sum id (\<lambda>h. b\<lparr>rb_headers := h\<rparr>) (checked_header lib n v (rb_headers b))"

definition core_headers :: "header_map \<Rightarrow> 's core_request_builder \<Rightarrow> 's core_request_builder" where
  "core_headers m b = b\<lparr>rb_headers := fold (\<lambda>(k, v). hm_insert k v) m (rb_headers b)\<rparr>"

definition core_body :: "'s body \<Rightarrow> 's core_request_builder \<Rightarrow> 's core_request_builder" where
  "core_body d b = b\<lparr>rb_body := d\<rparr>"

text \<open>\<open>serde_json::to_vec\<close> of the value: its bytes or its error.\<close>

definition core_json :: "string + bytes \<Rightarrow> 's core_request_builder \<Rightarrow> 's core_request_builder oxi_result" where
  "core_json json b =
     (case json of Inl e \<Rightarrow> Inl (JsonErr e)
      | Inr bs \<Rightarrow> Inr (b\<lparr>rb_headers := hm_insert ''content-type'' ''application/json'' (rb_headers b),
                         rb_body := body_full bs\<rparr>))"

definition core_form :: "(string \<Rightarrow> string) \<Rightarrow> form_body \<Rightarrow> 's core_request_builder \<Rightarrow> 's core_request_builder" where
  "core_form enc flds b =
     b\<lparr>rb_headers := hm_insert ''content-type'' ''application/x-www-form-urlencoded'' (rb_headers b),
       rb_body := body_full (form_build enc flds)\<rparr>"

definition core_build :: "http_lib \<Rightarrow> 's core_request_builder \<Rightarrow> 's http_message oxi_result" where
  "core_build lib b =
     (case request_error lib (rb_headers b) of Some e \<Rightarrow> Inl (HttpErr e)
      | None \<Rightarrow> Inr \<lparr>msg_method = rb_method b, msg_uri = rb_uri b, msg_headers = rb_headers b, msg_body = rb_body b\<rparr>)"

subsection \<open>Reading back what was set\<close>

lemma int_error_from_None: "int_error_from w acc s = None \<Longrightarrow> acc < 2 ^ w \<Longrightarrow> \<exists>v. digits_acc 10 acc s = Some v \<and> v < 2 ^ w"
  by (induction s arbitrary: acc) (auto split: option.splits if_splits)

lemma int_error_None:
  assumes "int_error w s = None" shows "\<exists>v. parse_radix 10 w s = Some v"
proof (cases s)
  case (Cons c cs)
  with assms have e: "int_error_from w 0 (if c = CHR ''+'' then cs else s) = None" and ne: "s \<noteq> ''+''"
    by (auto simp: int_error_def split: if_splits)
  from int_error_from_None [OF e] obtain v where "digits_acc 10 0 (if c = CHR ''+'' then cs else s) = Some v" "v < 2 ^ w"
    by auto
  with ne Cons show ?thesis by (auto simp: parse_radix_def Let_def)
qed (use assms in \<open>simp add: int_error_def\<close>)

lemma is_digit_visible: "(\<And>c. c \<in> set s \<Longrightarrow> is_digit c) \<Longrightarrow> visible s"
  by (force simp: visible_def is_digit_def)

lemma show_nat_visible: "visible (show_nat n)"
  by (rule is_digit_visible) (rule show_nat_digits)

lemma visible_digits_trim: "trim (show_nat n) = show_nat n"
  by (rule trim_no_ws) (use show_nat_digits is_digit_not_ws in blast)

lemma decode_Inr_sound: "decode_content_length lib h = Inr n \<Longrightarrow>
    \<exists>v. hm_get ''content-length'' h = Some v \<and> parse_u64 (trim v) = Some n"
  by (auto simp: decode_content_length_def split: option.splits dest!: int_error_None)

text \<open>Credentials and lengths survive the header map: with a library that keeps its documented
  contract, a set content length is read back, the base64 text of the credentials decodes to user
  name, colon and password, a visible token comes back behind its scheme, and no other header
  changes; nothing that is set can contain a line break.\<close>

theorem header_set_get:
  assumes "header_values lib" and "n < 2 ^ 64"
  shows "(\<exists>h'. set_content_length lib n h = Inr h' \<and> hx_content_length lib h' = Some n)
    \<and> (\<exists>h' e. set_basic_auth lib user pw h = Inr h' \<and> hx_authorization lib h' = Some (''Basic '' @ e) \<and>
        base64_decode e = Some (as_bytes (user @ '':'' @ (case pw of Some p \<Rightarrow> p | None \<Rightarrow> ''''))))
    \<and> (visible tok \<longrightarrow> (\<exists>h'. set_bearer_auth lib tok h = Inr h' \<and> hx_authorization lib h' = Some (''Bearer '' @ tok)))
    \<and> (\<forall>h' k. set_basic_auth lib user pw h = Inr h' \<longrightarrow> k \<noteq> ''authorization'' \<longrightarrow> hm_str lib k h' = hm_str lib k h)
    \<and> (\<forall>h'. set_location lib v h = Inr h' \<longrightarrow> CHR 0x0A \<notin> set v \<and> CHR 0x0D \<notin> set v)"
proof (intro conjI)
  note set_get = header_values.set_get [OF assms(1)]
  have p: "parse_u64 (show_nat n) = Some n" using assms(2) by (intro parse_radix_show_base) auto
  then show "\<exists>h'. set_content_length lib n h = Inr h' \<and> hx_content_length lib h' = Some n"
    using set_get [OF show_nat_visible]
    by (auto simp: set_content_length_def hx_content_length_def)
  have v: "visible (''Basic '' @ base64_encode bs)" for bs
    using base64_visible [of bs] by (simp add: visible_def)
  show "\<exists>h' e. set_basic_auth lib user pw h = Inr h' \<and> hx_authorization lib h' = Some (''Basic '' @ e) \<and>
        base64_decode e = Some (as_bytes (user @ '':'' @ (case pw of Some p \<Rightarrow> p | None \<Rightarrow> '''')))"
    unfolding set_basic_auth_def hx_authorization_def Let_def using set_get [OF v]
    by (auto simp: base64_decode_encode as_bytes_def split: option.splits)
  show "visible tok \<longrightarrow> (\<exists>h'. set_bearer_auth lib tok h = Inr h' \<and> hx_authorization lib h' = Some (''Bearer '' @ tok))"
    using set_get [of "''Bearer '' @ tok"] by (auto simp: set_bearer_auth_def hx_authorization_def visible_def)
  show "\<forall>h' k. set_basic_auth lib user pw h = Inr h' \<longrightarrow> k \<noteq> ''authorization'' \<longrightarrow> hm_str lib k h' = hm_str lib k h"
    unfolding set_basic_auth_def Let_def using header_values.set_get_other [OF assms(1)] by blast
  show "\<forall>h'. set_location lib v h = Inr h' \<longrightarrow> CHR 0x0A \<notin> set v \<and> CHR 0x0D \<notin> set v"
    unfolding set_location_def using header_values.set_no_breaks [OF assms(1)] by blast
qed

theorem header_set_get_witness:
  "\<exists>h' e. set_basic_auth std_lib ''user'' (Some ''pass'') [] = Inr h' \<and> hx_authorization std_lib h' = Some (''Basic '' @ e) \<and>
     base64_decode e = Some (as_bytes ''user:pass'')"
  using header_set_get [OF std.header_values_axioms, of 0 "[]" "''user''" "Some ''pass''"] by simp

end
