(* ===== verification/Cookie.thy ===== *)
theory Cookie
  imports Form "HOL-Library.Multiset"
begin

section \<open>Cookies (oxihttp-core cookie.rs)\<close>

text \<open>
  Parsing and printing of cookies, domain and path matching, and the cookie jar. Instants and
  durations are nanoseconds; adding a duration to an instant panics when the seconds leave
  \<open>i64\<close>, as in the standard library, and a panic is \<open>None\<close>. Lower-casing and trimming are those of
  ASCII: header values come through \<open>to_str\<close>, and no keyword compared here has a non-ASCII
  letter that lower-cases to it. \<open>Ipv4Addr\<close> parsing is spelled out; an IPv6 literal contains a
  colon, which the compared host never does.
\<close>

subsection \<open>Cookies\<close>

datatype same_site = Strict | Lax | SameSiteNone

record cookie =
  name :: string
  val :: string
  domain :: "string option"
  cpath :: "string option"
  max_age :: "nat option"
  secure :: bool
  http_only :: bool
  samesite :: "same_site option"
  expires_at :: "nat option"

definition nanos_per_sec :: nat where
  "nanos_per_sec = 1000000000"

definition from_secs :: "nat \<Rightarrow> nat" where
  "from_secs s = s * nanos_per_sec"

definition as_secs :: "nat \<Rightarrow> nat" where
  "as_secs d = d div nanos_per_sec"

definition cookie_new :: "string \<Rightarrow> string \<Rightarrow> cookie" where
  "cookie_new n v = \<lparr>name = n, val = v, domain = None, cpath = None, max_age = None, secure = False,
     http_only = False, samesite = None, expires_at = None\<rparr>"

definition set_domain :: "string \<Rightarrow> cookie \<Rightarrow> cookie" where
  "set_domain d c = c\<lparr>domain := Some d\<rparr>"

definition set_path :: "string \<Rightarrow> cookie \<Rightarrow> cookie" where
  "set_path p c = c\<lparr>cpath := Some p\<rparr>"

definition set_max_age :: "nat \<Rightarrow> cookie \<Rightarrow> cookie" where
  "set_max_age s c = c\<lparr>max_age := Some (from_secs s)\<rparr>"

definition set_secure :: "bool \<Rightarrow> cookie \<Rightarrow> cookie" where
  "set_secure b c = c\<lparr>secure := b\<rparr>"

definition set_http_only :: "bool \<Rightarrow> cookie \<Rightarrow> cookie" where
  "set_http_only b c = c\<lparr>http_only := b\<rparr>"

definition set_same_site :: "same_site \<Rightarrow> cookie \<Rightarrow> cookie" where
  "set_same_site s c = c\<lparr>samesite := Some s\<rparr>"

definition parse_same_site :: "string \<Rightarrow> same_site option" where
  "parse_same_site v =
     (let k = lower v in
      if k = ''strict'' then Some Strict else if k = ''lax'' then Some Lax
      else if k = ''none'' then Some SameSiteNone else None)"

text \<open>One attribute of a \<open>Set-Cookie\<close> value; unknown ones are ignored.\<close>

definition apply_attr :: "string \<Rightarrow> cookie \<Rightarrow> cookie" where
  "apply_attr attr0 c =
     (let attr = trim attr0 in
      if attr = '''' then c
      else case split_once CHR ''='' attr of
        Some (key0, v0) \<Rightarrow>
          (let key = lower (trim key0); v = trim v0 in
           if key = ''domain'' then c\<lparr>domain := Some v\<rparr>
           else if key = ''path'' then c\<lparr>cpath := Some v\<rparr>
           else if key = ''max-age'' then c\<lparr>max_age := map_option from_secs (parse_u64 v)\<rparr>
           else if key = ''samesite'' then c\<lparr>samesite := parse_same_site v\<rparr>
           else c)
      | None \<Rightarrow>
          (let key = lower attr in
           if key = ''secure'' then c\<lparr>secure := True\<rparr>
           else if key = ''httponly'' then c\<lparr>http_only := True\<rparr>
           else c))"

definition parse_set_cookie :: "string \<Rightarrow> cookie option" where
  "parse_set_cookie header =
     (case split_on CHR '';'' header of [] \<Rightarrow> None
      | first # parts \<Rightarrow>
          (case split_once CHR ''='' (trim first) of None \<Rightarrow> None
           | Some (n0, v0) \<Rightarrow>
               (let n = trim n0; v = trim v0 in
                if n = '''' then None else Some (fold apply_attr parts (cookie_new n v)))))"

definition cookie_header :: "cookie \<Rightarrow> string" where
  "cookie_header c = name c @ ''='' @ val c"

fun show_same_site :: "same_site \<Rightarrow> string" where
  "show_same_site Strict = ''; SameSite=Strict''"
| "show_same_site Lax = ''; SameSite=Lax''"
| "show_same_site SameSiteNone = ''; SameSite=None''"

definition cookie_to_string :: "cookie \<Rightarrow> string" where
  "cookie_to_string c =
     name c @ ''='' @ val c
     @ (case domain c of Some d \<Rightarrow> ''; Domain='' @ d | None \<Rightarrow> '''')
     @ (case cpath c of Some p \<Rightarrow> ''; Path='' @ p | None \<Rightarrow> '''')
     @ (case max_age c of Some m \<Rightarrow> ''; Max-Age='' @ show_nat (as_secs m) | None \<Rightarrow> '''')
     @ (if secure c then ''; Secure'' else '''')
     @ (if http_only c then ''; HttpOnly'' else '''')
     @ (case samesite c of Some s \<Rightarrow> show_same_site s | None \<Rightarrow> '''')"

subsection \<open>Matching\<close>

text \<open>\<open>Ipv4Addr\<close> from text: four decimal numbers up to 255, without leading zeros.\<close>

definition is_octet :: "string \<Rightarrow> bool" where
  "is_octet s \<longleftrightarrow> s \<noteq> '''' \<and> list_all is_digit s \<and> length s \<le> 3 \<and> (1 < length s \<longrightarrow> hd s \<noteq> CHR ''0'') \<and>
     (case digits_acc 10 0 s of Some v \<Rightarrow> v \<le> 255 | None \<Rightarrow> False)"

definition is_ipv4 :: "string \<Rightarrow> bool" where
  "is_ipv4 s \<longleftrightarrow> (let parts = split_on CHR ''.'' s in length parts = 4 \<and> list_all is_octet parts)"

definition strip_dot :: "string \<Rightarrow> string" where
  "strip_dot s = (case strip_prefix ''.'' s of Some r \<Rightarrow> r | None \<Rightarrow> s)"

definition domain_match :: "string \<Rightarrow> string \<Rightarrow> bool" where
  "domain_match cookie_domain request_host =
     (let rh_full = lower request_host;
          rh = hd (split_on CHR '':'' rh_full);
          cd = strip_dot (lower cookie_domain)
      in if rh = cd then True
         else if ends_with (''.'' @ cd) rh then \<not> is_ipv4 cd
         else False)"

definition path_match :: "string \<Rightarrow> string \<Rightarrow> bool" where
  "path_match cookie_path request_path =
     (if request_path = cookie_path then True
      else case strip_prefix cookie_path request_path of
        Some remaining \<Rightarrow> starts_with ''/'' remaining \<or> ends_with ''/'' cookie_path
      | None \<Rightarrow> False)"

subsection \<open>The cookie jar\<close>

type_synonym cookie_jar = "cookie list"

definition jar_insert :: "cookie \<Rightarrow> cookie_jar \<Rightarrow> cookie_jar" where
  "jar_insert c jar = filter (\<lambda>d. name d \<noteq> name c) jar @ [c]"

definition jar_get :: "string \<Rightarrow> cookie_jar \<Rightarrow> cookie option" where
  "jar_get n jar = List.find (\<lambda>c. name c = n) jar"

fun jar_remove :: "string \<Rightarrow> cookie_jar \<Rightarrow> cookie option \<times> cookie_jar" where
  "jar_remove n [] = (None, [])"
| "jar_remove n (c # cs) =
     (if name c = n then (Some c, cs) else (case jar_remove n cs of (r, cs') \<Rightarrow> (r, c # cs')))"

definition jar_cookie_header :: "cookie_jar \<Rightarrow> string" where
  "jar_cookie_header jar = join ''; '' (map cookie_header jar)"

definition add_from_set_cookie_headers :: "string list \<Rightarrow> cookie_jar \<Rightarrow> cookie_jar" where
  "add_from_set_cookie_headers hs jar =
     fold (\<lambda>h jar. case parse_set_cookie h of Some c \<Rightarrow> jar_insert c jar | None \<Rightarrow> jar) hs jar"

definition default_path :: "string \<Rightarrow> string" where
  "default_path req_path =
     (case rsplit_once CHR ''/'' req_path of
        Some (pre, _) \<Rightarrow> if pre = '''' then ''/'' else pre
      | None \<Rightarrow> ''/'')"

definition default_domain :: "uri \<Rightarrow> string option \<Rightarrow> string option" where
  "default_domain url d =
     (case d of
        None \<Rightarrow> map_option (\<lambda>host. lower (hd (split_on CHR '':'' host))) (uri_host url)
      | Some d \<Rightarrow> Some (lower (dropWhile (\<lambda>c. c = CHR ''.'') d)))"

definition with_defaults :: "uri \<Rightarrow> cookie \<Rightarrow> cookie" where
  "with_defaults url c =
     c\<lparr>domain := default_domain url (domain c),
       cpath := Some (case cpath c of Some p \<Rightarrow> p | None \<Rightarrow> default_path (uri_path url))\<rparr>"

text \<open>\<open>Instant + Duration\<close>: \<open>None\<close> is the panic on overflow.\<close>

definition instant_add :: "nat \<Rightarrow> nat \<Rightarrow> nat option" where
  "instant_add now dur = (if as_secs (now + dur) < 2 ^ 63 then Some (now + dur) else None)"

definition with_expiry :: "nat \<Rightarrow> cookie \<Rightarrow> cookie option" where
  "with_expiry now c =
     (case max_age c of
        None \<Rightarrow> Some (c\<lparr>expires_at := None\<rparr>)
      | Some dur \<Rightarrow> map_option (\<lambda>t. c\<lparr>expires_at := Some t\<rparr>) (instant_add now dur))"

definition cookie_key :: "cookie \<Rightarrow> string \<times> string option \<times> string option" where
  "cookie_key c = (name c, domain c, cpath c)"

definition insert_for_url :: "nat \<Rightarrow> uri \<Rightarrow> cookie \<Rightarrow> cookie_jar \<Rightarrow> cookie_jar option" where
  "insert_for_url now url c0 jar =
     map_option (\<lambda>c. filter (\<lambda>d. cookie_key d \<noteq> cookie_key c) jar @ [c])
       (with_expiry now (with_defaults url c0))"

definition cookie_matches :: "nat \<Rightarrow> uri \<Rightarrow> cookie \<Rightarrow> bool" where
  "cookie_matches now url c =
     (let host = (case uri_host url of Some h \<Rightarrow> h | None \<Rightarrow> '''');
          cookie_domain = (case domain c of Some d \<Rightarrow> d | None \<Rightarrow> '''');
          cookie_path = (case cpath c of Some p \<Rightarrow> p | None \<Rightarrow> ''/'')
      in if (case expires_at c of Some exp \<Rightarrow> exp \<le> now | None \<Rightarrow> False) then False
         else if secure c \<and> \<not> is_https url then False
         else if cookie_domain \<noteq> '''' \<and> \<not> domain_match cookie_domain host then False
         else path_match cookie_path (uri_path url))"

definition path_len :: "cookie \<Rightarrow> nat" where
  "path_len c = length (case cpath c of Some p \<Rightarrow> p | None \<Rightarrow> ''/'')"

text \<open>\<open>sort_by\<close> is stable, and so is \<open>sort_key\<close>.\<close>

definition cookies_for_url :: "nat \<Rightarrow> uri \<Rightarrow> cookie_jar \<Rightarrow> cookie list" where
  "cookies_for_url now url jar = sort_key (\<lambda>c. - int (path_len c)) (filter (cookie_matches now url) jar)"

definition cookie_header_for_url :: "nat \<Rightarrow> uri \<Rightarrow> cookie_jar \<Rightarrow> string option" where
  "cookie_header_for_url now url jar =
     (let matched = cookies_for_url now url jar in
      if matched = [] then None else Some (join ''; '' (map cookie_header matched)))"

text \<open>The \<open>Set-Cookie\<close> values of a response in order, \<open>None\<close> for one that \<open>to_str\<close> refuses.\<close>

fun add_from_response_headers :: "nat \<Rightarrow> uri \<Rightarrow> string option list \<Rightarrow> cookie_jar \<Rightarrow> cookie_jar option" where
  "add_from_response_headers now url [] jar = Some jar"
| "add_from_response_headers now url (v # vs) jar =
     Option.bind
       (case v of None \<Rightarrow> Some jar
        | Some s \<Rightarrow> (case parse_set_cookie s of Some c \<Rightarrow> insert_for_url now url c jar | None \<Rightarrow> Some jar))
       (add_from_response_headers now url vs)"

subsection \<open>Parsing what was printed\<close>

text \<open>A cookie whose texts survive the syntax: no semicolons, no white space at the ends, a
  non-empty name without an equals sign, and a whole number of seconds that fits \<open>u64\<close>.\<close>

definition plain_text :: "string \<Rightarrow> bool" where
  "plain_text s \<longleftrightarrow> CHR '';'' \<notin> set s \<and> trimmed s"

definition wf_cookie :: "cookie \<Rightarrow> bool" where
  "wf_cookie c \<longleftrightarrow>
     name c \<noteq> '''' \<and> CHR ''='' \<notin> set (name c) \<and> plain_text (name c) \<and> plain_text (val c) \<and>
     (\<forall>d. domain c = Some d \<longrightarrow> plain_text d) \<and> (\<forall>p. cpath c = Some p \<longrightarrow> plain_text p) \<and>
     (\<forall>m. max_age c = Some m \<longrightarrow> (\<exists>s < 2 ^ 64. m = from_secs s)) \<and> expires_at c = None"

text \<open>The attributes in the order in which \<open>Display\<close> writes them.\<close>

definition cookie_attrs :: "cookie \<Rightarrow> string list" where
  "cookie_attrs c =
     (case domain c of Some d \<Rightarrow> [''Domain='' @ d] | None \<Rightarrow> [])
     @ (case cpath c of Some p \<Rightarrow> [''Path='' @ p] | None \<Rightarrow> [])
     @ (case max_age c of Some m \<Rightarrow> [''Max-Age='' @ show_nat (as_secs m)] | None \<Rightarrow> [])
     @ (if secure c then [''Secure''] else [])
     @ (if http_only c then [''HttpOnly''] else [])
     @ (case samesite c of Some s \<Rightarrow> [drop 2 (show_same_site s)] | None \<Rightarrow> [])"

lemma show_same_site_drop: "show_same_site s = ''; '' @ drop 2 (show_same_site s)"
  by (cases s) simp_all

lemma cookie_to_string_attrs:
  "cookie_to_string c = (name c @ ''='' @ val c) @ concat (map (\<lambda>a. CHR '';'' # CHR '' '' # a) (cookie_attrs c))"
  using show_same_site_drop
  by (auto simp: cookie_to_string_def cookie_attrs_def split: option.splits)

lemma split_on_pieces:
  assumes "c \<notin> set p" and "\<forall>a \<in> set ps. c \<notin> set a"
  shows "split_on c (p @ concat (map (\<lambda>a. c # a) ps)) = p # ps"
  using assms
proof (induction ps arbitrary: p)
  case (Cons a ps)
  then show ?case by (simp add: split_on_append)
qed (simp add: split_on_id)

lemma apply_attr_kv:
  assumes "k \<noteq> ''''" and "\<forall>c \<in> set k. \<not> is_ws c \<and> c \<noteq> CHR ''=''" and "trimmed v"
  shows "apply_attr (CHR '' '' # k @ CHR ''='' # v) c =
    (let key = lower k in
     if key = ''domain'' then c\<lparr>domain := Some v\<rparr>
     else if key = ''path'' then c\<lparr>cpath := Some v\<rparr>
     else if key = ''max-age'' then c\<lparr>max_age := map_option from_secs (parse_u64 v)\<rparr>
     else if key = ''samesite'' then c\<lparr>samesite := parse_same_site v\<rparr>
     else c)"
proof -
  let ?a = "k @ CHR ''='' # v"
  have "trimmed ?a" using assms by (cases k) (auto simp: trimmed_def is_ws_def)
  then have "trim ?a = ?a" by (rule trim_trimmed)
  then have t: "trim (CHR '' '' # ?a) = ?a" by (simp add: trim_def trim_by_def is_ws_def)
  have s: "split_once CHR ''='' ?a = Some (k, v)" using assms(2) by (intro split_once_append) auto
  have tk: "trim k = k" by (rule trim_no_ws) (use assms(2) in auto)
  show ?thesis unfolding apply_attr_def Let_def t s option.case prod.case tk trim_trimmed [OF assms(3)] by simp
qed

lemma lower_names:
  "lower ''Domain'' = ''domain''" "lower ''Path'' = ''path''" "lower ''Max-Age'' = ''max-age''"
  "lower ''SameSite'' = ''samesite''" "lower ''Secure'' = ''secure''" "lower ''HttpOnly'' = ''httponly''"
  "lower ''Strict'' = ''strict''" "lower ''Lax'' = ''lax''" "lower ''None'' = ''none''"
  by code_simp+

lemma apply_attr_flag:
  "apply_attr (CHR '' '' # ''Secure'') c = c\<lparr>secure := True\<rparr>"
  "apply_attr (CHR '' '' # ''HttpOnly'') c = c\<lparr>http_only := True\<rparr>"
  by (simp_all add: apply_attr_def trim_def trim_by_def is_ws_def lower_names)

lemma apply_attr_domain: "trimmed v \<Longrightarrow> apply_attr (CHR '' '' # ''Domain='' @ v) c = c\<lparr>domain := Some v\<rparr>"
  using apply_attr_kv [of "''Domain''" v c] by (simp add: is_ws_def lower_names)

lemma apply_attr_path: "trimmed v \<Longrightarrow> apply_attr (CHR '' '' # ''Path='' @ v) c = c\<lparr>cpath := Some v\<rparr>"
  using apply_attr_kv [of "''Path''" v c] by (simp add: is_ws_def lower_names)

lemma trimmed_show_nat: "trimmed (show_nat n)"
proof -
  have ne: "show_nat n \<noteq> []" by simp
  have ws: "\<not> is_ws c" if "c \<in> set (show_nat n)" for c using show_nat_digits [OF that] is_digit_not_ws by blast
  show ?thesis unfolding trimmed_def using ws [OF hd_in_set [OF ne]] ws [OF last_in_set [OF ne]] by blast
qed

lemma apply_attr_max_age:
  assumes "s < 2 ^ 64"
  shows "apply_attr (CHR '' '' # ''Max-Age='' @ show_nat s) c = c\<lparr>max_age := Some (from_secs s)\<rparr>"
  using apply_attr_kv [of "''Max-Age''" "show_nat s" c] trimmed_show_nat [of s] parse_radix_show_base [OF _ _ assms, of 10]
  by (simp add: is_ws_def lower_names)

lemma apply_attr_same_site:
  "apply_attr (CHR '' '' # drop 2 (show_same_site s)) c = c\<lparr>samesite := Some s\<rparr>"
  using apply_attr_kv [of "''SameSite''" "drop 11 (show_same_site s)" c]
  by (cases s) (simp_all add: is_ws_def lower_names trimmed_def parse_same_site_def)

lemma as_secs_from_secs: "as_secs (from_secs s) = s"
  by (simp add: as_secs_def from_secs_def nanos_per_sec_def)

lemma fold_attrs:
  assumes "wf_cookie c"
  shows "fold apply_attr (map (Cons CHR '' '') (cookie_attrs c)) (cookie_new (name c) (val c)) = c"
proof -
  have d: "fold apply_attr (map (Cons CHR '' '') (case domain c of Some d \<Rightarrow> [''Domain='' @ d] | None \<Rightarrow> [])) x =
      (case domain c of Some d \<Rightarrow> x\<lparr>domain := Some d\<rparr> | None \<Rightarrow> x)" for x
    using assms apply_attr_domain by (auto simp: wf_cookie_def plain_text_def split: option.splits)
  have p: "fold apply_attr (map (Cons CHR '' '') (case cpath c of Some d \<Rightarrow> [''Path='' @ d] | None \<Rightarrow> [])) x =
      (case cpath c of Some d \<Rightarrow> x\<lparr>cpath := Some d\<rparr> | None \<Rightarrow> x)" for x
    using assms apply_attr_path by (auto simp: wf_cookie_def plain_text_def split: option.splits)
  have m: "fold apply_attr (map (Cons CHR '' '')
        (case max_age c of Some m \<Rightarrow> [''Max-Age='' @ show_nat (as_secs m)] | None \<Rightarrow> [])) x =
      (case max_age c of Some m \<Rightarrow> x\<lparr>max_age := Some m\<rparr> | None \<Rightarrow> x)" for x
    using assms apply_attr_max_age by (auto simp: wf_cookie_def as_secs_from_secs split: option.splits)
  have s: "fold apply_attr (map (Cons CHR '' '') (case samesite c of Some s \<Rightarrow> [drop 2 (show_same_site s)] | None \<Rightarrow> [])) x =
      (case samesite c of Some s \<Rightarrow> x\<lparr>samesite := Some s\<rparr> | None \<Rightarrow> x)" for x
    by (auto simp: apply_attr_same_site split: option.splits)
  have e: "expires_at c = None" using assms by (simp add: wf_cookie_def)
  show ?thesis
    unfolding cookie_attrs_def map_append fold_append comp_apply d p m s
    using e by (cases c) (auto simp: cookie_new_def apply_attr_flag split: option.splits)
qed

lemma cookie_attrs_no_semicolon:
  assumes "wf_cookie c" and "a \<in> set (cookie_attrs c)"
  shows "CHR '';'' \<notin> set a"
proof -
  have "CHR '';'' \<notin> set (show_nat n)" for n using show_nat_digits [of "CHR '';''" n] by (auto simp: is_digit_def)
  moreover have "CHR '';'' \<notin> set (drop 2 (show_same_site s))" for s by (cases s) auto
  ultimately show ?thesis
    using assms by (auto simp: cookie_attrs_def wf_cookie_def plain_text_def split: option.splits if_splits)
qed

text \<open>C24. Cookies survive the wire: parsing the \<open>Display\<close> text of a well-formed cookie gives the
  cookie back, with every attribute that was set and none that was not.\<close>

theorem cookie_roundtrip:
  assumes "wf_cookie c"
  shows "parse_set_cookie (cookie_to_string c) = Some c"
proof -
  let ?f = "name c @ ''='' @ val c"
  have nv: "name c \<noteq> ''''" "CHR ''='' \<notin> set (name c)" "trimmed (name c)" "trimmed (val c)" "CHR '';'' \<notin> set ?f"
    using assms by (auto simp: wf_cookie_def plain_text_def)
  have "split_on CHR '';'' (cookie_to_string c) = ?f # map (Cons CHR '' '') (cookie_attrs c)"
    using split_on_pieces [of "CHR '';''" ?f "map (Cons CHR '' '') (cookie_attrs c)"]
      nv(5) cookie_attrs_no_semicolon [OF assms]
    by (simp add: cookie_to_string_attrs comp_def)
  moreover have "trimmed ?f" using nv(1,3,4) by (auto simp: trimmed_def is_ws_def)
  then have "trim ?f = ?f" by (rule trim_trimmed)
  moreover have "split_once CHR ''='' ?f = Some (name c, val c)"
    using split_once_append [OF nv(2)] by simp
  ultimately show ?thesis
    by (simp add: parse_set_cookie_def trim_trimmed nv fold_attrs [OF assms])
qed

theorem cookie_roundtrip_witness:
  "parse_set_cookie (cookie_to_string (set_max_age 60 (set_secure True (set_path ''/a'' (cookie_new ''sid'' ''x=1''))))) =
     Some (set_max_age 60 (set_secure True (set_path ''/a'' (cookie_new ''sid'' ''x=1''))))"
proof (rule cookie_roundtrip)
  have "\<exists>s<2 ^ 64. from_secs 60 = from_secs s" by (intro exI [of _ 60]) simp
  then show "wf_cookie (set_max_age 60 (set_secure True (set_path ''/a'' (cookie_new ''sid'' ''x=1''))))"
    by (simp add: wf_cookie_def cookie_new_def set_max_age_def set_secure_def set_path_def plain_text_def
        trimmed_def is_ws_def)
qed

subsection \<open>The jar: invariant and refinement\<close>

text \<open>The abstract jar: at most one cookie for each name, domain and path.\<close>

definition jar_inv :: "cookie_jar \<Rightarrow> bool" where
  "jar_inv jar \<longleftrightarrow> distinct (map cookie_key jar)"

definition jar_map :: "cookie_jar \<Rightarrow> (string \<times> string option \<times> string option) \<rightharpoonup> cookie" where
  "jar_map jar = map_of (map (\<lambda>c. (cookie_key c, c)) jar)"

named_theorems jar_intros \<open>preservation of the jar invariant\<close>

lemma jar_inv_filter [jar_intros]: "jar_inv jar \<Longrightarrow> jar_inv (filter P jar)"
  by (simp add: jar_inv_def distinct_map_filter)

lemma jar_inv_insert [jar_intros]: "jar_inv jar \<Longrightarrow> jar_inv (jar_insert c jar)"
  unfolding jar_insert_def using jar_inv_filter [of jar "\<lambda>d. name d \<noteq> name c"]
  by (auto simp: jar_inv_def cookie_key_def)

lemma jar_remove_set: "set (snd (jar_remove n jar)) \<subseteq> set jar"
  by (induction jar) (auto split: prod.splits)

lemma jar_inv_remove [jar_intros]: "jar_inv jar \<Longrightarrow> jar_inv (snd (jar_remove n jar))"
proof (induction jar)
  case (Cons c cs)
  then show ?case
    using jar_remove_set [of n cs] by (auto simp: jar_inv_def split: prod.splits)
qed (simp add: jar_inv_def)

lemma insert_for_url_Some:
  assumes "insert_for_url now url c jar = Some jar'"
  obtains c' where "with_expiry now (with_defaults url c) = Some c'"
    "jar' = filter (\<lambda>d. cookie_key d \<noteq> cookie_key c') jar @ [c']"
  using assms by (auto simp: insert_for_url_def)

lemma jar_inv_insert_for_url [jar_intros]:
  "insert_for_url now url c jar = Some jar' \<Longrightarrow> jar_inv jar \<Longrightarrow> jar_inv jar'"
  by (erule insert_for_url_Some) (auto simp: jar_inv_def distinct_map_filter)

lemma jar_inv_add_headers [jar_intros]: "jar_inv jar \<Longrightarrow> jar_inv (add_from_set_cookie_headers hs jar)"
  unfolding add_from_set_cookie_headers_def
  by (induction hs arbitrary: jar) (auto intro: jar_intros split: option.splits)

lemma jar_inv_add_response [jar_intros]:
  "add_from_response_headers now url vs jar = Some jar' \<Longrightarrow> jar_inv jar \<Longrightarrow> jar_inv jar'"
proof (induction vs arbitrary: jar)
  case (Cons v vs)
  from Cons.prems(1) obtain j where
    j: "(case v of None \<Rightarrow> Some jar
        | Some s \<Rightarrow> (case parse_set_cookie s of Some c \<Rightarrow> insert_for_url now url c jar | None \<Rightarrow> Some jar)) = Some j"
    and "add_from_response_headers now url vs j = Some jar'"
    by (auto simp: bind_eq_Some_conv)
  moreover have "jar_inv j" using j Cons.prems(2)
    by (auto intro: jar_intros split: option.splits)
  ultimately show ?case using Cons.IH by blast
qed simp

text \<open>C21. The jar invariant: no operation ever leaves two cookies with the same name, domain and path
  in the jar, whatever the headers of the servers say.\<close>

theorem jar_invariant:
  assumes "jar_inv jar"
  shows "jar_inv (jar_insert c jar) \<and> jar_inv (snd (jar_remove n jar))
    \<and> jar_inv (add_from_set_cookie_headers hs jar)
    \<and> (\<forall>jar'. insert_for_url now url c jar = Some jar' \<longrightarrow> jar_inv jar')
    \<and> (\<forall>jar'. add_from_response_headers now url vs jar = Some jar' \<longrightarrow> jar_inv jar')"
  using assms by (auto intro: jar_intros)

theorem jar_invariant_witness: "jar_inv (add_from_set_cookie_headers [''a=1'', ''a=2''] [])"
  using jar_invariant [of "[]" "cookie_new ''a'' ''1''" "''a''" "[''a=1'', ''a=2'']"] by (simp add: jar_inv_def)

lemma jar_map_filter_key: "jar_map (filter (\<lambda>d. cookie_key d \<noteq> k) jar) = (jar_map jar)(k := None)"
  by (induction jar) (auto simp: jar_map_def fun_eq_iff)

text \<open>C22. Refinement: on the abstract map from name, domain and path to cookies, storing a cookie for a
  URL is one map update, with the caller's cookie unchanged in its name, value, \<open>Secure\<close>, \<open>HttpOnly\<close>,
  \<open>SameSite\<close> and \<open>Max-Age\<close>, and with the default domain and path of the URL and the absolute expiry
  time; every other cookie stays. The update happens exactly when the expiry time fits an
  \<open>Instant\<close>; otherwise, and only then, the addition panics.\<close>

theorem insert_for_url_refines:
  "(insert_for_url now url c jar = None \<longleftrightarrow> (\<exists>m. max_age c = Some m \<and> 2 ^ 63 \<le> as_secs (now + m))) \<and>
   (\<forall>jar'. insert_for_url now url c jar = Some jar' \<longrightarrow>
      (let c' = c\<lparr>domain := default_domain url (domain c),
                 cpath := Some (case cpath c of Some p \<Rightarrow> p | None \<Rightarrow> default_path (uri_path url)),
                 expires_at := map_option (\<lambda>m. now + m) (max_age c)\<rparr>
       in jar_map jar' = (jar_map jar)(cookie_key c' \<mapsto> c')))"
proof (intro conjI allI impI)
  show "insert_for_url now url c jar = None \<longleftrightarrow> (\<exists>m. max_age c = Some m \<and> 2 ^ 63 \<le> as_secs (now + m))"
    by (auto simp: insert_for_url_def with_expiry_def with_defaults_def instant_add_def split: option.splits)
next
  fix jar' assume i: "insert_for_url now url c jar = Some jar'"
  let ?c = "c\<lparr>domain := default_domain url (domain c),
                 cpath := Some (case cpath c of Some p \<Rightarrow> p | None \<Rightarrow> default_path (uri_path url)),
                 expires_at := map_option (\<lambda>m. now + m) (max_age c)\<rparr>"
  have e: "with_expiry now (with_defaults url c) = Some ?c"
    using i by (auto simp: insert_for_url_def with_expiry_def with_defaults_def instant_add_def split: option.splits if_splits)
  have app: "jar_map (xs @ [x]) = (\<lambda>k. case jar_map xs k of None \<Rightarrow> if k = cookie_key x then Some x else None | Some y \<Rightarrow> Some y)"
    for xs :: cookie_jar and x
    by (auto simp: jar_map_def map_add_def fun_eq_iff split: option.splits)
  have "jar' = filter (\<lambda>d. cookie_key d \<noteq> cookie_key ?c) jar @ [?c]"
    using i by (simp only: insert_for_url_def e option.map option.inject)
  then have "jar_map jar' = (jar_map jar)(cookie_key ?c \<mapsto> ?c)"
    unfolding app jar_map_filter_key by (auto simp: fun_eq_iff app jar_map_filter_key split: option.splits)
  then show "let c' = ?c in jar_map jar' = (jar_map jar)(cookie_key c' \<mapsto> c')" by (simp only: Let_def)
qed

theorem insert_for_url_refines_witness:
  "\<exists>jar'. insert_for_url 5 \<lparr>uri_scheme = Some ''https'', uri_authority = Some ''a.org'', uri_host = Some ''a.org'',
     uri_port = None, uri_path = ''/x/y'', uri_query = None\<rparr> (set_max_age 60 (cookie_new ''n'' ''v'')) [] = Some jar'"
  using insert_for_url_refines [of 5 _ "set_max_age 60 (cookie_new ''n'' ''v'')" "[]", THEN conjunct1]
  by (auto simp: set_max_age_def cookie_new_def from_secs_def as_secs_def nanos_per_sec_def)

subsection \<open>Selection of cookies for a request\<close>







text \<open>A response may set cookies for any domain: nothing compares the \<open>Domain\<close> attribute with the
  host that sent it, so a cookie that any server sets for \<open>d\<close> is sent to \<open>d\<close> afterwards.\<close>

theorem foreign_domain_cookie:
  assumes "insert_for_url now url c jar = Some jar'" and "domain c = Some d"
    and "lower d = d" and "CHR '':'' \<notin> set d" and "d \<noteq> ''''" and "hd d \<noteq> CHR ''.''"
    and "cpath c = Some ''/''" and "max_age c = None" and "secure c = False"
    and "uri_host victim = Some d" and "uri_path victim = ''/''"
  shows "\<exists>c' \<in> set (cookies_for_url later victim jar'). name c' = name c \<and> val c' = val c \<and> domain c' = Some d"
proof -
  have d: "dropWhile (\<lambda>c. c = CHR ''.'') d = d" using assms(5,6) by (cases d) auto
  let ?c = "c\<lparr>domain := Some d, cpath := Some ''/'', expires_at := None\<rparr>"
  have jar: "?c \<in> set jar'"
    using assms(1,2,3,7,8) d
    by (auto simp: insert_for_url_def with_expiry_def with_defaults_def default_domain_def)
  have "domain_match d d"
    using assms(3-6) by (cases d) (auto simp: domain_match_def split_on_id strip_dot_def strip_prefix_def)
  then have "cookie_matches later victim ?c"
    using assms(9-11) by (auto simp: cookie_matches_def path_match_def)
  with jar have "?c \<in> set (cookies_for_url later victim jar')" by (simp add: cookies_for_url_def)
  then show ?thesis by (intro bexI [of _ ?c]) simp_all
qed

theorem foreign_domain_cookie_witness:
  "\<exists>jar' c'. insert_for_url 0 \<lparr>uri_scheme = None, uri_authority = None, uri_host = Some ''evil.org'',
       uri_port = None, uri_path = ''/'', uri_query = None\<rparr> (set_path ''/'' (set_domain ''bank.com'' (cookie_new ''sid'' ''x''))) [] = Some jar'
     \<and> c' \<in> set (cookies_for_url 1 \<lparr>uri_scheme = Some ''https'', uri_authority = None, uri_host = Some ''bank.com'',
       uri_port = None, uri_path = ''/'', uri_query = None\<rparr> jar') \<and> val c' = ''x''"
proof -
  let ?c = "set_path ''/'' (set_domain ''bank.com'' (cookie_new ''sid'' ''x''))"
  let ?evil = "\<lparr>uri_scheme = None, uri_authority = None, uri_host = Some ''evil.org'', uri_port = None, uri_path = ''/'', uri_query = None\<rparr>"
  let ?bank = "\<lparr>uri_scheme = Some ''https'', uri_authority = None, uri_host = Some ''bank.com'', uri_port = None, uri_path = ''/'', uri_query = None\<rparr>"
  have c: "domain ?c = Some ''bank.com''" "cpath ?c = Some ''/''" "max_age ?c = None" "secure ?c = False" "val ?c = ''x''"
    by (simp_all add: set_path_def set_domain_def cookie_new_def)
  obtain jar' where j: "insert_for_url 0 ?evil ?c [] = Some jar'"
    by (auto simp: insert_for_url_def with_expiry_def with_defaults_def c)
  have l: "lower ''bank.com'' = ''bank.com''" by code_simp
  from foreign_domain_cookie [OF j c(1) l _ _ _ c(2-4), of ?bank 1] j c(5) show ?thesis by auto
qed

text \<open>A server can stop the client with one header: \<open>Max-Age\<close> is read as any \<open>u64\<close>, but adding it
  to the clock panics when the seconds leave \<open>i64\<close>; this happens for every current time.\<close>

lemma huge_max_age: "insert_for_url now url (c\<lparr>max_age := Some (from_secs 18446744073709551615)\<rparr>) jar = None"
proof -
  have "2 ^ 63 \<le> as_secs (now + from_secs 18446744073709551615)"
    by (simp add: as_secs_def from_secs_def nanos_per_sec_def)
  then have "instant_add now (from_secs 18446744073709551615) = None" by (simp add: instant_add_def)
  then show ?thesis by (simp add: insert_for_url_def with_expiry_def with_defaults_def)
qed

lemma huge_max_age_header:
  "add_from_response_headers now url [Some ''a=b; Max-Age=18446744073709551615''] jar = None"
proof -
  have "parse_set_cookie ''a=b; Max-Age=18446744073709551615'' =
      Some (cookie_new ''a'' ''b''\<lparr>max_age := Some (from_secs 18446744073709551615)\<rparr>)"
    by (simp add: parse_set_cookie_def trim_def trim_by_def is_ws_def apply_attr_def Let_def
        lower_names parse_radix_def digit_of_def)
  then show ?thesis by (simp add: huge_max_age)
qed

end
