(* ===== verification/ClientResponse.thy ===== *)
theory ClientResponse
  imports Gzip TypedHeaders Cookie
begin

section \<open>Responses as the client sees them (oxihttp-client lib.rs)\<close>

text \<open>
  \<open>Response\<close> with its accessors and the consumers of its body, and the stream of its chunks. The
  body of \<open>hyper\<close> is a frame poller as in the router. The Cargo feature \<open>decompression\<close> is the flag
  \<open>feature\<close>; \<open>codecs\<close> collects the parameters of the decoders.
\<close>

definition DEFAULT_MAX_RESPONSE_BODY :: nat where
  "DEFAULT_MAX_RESPONSE_BODY = 64 * 1024 * 1024"

record 'i client_response =
  cr_inner :: "'i response"
  cr_decompress :: bool
  cr_max_body :: nat

definition cr_status :: "'i client_response \<Rightarrow> nat" where
  "cr_status r = resp_status (cr_inner r)"

definition cr_header :: "http_lib \<Rightarrow> string \<Rightarrow> 'i client_response \<Rightarrow> string option" where
  "cr_header lib n r = hm_str lib n (resp_headers (cr_inner r))"

definition cr_content_length :: "http_lib \<Rightarrow> 'i client_response \<Rightarrow> nat option" where
  "cr_content_length lib r = Option.bind (hm_str lib ''content-length'' (resp_headers (cr_inner r))) parse_u64"

definition cr_content_type :: "http_lib \<Rightarrow> 'i client_response \<Rightarrow> string option" where
  "cr_content_type lib r = hm_str lib ''content-type'' (resp_headers (cr_inner r))"

definition cr_cookies :: "http_lib \<Rightarrow> 'i client_response \<Rightarrow> cookie list" where
  "cr_cookies lib r =
     List.map_filter parse_set_cookie (List.map_filter (to_str lib) (hm_get_all ''set-cookie'' (resp_headers (cr_inner r))))"

definition is_client_error :: "nat \<Rightarrow> bool" where
  "is_client_error st \<longleftrightarrow> 400 \<le> st \<and> st < 500"

definition is_server_error :: "nat \<Rightarrow> bool" where
  "is_server_error st \<longleftrightarrow> 500 \<le> st \<and> st < 600"

text \<open>The table of reason phrases of the \<open>http\<close> crate is the parameter \<open>reason\<close>.\<close>

definition error_for_status :: "(nat \<Rightarrow> string option) \<Rightarrow> 'i client_response \<Rightarrow> 'i client_response oxi_result" where
  "error_for_status reason r =
     (let st = cr_status r in
      if is_client_error st \<or> is_server_error st then
        Inl (BodyErr (''HTTP error: '' @ show_nat st @ '' '' @ (case reason st of Some t \<Rightarrow> t | None \<Rightarrow> ''Unknown'')))
      else Inr r)"

subsection \<open>Reading the body\<close>

definition response_too_large :: "nat \<Rightarrow> string" where
  "response_too_large mx = ''response body too large: exceeds limit of '' @ show_nat mx @ '' bytes''"

definition collect_response_limited :: "'s frame_poller \<Rightarrow> nat \<Rightarrow> 's \<Rightarrow> bytes oxi_result option" where
  "collect_response_limited nxt mx s = collect_limited (response_too_large mx) nxt mx s []"

record codecs =
  feature_decompression :: bool
  codec_zlib :: inflater
  codec_inflate :: inflater
  codec_crc32 :: "bytes \<Rightarrow> u32"

definition decompression_feature_missing_error :: "string \<Rightarrow> oxi_error" where
  "decompression_feature_missing_error encoding =
     BodyErr (''response Content-Encoding is '' @ [CHR 0x27] @ encoding @ [CHR 0x27]
       @ '' but this build of oxihttp-client does not have the '' @ [CHR 0x27] @ ''decompression'' @ [CHR 0x27]
       @ '' feature enabled, so it cannot decode the body; rebuild with the '' @ [CHR 0x27] @ ''decompression'' @ [CHR 0x27]
       @ '' feature, or call ClientBuilder::with_decompression(false) so Accept-Encoding is not advertised to the server'')"

definition decode_body :: "codecs \<Rightarrow> bool \<Rightarrow> string option \<Rightarrow> nat \<Rightarrow> bytes \<Rightarrow> bytes oxi_result" where
  "decode_body cs decompress ce cap raw =
     (if decompress then
        (if ce = Some ''gzip'' then
           (if feature_decompression cs then bounded_gzip_decompress (codec_inflate cs) (codec_crc32 cs) raw cap
            else Inl (decompression_feature_missing_error ''gzip''))
         else if ce = Some ''deflate'' then
           (if feature_decompression cs then bounded_deflate_decompress (codec_zlib cs) (codec_inflate cs) raw cap
            else Inl (decompression_feature_missing_error ''deflate''))
         else Inr raw)
      else Inr raw)"

definition response_body_bytes ::
  "http_lib \<Rightarrow> codecs \<Rightarrow> 's frame_poller \<Rightarrow> 's client_response \<Rightarrow> bytes oxi_result option" where
  "response_body_bytes lib cs nxt r =
     (let cap = cr_max_body r;
          ce = map_option lower (hm_str lib ''content-encoding'' (resp_headers (cr_inner r)))
      in map_option (\<lambda>res. rbind res (decode_body cs (cr_decompress r) ce cap))
           (collect_response_limited nxt cap (resp_body (cr_inner r))))"

definition response_body_text ::
  "http_lib \<Rightarrow> codecs \<Rightarrow> 's frame_poller \<Rightarrow> 's client_response \<Rightarrow> string oxi_result option" where
  "response_body_text lib cs nxt r =
     map_option (\<lambda>res. rbind res (\<lambda>bs. map_sum (\<lambda>e. BodyErr (''invalid UTF-8: '' @ e)) id (from_utf8 bs)))
       (response_body_bytes lib cs nxt r)"

text \<open>\<open>serde_json::from_slice\<close> is the parameter \<open>parse\<close>.\<close>

definition response_body_json ::
  "http_lib \<Rightarrow> codecs \<Rightarrow> (bytes \<Rightarrow> string + 'j) \<Rightarrow> 's frame_poller \<Rightarrow> 's client_response \<Rightarrow> 'j oxi_result option" where
  "response_body_json lib cs parse nxt r =
     map_option (\<lambda>res. rbind res (\<lambda>bs. map_sum JsonErr id (parse bs))) (response_body_bytes lib cs nxt r)"

text \<open>\<open>BodyStream::poll_next\<close>: frames that carry no data are skipped.\<close>

partial_function (option) body_stream_next :: "'s frame_poller \<Rightarrow> 's \<Rightarrow> ('s \<times> polled) option" where
  "body_stream_next nxt s =
     (case nxt s of (s', p) \<Rightarrow>
       (case p of Pending \<Rightarrow> Some (s', Pending)
        | Ready r \<Rightarrow> (case r of None \<Rightarrow> Some (s', Ready None)
          | Some item \<Rightarrow> (case item of Inl e \<Rightarrow> Some (s', Ready (Some (Inl (BodyErr e))))
            | Inr frame \<Rightarrow> (case frame of
                FData data \<Rightarrow> Some (s', Ready (Some (Inr data)))
              | FTrailers \<Rightarrow> body_stream_next nxt s')))))"

lemma decode_body_length:
  assumes "bounded_inflater (codec_inflate cs)" and "bounded_inflater (codec_zlib cs)"
    and "decode_body cs dec ce cap raw = Inr d" and "length raw \<le> cap"
  shows "length d \<le> cap"
  using assms(3,4) bounded_inflater.gzip_length [OF assms(1)]
    bounded_inflater.bounded_length [OF or_else_in_place [OF assms(2,1)]]
  by (auto simp: decode_body_def bounded_deflate_decompress_def split: if_splits)

lemma response_body_bytes_Some:
  "response_body_bytes lib cs nxt r = Some (Inr d) \<longleftrightarrow>
     (\<exists>raw. collect_response_limited nxt (cr_max_body r) (resp_body (cr_inner r)) = Some (Inr raw) \<and>
       decode_body cs (cr_decompress r)
         (map_option lower (hm_str lib ''content-encoding'' (resp_headers (cr_inner r)))) (cr_max_body r) raw = Inr d)"
  by (auto simp: response_body_bytes_def Let_def rbind_Inr)

lemma collect_within:
  "collect_all nxt s [] = Some (Inr raw) \<Longrightarrow> length raw \<le> cap \<Longrightarrow> collect_response_limited nxt cap s = Some (Inr raw)"
  using collect_all_limited [of nxt s "[]" "Inr raw" cap "response_too_large cap"]
  by (auto simp: collect_response_limited_def)

text \<open>C18. A response is never larger in memory than the client allows: no body that the client returns,
  decompressed or not, is longer than the limit; a wire body over the limit is refused with the
  limit error; without the decoders compiled in, a body marked \<open>gzip\<close> or \<open>deflate\<close>, in any case of the
  letters, is the error that names the missing feature, never handed out as if it were plain; and any
  other body, under no coding, under another one, or with decompression switched off, comes as it is
  on the wire. The inflater is assumed to write into the buffer it is given.\<close>

theorem response_body_bounded:
  assumes "bounded_inflater (codec_inflate cs)" and "bounded_inflater (codec_zlib cs)"
  shows "(\<forall>d. response_body_bytes lib cs nxt r = Some (Inr d) \<longrightarrow> length d \<le> cr_max_body r)
    \<and> (\<forall>raw. collect_all nxt (resp_body (cr_inner r)) [] = Some (Inr raw) \<longrightarrow> cr_max_body r < length raw \<longrightarrow>
        response_body_bytes lib cs nxt r = Some (Inl (BodyErr (response_too_large (cr_max_body r)))))
    \<and> (\<forall>v. \<not> feature_decompression cs \<longrightarrow> cr_decompress r \<longrightarrow>
        hm_str lib ''content-encoding'' (resp_headers (cr_inner r)) = Some v \<longrightarrow> lower v \<in> {''gzip'', ''deflate''} \<longrightarrow>
        (\<nexists>d. response_body_bytes lib cs nxt r = Some (Inr d)) \<and>
        (\<forall>raw. collect_all nxt (resp_body (cr_inner r)) [] = Some (Inr raw) \<longrightarrow> length raw \<le> cr_max_body r \<longrightarrow>
           response_body_bytes lib cs nxt r = Some (Inl (decompression_feature_missing_error (lower v)))))
    \<and> (\<forall>raw. collect_all nxt (resp_body (cr_inner r)) [] = Some (Inr raw) \<longrightarrow> length raw \<le> cr_max_body r \<longrightarrow>
        \<not> cr_decompress r \<or> map_option lower (hm_str lib ''content-encoding'' (resp_headers (cr_inner r))) \<notin> {Some ''gzip'', Some ''deflate''} \<longrightarrow>
        response_body_bytes lib cs nxt r = Some (Inr raw))"
proof (intro conjI allI impI)
  fix d assume "response_body_bytes lib cs nxt r = Some (Inr d)"
  then obtain raw where raw: "collect_response_limited nxt (cr_max_body r) (resp_body (cr_inner r)) = Some (Inr raw)"
    and d: "decode_body cs (cr_decompress r) (map_option lower (hm_str lib ''content-encoding'' (resp_headers (cr_inner r))))
      (cr_max_body r) raw = Inr d"
    unfolding response_body_bytes_Some by blast
  from raw have "length raw \<le> cr_max_body r"
    unfolding collect_response_limited_def using collect_limited_bound by fastforce
  with d show "length d \<le> cr_max_body r" by (rule decode_body_length [OF assms])
next
  fix raw assume c: "collect_all nxt (resp_body (cr_inner r)) [] = Some (Inr raw)" and "cr_max_body r < length raw"
  then have "collect_response_limited nxt (cr_max_body r) (resp_body (cr_inner r)) =
      Some (Inl (BodyErr (response_too_large (cr_max_body r))))"
    using collect_all_limited [OF c, of "cr_max_body r" "response_too_large (cr_max_body r)"]
    by (simp add: collect_response_limited_def)
  then show "response_body_bytes lib cs nxt r = Some (Inl (BodyErr (response_too_large (cr_max_body r))))"
    by (simp add: response_body_bytes_def)
next
  fix v assume m: "\<not> feature_decompression cs" "cr_decompress r"
    "hm_str lib ''content-encoding'' (resp_headers (cr_inner r)) = Some v" "lower v \<in> {''gzip'', ''deflate''}"
  then have e: "decode_body cs (cr_decompress r) (map_option lower (hm_str lib ''content-encoding'' (resp_headers (cr_inner r)))) cap raw
      = Inl (decompression_feature_missing_error (lower v))" for cap raw
    by (auto simp: decode_body_def)
  then show "\<nexists>d. response_body_bytes lib cs nxt r = Some (Inr d)" by (simp add: response_body_bytes_Some)
  fix raw assume "collect_all nxt (resp_body (cr_inner r)) [] = Some (Inr raw)" "length raw \<le> cr_max_body r"
  with e show "response_body_bytes lib cs nxt r = Some (Inl (decompression_feature_missing_error (lower v)))"
    by (simp add: response_body_bytes_def collect_within)
next
  fix raw assume raw: "collect_all nxt (resp_body (cr_inner r)) [] = Some (Inr raw)" "length raw \<le> cr_max_body r"
    and ce: "\<not> cr_decompress r \<or> map_option lower (hm_str lib ''content-encoding'' (resp_headers (cr_inner r))) \<notin> {Some ''gzip'', Some ''deflate''}"
  have "decode_body cs (cr_decompress r) (map_option lower (hm_str lib ''content-encoding'' (resp_headers (cr_inner r))))
      (cr_max_body r) raw = Inr raw" using ce by (auto simp: decode_body_def)
  with raw show "response_body_bytes lib cs nxt r = Some (Inr raw)"
    by (simp add: response_body_bytes_def Let_def collect_within)
qed

theorem response_body_bounded_witness:
  "response_body_bytes std_lib \<lparr>feature_decompression = True, codec_zlib = stored, codec_inflate = stored, codec_crc32 = (\<lambda>d. 0)\<rparr>
     list_frames \<lparr>cr_inner = \<lparr>resp_status = 200, resp_headers = [], resp_body = [Inr (FData [1, 2]), Inr (FData [3])]\<rparr>,
       cr_decompress = True, cr_max_body = 2\<rparr> = Some (Inl (BodyErr (response_too_large 2)))"
proof -
  let ?cs = "\<lparr>feature_decompression = True, codec_zlib = stored, codec_inflate = stored, codec_crc32 = (\<lambda>d. 0)\<rparr>"
  let ?r = "\<lparr>cr_inner = \<lparr>resp_status = 200, resp_headers = [], resp_body = [Inr (FData [1, 2]), Inr (FData [3])]\<rparr>,
       cr_decompress = True, cr_max_body = 2\<rparr>"
  have "collect_all list_frames [Inr (FData [1, 2]), Inr (FData [3])] [] = Some (Inr [1, 2, 3])"
    by (simp add: collect_all_eqs)
  then show ?thesis
    using response_body_bounded [of ?cs std_lib list_frames ?r] stored_copy.bounded_inflater_axioms by simp
qed

end
