(* ===== verification/Respond.thy ===== *)
theory Respond
  imports ClientResponse
begin

section \<open>Responses and their compression (oxihttp-server response.rs, compression.rs, extractor.rs)\<close>

text \<open>
  The response helpers, the negotiation of a content coding, the compression of a response and the
  extractor of typed headers. The compressors are parameters; the main property composes them with the
  reader of the client. \<open>serde_json::to_vec\<close> is a parameter too.
\<close>

subsection \<open>Response helpers\<close>

definition simple_response :: "http_lib \<Rightarrow> nat \<Rightarrow> string \<Rightarrow> bytes \<Rightarrow> bytes response oxi_result" where
  "simple_response lib st ctype b = build_response (hv_error lib) st [(''content-type'', ctype)] b"

definition json_response_with_status ::
  "http_lib \<Rightarrow> ('j \<Rightarrow> string + bytes) \<Rightarrow> nat \<Rightarrow> 'j \<Rightarrow> bytes response oxi_result" where
  "json_response_with_status lib to_vec st v =
     rbind (map_sum JsonErr id (to_vec v)) (\<lambda>b. simple_response lib st ''application/json'' b)"

definition json_response :: "http_lib \<Rightarrow> ('j \<Rightarrow> string + bytes) \<Rightarrow> 'j \<Rightarrow> bytes response oxi_result" where
  "json_response lib to_vec v = json_response_with_status lib to_vec 200 v"

definition text_response :: "http_lib \<Rightarrow> string \<Rightarrow> bytes response oxi_result" where
  "text_response lib b = simple_response lib 200 ''text/plain; charset=utf-8'' (as_bytes b)"

definition html_response :: "http_lib \<Rightarrow> string \<Rightarrow> bytes response oxi_result" where
  "html_response lib b = simple_response lib 200 ''text/html; charset=utf-8'' (as_bytes b)"

definition redirect_response :: "http_lib \<Rightarrow> string \<Rightarrow> bytes response oxi_result" where
  "redirect_response lib location = build_response (hv_error lib) 302 [(''location'', location)] []"

definition empty_response :: "nat \<Rightarrow> bytes response oxi_result" where
  "empty_response st = Inr \<lparr>resp_status = st, resp_headers = [], resp_body = []\<rparr>"

definition no_content :: "bytes response oxi_result" where
  "no_content = empty_response 204"

definition bad_request :: "http_lib \<Rightarrow> string \<Rightarrow> bytes response oxi_result" where
  "bad_request lib msg = simple_response lib 400 ''text/plain; charset=utf-8'' (as_bytes msg)"

definition internal_error :: "http_lib \<Rightarrow> string \<Rightarrow> bytes response oxi_result" where
  "internal_error lib msg = simple_response lib 500 ''text/plain; charset=utf-8'' (as_bytes msg)"

definition form_response :: "http_lib \<Rightarrow> (string \<Rightarrow> string) \<Rightarrow> form_body \<Rightarrow> bytes response oxi_result" where
  "form_response lib enc b = simple_response lib 200 ''application/x-www-form-urlencoded'' (form_build enc b)"

subsection \<open>Extractors\<close>

record request_parts =
  rp_method :: string
  rp_uri :: uri
  rp_headers :: header_map
  rp_path_params :: params

text \<open>\<open>TypedHeader<H>\<close> for the decoder of \<open>H\<close>.\<close>

definition typed_header_from_parts :: "(header_map \<Rightarrow> 'h oxi_result) \<Rightarrow> request_parts \<Rightarrow> 'h oxi_result" where
  "typed_header_from_parts decode parts = decode (rp_headers parts)"

subsection \<open>Compression\<close>

datatype compression_algorithm = GzipAlg | DeflateAlg

fun algorithm_as_str :: "compression_algorithm \<Rightarrow> string" where
  "algorithm_as_str GzipAlg = ''gzip''"
| "algorithm_as_str DeflateAlg = ''deflate''"

record compression =
  min_size :: nat
  algorithms :: "compression_algorithm list"
  level :: nat

definition compression_new :: compression where
  "compression_new = \<lparr>min_size = 1024, algorithms = [GzipAlg, DeflateAlg], level = 6\<rparr>"

definition set_min_size :: "nat \<Rightarrow> compression \<Rightarrow> compression" where
  "set_min_size n c = c\<lparr>min_size := n\<rparr>"

definition set_level :: "nat \<Rightarrow> compression \<Rightarrow> compression" where
  "set_level n c = c\<lparr>level := max 1 (min n 9)\<rparr>"

definition set_algorithms :: "compression_algorithm list \<Rightarrow> compression \<Rightarrow> compression" where
  "set_algorithms as c = c\<lparr>algorithms := as\<rparr>"

record enc_entry =
  enc_name :: string
  enc_q :: f32

definition enc_part :: "f32_parser \<Rightarrow> string \<Rightarrow> enc_entry option" where
  "enc_part parse_f32 part0 =
     (let part = trim part0 in
      if part = '''' then None
      else
        (let (name, q_part) = (case split_once CHR '';'' part of Some (n, r) \<Rightarrow> (n, Some r) | None \<Rightarrow> (part, None));
             q = Option.bind (Option.bind q_part (\<lambda>r. strip_prefix ''q='' (trim r))) parse_f32
         in Some \<lparr>enc_name = lower (trim name), enc_q = (case q of Some x \<Rightarrow> x | None \<Rightarrow> F32 1)\<rparr>))"

text \<open>The order of the entries plays no part in the answer, so it does not matter that a NaN among the
  qualities leaves it unspecified; that the sort may then panic on a long list is not modelled.\<close>

definition enc_entries :: "f32_parser \<Rightarrow> string \<Rightarrow> enc_entry list" where
  "enc_entries parse_f32 ae =
     sort_key (\<lambda>e. descending (enc_q e)) (List.map_filter (enc_part parse_f32) (split_on CHR '','' ae))"

fun f32_positive :: "f32 \<Rightarrow> bool" where
  "f32_positive (F32 q) = (0 < q)"
| "f32_positive F32_Inf = True"
| "f32_positive _ = False"

definition enc_allowed :: "enc_entry list \<Rightarrow> compression_algorithm \<Rightarrow> bool" where
  "enc_allowed entries algo \<longleftrightarrow>
     list_ex (\<lambda>e. (enc_name e = algorithm_as_str algo \<or> enc_name e = ''*'') \<and> f32_positive (enc_q e)) entries"

definition negotiate_encoding :: "f32_parser \<Rightarrow> string \<Rightarrow> compression_algorithm list \<Rightarrow> compression_algorithm option" where
  "negotiate_encoding parse_f32 ae preferred = List.find (enc_allowed (enc_entries parse_f32 ae)) preferred"

text \<open>The compressors of oxiarc_deflate, with their level.\<close>

record compressors =
  gzip_compress :: "bytes \<Rightarrow> nat \<Rightarrow> string + bytes"
  zlib_compress :: "bytes \<Rightarrow> nat \<Rightarrow> string + bytes"

fun compress_with :: "compressors \<Rightarrow> compression_algorithm \<Rightarrow> bytes \<Rightarrow> nat \<Rightarrow> bytes oxi_result" where
  "compress_with z GzipAlg d lv = map_sum BodyErr id (gzip_compress z d lv)"
| "compress_with z DeflateAlg d lv = map_sum BodyErr id (zlib_compress z d lv)"

definition compression_apply ::
  "http_lib \<Rightarrow> f32_parser \<Rightarrow> compressors \<Rightarrow> compression \<Rightarrow> string option \<Rightarrow> bytes response \<Rightarrow> bytes response oxi_result" where
  "compression_apply lib parse_f32 z c accept_encoding resp =
     (if \<not> (200 \<le> resp_status resp \<and> resp_status resp < 300 \<or> resp_status resp = 206) then Inr resp
      else if hm_contains ''content-encoding'' (resp_headers resp) then Inr resp
      else (case Option.bind accept_encoding (\<lambda>ae. negotiate_encoding parse_f32 ae (algorithms c)) of
         None \<Rightarrow> Inr resp
       | Some algo \<Rightarrow>
           if length (resp_body resp) < min_size c then Inr resp
           else
             rbind (compress_with z algo (resp_body resp) (level c)) (\<lambda>b.
             rbind (hm_set lib id ''content-encoding'' (algorithm_as_str algo) (hm_remove ''content-length'' (resp_headers resp))) (\<lambda>h1.
             rbind (hm_set lib id ''content-length'' (show_nat (length b)) h1) (\<lambda>h2.
             Inr (resp\<lparr>resp_headers := hm_insert ''vary'' ''Accept-Encoding'' h2, resp_body := b\<rparr>))))))"

subsection \<open>Compression: properties\<close>

lemma negotiate_encoding_iff:
  "negotiate_encoding parse_f32 ae preferred = Some algo \<longleftrightarrow>
     (\<exists>i < length preferred. preferred ! i = algo \<and> enc_allowed (enc_entries parse_f32 ae) algo \<and>
        (\<forall>j < i. \<not> enc_allowed (enc_entries parse_f32 ae) (preferred ! j)))"
  unfolding negotiate_encoding_def find_Some_iff by auto

lemma number_visible: "visible (show_nat n)"
  using show_nat_digits [of _ n] by (fastforce simp: visible_def is_digit_def Let_def)

lemma algorithm_visible: "visible (algorithm_as_str algo)"
  by (cases algo) (simp_all add: visible_def)

lemma bounded_deflate_fits:
  assumes "deflate_codec zinflate zdeflate" and "length d \<le> first_try (length (zdeflate d)) cap"
  shows "bounded_deflate_decompress zinflate inflate (zdeflate d) cap = Inr d"
proof -
  obtain tail where "zinflate (zdeflate d @ []) (replicate (first_try (length (zdeflate d)) cap) 0) = (Inr (length d), d @ tail)"
    using deflate_codec.fits [OF assms(1), of d "replicate (first_try (length (zdeflate d)) cap) 0" "[]"] assms(2) by auto
  then show ?thesis
    by (simp add: bounded_deflate_decompress_def bounded_inflate_def or_else_def body_decoder_def)
qed

text \<open>The three outcomes of \<open>apply\<close>.\<close>

lemma compression_apply_cases:
  assumes "header_values lib" and "compression_apply lib parse_f32 z c ae resp = Inr resp'"
  obtains (unchanged) "resp' = resp"
  | (compressed) algo b where "algo \<in> set (algorithms c)" and "compress_with z algo (resp_body resp) (level c) = Inr b"
      and "resp_body resp' = b" and "resp_status resp' = resp_status resp"
      and "hm_get ''content-encoding'' (resp_headers resp') = Some (algorithm_as_str algo)"
      and "hm_get ''content-length'' (resp_headers resp') = Some (show_nat (length b))"
proof (cases "resp' = resp")
  case False
  then obtain ae' algo where ae: "ae = Some ae'" "negotiate_encoding parse_f32 ae' (algorithms c) = Some algo"
    and ne: "\<not> length (resp_body resp) < min_size c"
    and r: "compression_apply lib parse_f32 z c ae resp =
      rbind (compress_with z algo (resp_body resp) (level c)) (\<lambda>b.
             rbind (hm_set lib id ''content-encoding'' (algorithm_as_str algo) (hm_remove ''content-length'' (resp_headers resp))) (\<lambda>h1.
             rbind (hm_set lib id ''content-length'' (show_nat (length b)) h1) (\<lambda>h2.
             Inr (resp\<lparr>resp_headers := hm_insert ''vary'' ''Accept-Encoding'' h2, resp_body := b\<rparr>))))"
    using assms(2) unfolding compression_apply_def by (auto split: if_splits option.splits simp: bind_eq_Some_conv)
  from r assms(2) obtain b where b: "compress_with z algo (resp_body resp) (level c) = Inr b"
    by (cases "compress_with z algo (resp_body resp) (level c)") auto
  note ok = header_values.set_get [OF assms(1) algorithm_visible, THEN conjunct1]
    header_values.set_get [OF assms(1) number_visible, THEN conjunct1]
  have "resp' = resp\<lparr>resp_headers := hm_insert ''vary'' ''Accept-Encoding'' (hm_insert ''content-length'' (show_nat (length b))
      (hm_insert ''content-encoding'' (algorithm_as_str algo) (hm_remove ''content-length'' (resp_headers resp)))), resp_body := b\<rparr>"
    using assms(2) unfolding r by (simp add: b ok)
  moreover have "algo \<in> set (algorithms c)" using ae(2) by (auto simp: negotiate_encoding_iff)
  ultimately show ?thesis using b by (intro compressed [of algo b]) (simp_all add: hm_simps)
qed (rule unchanged)

text \<open>C40. Compression is transparent end to end: whatever coding the server negotiates, the body the
  client's decoder makes of the compressed response (with the server's \<open>Content-Encoding\<close>) is the body
  of the handler, the status is the handler's, and a changed response declares the length of what is
  sent. The compressors write gzip members and zlib streams the decoders read; for deflate, where the
  client falls back to the raw format, the data must fit its first buffer.\<close>

theorem compression_transparent:
  assumes "header_values lib" and "deflate_codec inflate deflate" and "deflate_codec zinflate zdeflate"
    and "wf_gz g" and "length (gzip_member g (deflate d) (unat (crc32 d)) (length d)) \<le> usize_max"
    and "gzip_compress z d (level c) = Inr (gzip_member g (deflate d) (unat (crc32 d)) (length d))"
    and "zlib_compress z d (level c) = Inr (zdeflate d)" and "resp_body resp = d"
    and "compression_apply lib parse_f32 z c ae resp = Inr resp'"
    and "hm_get ''content-encoding'' (resp_headers resp) = None" and "length d \<le> mx"
    and "DeflateAlg \<in> set (algorithms c) \<Longrightarrow> length d \<le> first_try (length (zdeflate d)) mx"
  shows "decode_body \<lparr>feature_decompression = True, codec_zlib = zinflate, codec_inflate = inflate, codec_crc32 = crc32\<rparr> True
      (map_option lower (hm_str lib ''content-encoding'' (resp_headers resp'))) mx (resp_body resp') = Inr d
    \<and> resp_status resp' = resp_status resp
    \<and> (resp' = resp \<or> hm_str lib ''content-length'' (resp_headers resp') = Some (show_nat (length (resp_body resp'))))"
  using assms(1,9)
proof (cases rule: compression_apply_cases)
  case unchanged
  then show ?thesis using assms(8,10) by (simp add: hm_str_def decode_body_def)
next
  case (compressed algo b)
  have str: "to_str lib s = Some s" if "visible s" for s
    using header_values.visible_str [OF assms(1) that] by (simp add: to_str_def)
  have ce: "hm_str lib ''content-encoding'' (resp_headers resp') = Some (algorithm_as_str algo)"
    "hm_str lib ''content-length'' (resp_headers resp') = Some (show_nat (length b))"
    using compressed by (simp_all add: hm_str_def str algorithm_visible number_visible)
  have low: "lower ''gzip'' = ''gzip''" "lower ''deflate'' = ''deflate''" by code_simp+
  show ?thesis
  proof (cases algo)
    case GzipAlg
    have b: "b = gzip_member g (deflate d) (unat (crc32 d)) (length d)"
      using compressed(2) assms(6,8) GzipAlg by simp
    have "bounded_gzip_decompress inflate crc32 b mx = Inr d"
      unfolding b deflate_codec.gzip_member_decompress [where ?crc32.0 = crc32 and d = d and g = g, OF assms(2,4,5)]
      using deflate_codec.bounded_fits [OF assms(2,11)] by simp
    then show ?thesis using compressed(3,4) ce GzipAlg by (simp add: decode_body_def low)
  next
    case DeflateAlg
    then have "bounded_deflate_decompress zinflate inflate b mx = Inr d"
      using compressed(1,2) assms(7,8) bounded_deflate_fits [OF assms(3,12)] by auto
    then show ?thesis using compressed(3,4) ce DeflateAlg by (simp add: decode_body_def low)
  qed
qed


theorem compression_transparent_witness:
  "\<exists>resp'. compression_apply std_lib (\<lambda>s. None)
      \<lparr>gzip_compress = (\<lambda>d lv. Inr (gzip_member \<lparr>gz_misc = [0, 0, 0, 0, 0, 3], gz_extra = None, gz_name = None,
          gz_comment = None, gz_hcrc = None\<rparr> (marked_deflate d) 7 (length d))),
       zlib_compress = (\<lambda>d lv. Inr (marked_deflate d))\<rparr>
      (set_min_size 2 compression_new) (Some ''gzip'') \<lparr>resp_status = 200, resp_headers = [], resp_body = [1, 2, 3]\<rparr> = Inr resp'
    \<and> resp_status resp' = 200"
proof -
  let ?g = "\<lparr>gz_misc = [0, 0, 0, 0, 0, 3], gz_extra = None, gz_name = None, gz_comment = None, gz_hcrc = None\<rparr>"
  let ?z = "\<lparr>gzip_compress = (\<lambda>d lv. Inr (gzip_member ?g (marked_deflate d) 7 (length d))),
       zlib_compress = (\<lambda>d lv. Inr (marked_deflate d))\<rparr>"
  let ?c = "set_min_size 2 compression_new"
  let ?r = "\<lparr>resp_status = 200, resp_headers = [], resp_body = [1, 2, 3]\<rparr>"
  have e: "enc_entries (\<lambda>s. None) ''gzip'' = [\<lparr>enc_name = ''gzip'', enc_q = F32 1\<rparr>]" by code_simp
  have n: "negotiate_encoding (\<lambda>s. None) ''gzip'' [GzipAlg, DeflateAlg] = Some GzipAlg"
    by (simp add: negotiate_encoding_def e enc_allowed_def)
  have c: "?c = \<lparr>min_size = 2, algorithms = [GzipAlg, DeflateAlg], level = 6\<rparr>"
    by (simp add: set_min_size_def compression_new_def)
  obtain resp' where r: "compression_apply std_lib (\<lambda>s. None) ?z ?c (Some ''gzip'') ?r = Inr resp'"
    using std.set_get [OF algorithm_visible [of GzipAlg], THEN conjunct1] std.set_get [OF number_visible, THEN conjunct1]
    unfolding c by (auto simp: compression_apply_def n hm_contains_def hm_simps)
  have w: "wf_gz ?g" by (simp add: wf_gz_def)
  have l: "length (gzip_member ?g (marked_deflate [1, 2, 3]) (unat ((\<lambda>d. 7 :: u32) ([1, 2, 3] :: bytes))) (length ([1, 2, 3] :: bytes))) \<le> usize_max"
    by (simp add: gzip_member_def gz_header_def opt_bytes_def le32b_def usize_max_def)
  have "resp_status resp' = resp_status ?r"
    using compression_transparent [where ?crc32.0 = "\<lambda>d. 7" and d = "[1, 2, 3]" and mx = 100, OF std.header_values_axioms
        marked.deflate_codec_axioms marked.deflate_codec_axioms w l _ _ _ r]
    by (simp add: hm_simps first_try_def saturating_mul_def usize_max_def)
  then show ?thesis using r by auto
qed

end
