(* ===== verification/ClientPolicy.thy ===== *)
theory ClientPolicy
  imports OxiError
begin

section \<open>Redirect and retry policies (oxihttp-client redirect.rs, retry.rs)\<close>

text \<open>
  The two policies of the client. A \<open>Duration\<close> is a number of nanoseconds, bounded by
  \<open>duration_max\<close> (the seconds are a \<open>u64\<close>); a \<open>u32\<close> counter is a number below \<open>2 ^ 32\<close>, with its
  wrap-around and saturation written out. Methods are their names.
\<close>

subsection \<open>Redirects\<close>

datatype redirect_policy = RedirectNone | RedirectLimited nat | RedirectAll

fun max_redirects :: "redirect_policy \<Rightarrow> nat option" where
  "max_redirects RedirectNone = Some 0"
| "max_redirects (RedirectLimited n) = Some n"
| "max_redirects RedirectAll = None"

fun policy_is_none :: "redirect_policy \<Rightarrow> bool" where
  "policy_is_none RedirectNone = True"
| "policy_is_none _ = False"

definition default_redirect_policy :: redirect_policy where
  "default_redirect_policy = RedirectLimited 10"

definition is_redirect_status :: "nat \<Rightarrow> bool" where
  "is_redirect_status st \<longleftrightarrow> st = 301 \<or> st = 302 \<or> st = 303 \<or> st = 307 \<or> st = 308"

definition redirect_method :: "nat \<Rightarrow> string \<Rightarrow> string" where
  "redirect_method st original =
     (if 301 \<le> st \<and> st \<le> 303 then (if original = ''HEAD'' then ''HEAD'' else ''GET'') else original)"

definition should_preserve_body :: "nat \<Rightarrow> bool" where
  "should_preserve_body st \<longleftrightarrow> st = 307 \<or> st = 308"

subsection \<open>Retries\<close>

definition duration_max :: nat where
  "duration_max = (2 ^ 64 - 1) * 1000000000 + 999999999"

definition from_millis :: "nat \<Rightarrow> nat" where
  "from_millis ms = ms * 1000000"

record retry_policy =
  max_retries :: nat
  backoff_base :: nat
  backoff_max :: nat
  retryable_status_codes :: "nat set"
  retry_on_connection_error :: bool
  retry_on_timeout :: bool

definition retry_new :: "nat \<Rightarrow> retry_policy" where
  "retry_new n = \<lparr>max_retries = n, backoff_base = from_millis 100, backoff_max = from_millis 30000,
     retryable_status_codes = {429, 500, 502, 503, 504}, retry_on_connection_error = True, retry_on_timeout = True\<rparr>"

definition with_backoff_base :: "nat \<Rightarrow> retry_policy \<Rightarrow> retry_policy" where
  "with_backoff_base b p = p\<lparr>backoff_base := b\<rparr>"

definition with_backoff_max :: "nat \<Rightarrow> retry_policy \<Rightarrow> retry_policy" where
  "with_backoff_max b p = p\<lparr>backoff_max := b\<rparr>"

definition with_retryable_status_codes :: "nat set \<Rightarrow> retry_policy \<Rightarrow> retry_policy" where
  "with_retryable_status_codes codes p = p\<lparr>retryable_status_codes := codes\<rparr>"

definition add_retryable_status :: "nat \<Rightarrow> retry_policy \<Rightarrow> retry_policy" where
  "add_retryable_status code p = p\<lparr>retryable_status_codes := insert code (retryable_status_codes p)\<rparr>"

definition with_retry_on_connection_error :: "bool \<Rightarrow> retry_policy \<Rightarrow> retry_policy" where
  "with_retry_on_connection_error r p = p\<lparr>retry_on_connection_error := r\<rparr>"

definition with_retry_on_timeout :: "bool \<Rightarrow> retry_policy \<Rightarrow> retry_policy" where
  "with_retry_on_timeout r p = p\<lparr>retry_on_timeout := r\<rparr>"

definition should_retry_status :: "nat \<Rightarrow> retry_policy \<Rightarrow> bool" where
  "should_retry_status st p \<longleftrightarrow> st \<in> retryable_status_codes p"

definition saturating_pow2 :: "nat \<Rightarrow> nat" where
  "saturating_pow2 n = min (2 ^ n) (2 ^ 32 - 1)"

definition backoff_delay :: "nat \<Rightarrow> retry_policy \<Rightarrow> nat" where
  "backoff_delay attempt p =
     (let delay = min (backoff_base p * saturating_pow2 attempt) duration_max in min delay (backoff_max p))"

definition default_retry_policy :: retry_policy where
  "default_retry_policy = retry_new 3"

lemma saturating_pow2_mono: "m \<le> n \<Longrightarrow> saturating_pow2 m \<le> saturating_pow2 n"
  unfolding saturating_pow2_def by (intro min.mono power_increasing) simp_all

text \<open>Exponential backoff: the delays never decrease and never exceed the maximum of the policy;
  before the cap is reached and while the exponent fits 32 bits every delay is the double of the
  one before.\<close>

theorem backoff_schedule:
  "(\<forall>m n. m \<le> n \<longrightarrow> backoff_delay m p \<le> backoff_delay n p) \<and> (\<forall>n. backoff_delay n p \<le> backoff_max p)
   \<and> backoff_delay 0 p = min (min (backoff_base p) duration_max) (backoff_max p)
   \<and> (\<forall>n < 31. backoff_delay (Suc n) p < backoff_max p \<longrightarrow> backoff_delay (Suc n) p < duration_max \<longrightarrow>
        backoff_delay (Suc n) p = 2 * backoff_delay n p)"
proof (intro conjI allI impI)
  fix m n :: nat assume "m \<le> n"
  then have "backoff_base p * saturating_pow2 m \<le> backoff_base p * saturating_pow2 n"
    by (intro mult_le_mono2 saturating_pow2_mono)
  then show "backoff_delay m p \<le> backoff_delay n p"
    unfolding backoff_delay_def Let_def by (intro min.mono) simp_all
next
  fix n show "backoff_delay n p \<le> backoff_max p" by (simp add: backoff_delay_def Let_def)
next
  show "backoff_delay 0 p = min (min (backoff_base p) duration_max) (backoff_max p)"
    by (simp add: backoff_delay_def saturating_pow2_def Let_def)
next
  fix n :: nat assume n: "n < 31" and d: "backoff_delay (Suc n) p < backoff_max p" "backoff_delay (Suc n) p < duration_max"
  have e: "saturating_pow2 k = 2 ^ k" if "k \<le> 31" for k
    using power_increasing [OF that, of "2::nat"] by (simp add: saturating_pow2_def)
  have "backoff_base p * 2 ^ Suc n < backoff_max p" "backoff_base p * 2 ^ Suc n < duration_max"
    using d n by (auto simp: backoff_delay_def Let_def e min_def split: if_splits)
  then show "backoff_delay (Suc n) p = 2 * backoff_delay n p"
    using n by (simp add: backoff_delay_def Let_def e)
qed

theorem backoff_schedule_witness:
  "backoff_delay (Suc 0) (retry_new 3) = 2 * backoff_delay 0 (retry_new 3)"
proof -
  have "backoff_delay (Suc 0) (retry_new 3) < backoff_max (retry_new 3)"
    "backoff_delay (Suc 0) (retry_new 3) < duration_max"
    by (simp_all add: backoff_delay_def retry_new_def from_millis_def saturating_pow2_def duration_max_def)
  then show ?thesis using backoff_schedule [of "retry_new 3"] by (metis zero_less_numeral)
qed

end
