(* ===== verification/Multipart.thy ===== *)
theory Multipart
  imports Body
begin

section \<open>Multipart form data (oxihttp-core multipart.rs)\<close>

text \<open>
  The buffered and the streaming builder of \<open>multipart/form-data\<close> bodies. The clock and the atomic
  counter that seed the boundary are arguments of \<open>generate_boundary\<close>. The search for a unique
  boundary may not end, and one poll of the stream may not return, so both are
  \<open>partial_function\<close>s; the \<open>u32\<close> suffix wraps. A streamed part is a state of type \<open>'s\<close> with its
  \<open>poll_next\<close>.
\<close>

subsection \<open>Parts\<close>

definition generate_boundary :: "nat \<Rightarrow> nat \<Rightarrow> string" where
  "generate_boundary nanos counter =
     ''----OxiHTTPBoundary'' @ pad_left 8 (show_hex nanos) @ pad_left 4 (show_hex counter)"

definition sanitize_char :: "bool \<Rightarrow> char \<Rightarrow> string" where
  "sanitize_char escape_quotes c =
     (if c = CHR 0x22 \<and> escape_quotes then [CHR 0x5C, CHR 0x22]
      else if c = CHR 0x5C \<and> escape_quotes then [CHR 0x5C, CHR 0x5C]
      else if c = CHR 0x0D \<or> c = CHR 0x0A then []
      else [c])"

definition sanitize_header_param :: "string \<Rightarrow> bool \<Rightarrow> string" where
  "sanitize_header_param value escape_quotes = concat (map (sanitize_char escape_quotes) value)"

type_synonym part_headers = "(string \<times> string) list"

record part =
  pheaders :: part_headers
  pbody :: bytes

definition quoted :: "string \<Rightarrow> string" where
  "quoted v = [CHR 0x22] @ sanitize_header_param v True @ [CHR 0x22]"

definition part_text :: "string \<Rightarrow> string \<Rightarrow> part" where
  "part_text n v =
     \<lparr>pheaders = [(''Content-Disposition'', ''form-data; name='' @ quoted n)], pbody = as_bytes v\<rparr>"

definition file_headers :: "string \<Rightarrow> string \<Rightarrow> string \<Rightarrow> part_headers" where
  "file_headers n filename content_type =
     [(''Content-Disposition'', ''form-data; name='' @ quoted n @ ''; filename='' @ quoted filename),
      (''Content-Type'', sanitize_header_param content_type False)]"

definition part_file :: "string \<Rightarrow> string \<Rightarrow> string \<Rightarrow> bytes \<Rightarrow> part" where
  "part_file n filename content_type b = \<lparr>pheaders = file_headers n filename content_type, pbody = b\<rparr>"

definition part_custom :: "part_headers \<Rightarrow> bytes \<Rightarrow> part" where
  "part_custom hs b = \<lparr>pheaders = hs, pbody = b\<rparr>"

subsection \<open>The buffered builder\<close>

record multipart_builder =
  mb_boundary :: string
  mb_parts :: "part list"

definition builder_new :: "nat \<Rightarrow> nat \<Rightarrow> multipart_builder" where
  "builder_new nanos counter = \<lparr>mb_boundary = generate_boundary nanos counter, mb_parts = []\<rparr>"

definition builder_content_type :: "multipart_builder \<Rightarrow> string" where
  "builder_content_type mb = ''multipart/form-data; boundary='' @ mb_boundary mb"

definition add_part :: "part \<Rightarrow> multipart_builder \<Rightarrow> multipart_builder" where
  "add_part p mb = mb\<lparr>mb_parts := mb_parts mb @ [p]\<rparr>"

definition add_text :: "string \<Rightarrow> string \<Rightarrow> multipart_builder \<Rightarrow> multipart_builder" where
  "add_text n v = add_part (part_text n v)"

definition add_file :: "string \<Rightarrow> string \<Rightarrow> string \<Rightarrow> bytes \<Rightarrow> multipart_builder \<Rightarrow> multipart_builder" where
  "add_file n filename content_type b = add_part (part_file n filename content_type b)"

definition has_collision :: "string \<Rightarrow> bytes list \<Rightarrow> bool" where
  "has_collision boundary bodies \<longleftrightarrow> list_ex (occurs (as_bytes boundary)) bodies"

definition candidate :: "string \<Rightarrow> nat \<Rightarrow> string" where
  "candidate base suffix = base @ pad_left 4 (show_hex suffix)"

partial_function (option) boundary_loop :: "string \<Rightarrow> bytes list \<Rightarrow> string \<Rightarrow> nat \<Rightarrow> string option" where
  "boundary_loop base bodies boundary suffix =
     (if \<not> has_collision boundary bodies then Some boundary
      else let suffix' = (suffix + 1) mod 2 ^ 32 in
        boundary_loop base bodies (candidate base suffix') suffix')"

definition find_unique_boundary :: "string \<Rightarrow> bytes list \<Rightarrow> string option" where
  "find_unique_boundary base bodies = boundary_loop base bodies base 0"

definition crlf :: bytes where
  "crlf = [0x0D, 0x0A]"

definition part_preamble :: "string \<Rightarrow> part_headers \<Rightarrow> bytes" where
  "part_preamble boundary hs =
     as_bytes ''--'' @ as_bytes boundary @ crlf
     @ concat (map (\<lambda>(k, v). as_bytes k @ as_bytes '': '' @ as_bytes v @ crlf) hs) @ crlf"

definition final_boundary :: "string \<Rightarrow> bytes" where
  "final_boundary boundary = as_bytes ''--'' @ as_bytes boundary @ as_bytes ''--'' @ crlf"

definition wire :: "string \<Rightarrow> part list \<Rightarrow> bytes" where
  "wire boundary parts =
     concat (map (\<lambda>p. part_preamble boundary (pheaders p) @ pbody p @ crlf) parts) @ final_boundary boundary"

definition build :: "multipart_builder \<Rightarrow> bytes option" where
  "build mb =
     map_option (\<lambda>boundary. wire boundary (mb_parts mb))
       (find_unique_boundary (mb_boundary mb) (map pbody (mb_parts mb)))"

subsection \<open>The streaming builder\<close>

datatype 's part_or_stream = Buffered part | Streamed part_headers 's

record 's streaming_multipart =
  sm_boundary :: string
  sm_parts :: "'s part_or_stream list"

definition add_stream_part :: "part_headers \<Rightarrow> 's \<Rightarrow> multipart_builder \<Rightarrow> 's streaming_multipart" where
  "add_stream_part hs s mb =
     \<lparr>sm_boundary = mb_boundary mb, sm_parts = map Buffered (mb_parts mb) @ [Streamed hs s]\<rparr>"

definition add_file_stream ::
  "string \<Rightarrow> string \<Rightarrow> string \<Rightarrow> 's \<Rightarrow> multipart_builder \<Rightarrow> 's streaming_multipart" where
  "add_file_stream n filename content_type s = add_stream_part (file_headers n filename content_type) s"

definition sm_push :: "'s part_or_stream \<Rightarrow> 's streaming_multipart \<Rightarrow> 's streaming_multipart" where
  "sm_push p sm = sm\<lparr>sm_parts := sm_parts sm @ [p]\<rparr>"

definition sm_add_text :: "string \<Rightarrow> string \<Rightarrow> 's streaming_multipart \<Rightarrow> 's streaming_multipart" where
  "sm_add_text n v = sm_push (Buffered (part_text n v))"

definition sm_add_file :: "string \<Rightarrow> string \<Rightarrow> string \<Rightarrow> bytes \<Rightarrow> 's streaming_multipart \<Rightarrow> 's streaming_multipart" where
  "sm_add_file n filename content_type b = sm_push (Buffered (part_file n filename content_type b))"

definition sm_add_part :: "part \<Rightarrow> 's streaming_multipart \<Rightarrow> 's streaming_multipart" where
  "sm_add_part p = sm_push (Buffered p)"

definition sm_add_stream_part :: "part_headers \<Rightarrow> 's \<Rightarrow> 's streaming_multipart \<Rightarrow> 's streaming_multipart" where
  "sm_add_stream_part hs s = sm_push (Streamed hs s)"

definition sm_add_file_stream ::
  "string \<Rightarrow> string \<Rightarrow> string \<Rightarrow> 's \<Rightarrow> 's streaming_multipart \<Rightarrow> 's streaming_multipart" where
  "sm_add_file_stream n filename content_type s = sm_add_stream_part (file_headers n filename content_type) s"

definition sm_content_type :: "'s streaming_multipart \<Rightarrow> string" where
  "sm_content_type sm = ''multipart/form-data; boundary='' @ sm_boundary sm"

fun buffered_bodies :: "'s part_or_stream list \<Rightarrow> bytes list" where
  "buffered_bodies [] = []"
| "buffered_bodies (Buffered p # ps) = pbody p # buffered_bodies ps"
| "buffered_bodies (Streamed hs s # ps) = buffered_bodies ps"

definition sm_find_unique_boundary :: "'s streaming_multipart \<Rightarrow> string option" where
  "sm_find_unique_boundary sm = find_unique_boundary (sm_boundary sm) (buffered_bodies (sm_parts sm))"

datatype 's pending_chunk = ReadyChunk bytes | Nested 's

fun part_chunks :: "string \<Rightarrow> 's part_or_stream \<Rightarrow> 's pending_chunk list" where
  "part_chunks boundary (Buffered p) =
     [ReadyChunk (part_preamble boundary (pheaders p)), ReadyChunk (pbody p), ReadyChunk crlf]"
| "part_chunks boundary (Streamed hs s) =
     [ReadyChunk (part_preamble boundary hs), Nested s, ReadyChunk crlf]"

definition build_stream :: "'s streaming_multipart \<Rightarrow> 's pending_chunk list option" where
  "build_stream sm =
     map_option (\<lambda>boundary. concat (map (part_chunks boundary) (sm_parts sm)) @ [ReadyChunk (final_boundary boundary)])
       (sm_find_unique_boundary sm)"

text \<open>\<open>MultipartStream::poll_next\<close> on the queue; \<open>None\<close> if the loop inside one poll never ends.\<close>

partial_function (option) mp_poll_next ::
  "'s poller \<Rightarrow> 's pending_chunk list \<Rightarrow> ('s pending_chunk list \<times> polled) option" where
  "mp_poll_next nxt queue =
     (case queue of [] \<Rightarrow> Some ([], Ready None)
      | front # rest \<Rightarrow>
         (case front of
            ReadyChunk b \<Rightarrow> if b = [] then mp_poll_next nxt rest else Some (rest, Ready (Some (Inr b)))
          | Nested s \<Rightarrow>
             (case nxt s of (s', p) \<Rightarrow>
               (case p of
                  Ready r \<Rightarrow>
                    (case r of
                       Some it \<Rightarrow>
                         (case it of
                            Inr chunk \<Rightarrow>
                              if chunk = [] then mp_poll_next nxt (Nested s' # rest)
                              else Some (Nested s' # rest, Ready (Some (Inr chunk)))
                          | Inl e \<Rightarrow> Some (rest, Ready (Some (Inl e))))
                     | None \<Rightarrow> mp_poll_next nxt rest)
                | Pending \<Rightarrow> Some (Nested s' # rest, Pending)))))"

text \<open>A consumer of the stream, as \<open>drain\<close> but for a poll that may not return.\<close>

partial_function (option) mp_drain ::
  "'s poller \<Rightarrow> 's pending_chunk list \<Rightarrow> bytes \<Rightarrow> bytes oxi_result option" where
  "mp_drain nxt queue acc =
     (case mp_poll_next nxt queue of None \<Rightarrow> None
      | Some qp \<Rightarrow> (case qp of (queue', p) \<Rightarrow>
          (case p of Pending \<Rightarrow> mp_drain nxt queue' acc
           | Ready r \<Rightarrow> (case r of None \<Rightarrow> Some (Inr acc)
             | Some it \<Rightarrow> (case it of Inl e \<Rightarrow> Some (Inl e)
               | Inr chunk \<Rightarrow> mp_drain nxt queue' (acc @ chunk))))))"

subsection \<open>Header parameters: property\<close>

text \<open>The quoted-string of RFC 9110, read from after its opening quote.\<close>

fun read_quoted :: "string \<Rightarrow> (string \<times> string) option" where
  "read_quoted [] = None"
| "read_quoted (c # cs) =
     (if c = CHR 0x22 then Some ([], cs)
      else if c = CHR 0x5C then
        (case cs of [] \<Rightarrow> None | d # ds \<Rightarrow> map_option (\<lambda>(v, r). (d # v, r)) (read_quoted ds))
      else map_option (\<lambda>(v, r). (c # v, r)) (read_quoted cs))"

lemma sanitize_Cons:
  "sanitize_header_param (c # v) b = sanitize_char b c @ sanitize_header_param v b"
  by (simp add: sanitize_header_param_def)

text \<open>No header injection: whatever text a caller passes as field name, file name or content
  type, the sanitised text has no line break, and the quoted parameter is read back, up to the
  dropped line breaks, as exactly that text, with the rest of the header untouched.\<close>

theorem sanitize_no_injection:
  "CHR 0x0D \<notin> set (sanitize_header_param v b) \<and> CHR 0x0A \<notin> set (sanitize_header_param v b)
   \<and> read_quoted (tl (quoted v) @ rest) = Some (filter (\<lambda>c. c \<noteq> CHR 0x0D \<and> c \<noteq> CHR 0x0A) v, rest)"
proof -
  have "read_quoted (sanitize_header_param v True @ CHR 0x22 # rest) =
      Some (filter (\<lambda>c. c \<noteq> CHR 0x0D \<and> c \<noteq> CHR 0x0A) v, rest)"
  proof (induction v)
    case (Cons c v)
    show ?case
    proof (cases "c = CHR 0x22 \<or> c = CHR 0x5C")
      case True
      with Cons show ?thesis by (elim disjE) (simp_all add: sanitize_Cons sanitize_char_def)
    next
      case False
      then show ?thesis
        by (cases "c = CHR 0x0D \<or> c = CHR 0x0A") (simp_all add: sanitize_Cons sanitize_char_def Cons)
    qed
  qed (simp add: sanitize_header_param_def)
  moreover have "CHR 0x0D \<notin> set (sanitize_header_param v b)" "CHR 0x0A \<notin> set (sanitize_header_param v b)"
    by (auto simp: sanitize_header_param_def sanitize_char_def split: if_splits)
  ultimately show ?thesis by (simp add: quoted_def)
qed

subsection \<open>The boundary: lemmas and properties\<close>

lemma digits_acc_pad_hex: "digits_acc 16 0 (pad_left k (show_hex n)) = Some n"
  by (simp add: pad_left_def digits_acc_zeros digits_acc_show_base)

lemma candidate_inj: "candidate base i = candidate base j \<longleftrightarrow> i = j"
proof
  assume "candidate base i = candidate base j"
  then have "pad_left 4 (show_hex i) = pad_left 4 (show_hex j)" by (simp add: candidate_def)
  then have "digits_acc 16 0 (pad_left 4 (show_hex i)) = digits_acc 16 0 (pad_left 4 (show_hex j))"
    by (rule arg_cong)
  then show "i = j" unfolding digits_acc_pad_hex by (rule option.inject [THEN iffD1])
qed (rule arg_cong)

lemma candidate_length:
  assumes "i < 2 ^ 32"
  shows "length (candidate base i) \<in> {length base + 4..length base + 8}"
proof -
  have "length (show_hex i) \<le> Suc 7" using assms by (intro length_show_base_le) simp_all
  then show ?thesis by (auto simp: candidate_def pad_left_def)
qed

lemma occurs_at: "occurs p s \<longleftrightarrow> (\<exists>o'. o' \<le> length s \<and> take (length p) (drop o' s) = p)"
proof
  assume "occurs p s"
  then obtain u v where "s = u @ p @ v" by (auto simp: occurs_iff)
  then show "\<exists>o'. o' \<le> length s \<and> take (length p) (drop o' s) = p" by (intro exI [of _ "length u"]) simp
next
  assume "\<exists>o'. o' \<le> length s \<and> take (length p) (drop o' s) = p"
  then obtain o' where "take (length p) (drop o' s) = p" by blast
  then have "s = take o' s @ p @ drop (length p) (drop o' s)" by (metis append_take_drop_id)
  then show "occurs p s" by (auto simp: occurs_iff)
qed

lemma as_bytes_inj: "as_bytes s = as_bytes t \<longleftrightarrow> s = t"
  by (metis of_bytes_as_bytes)

text \<open>At one position of one body only one candidate of each length can match, so only finitely many
  candidates collide: five lengths are possible.\<close>

lemma free_candidate:
  assumes "5 * (\<Sum>b\<leftarrow>bodies. length b + 1) < 2 ^ 32 - 1"
  shows "\<exists>j \<ge> 1. j < 2 ^ 32 \<and> \<not> has_collision (candidate base j) bodies"
proof (rule ccontr)
  assume "\<not> ?thesis"
  then have all: "has_collision (candidate base j) bodies" if "j \<in> {1..<2 ^ 32}" for j
    using that by auto
  let ?n = "length bodies"
  let ?T = "(SIGMA p:{..<?n}. {..length (bodies ! p)}) \<times> {length base + 4..length base + 8}"
  have "\<exists>p o'. p < ?n \<and> o' \<le> length (bodies ! p) \<and>
      take (length (candidate base j)) (drop o' (bodies ! p)) = as_bytes (candidate base j)"
    if "j \<in> {1..<2 ^ 32}" for j
    using all [OF that] by (auto simp: has_collision_def list_ex_length occurs_at)
  then obtain P O' where PO: "\<And>j. j \<in> {1..<2 ^ 32} \<Longrightarrow> P j < ?n \<and> O' j \<le> length (bodies ! P j) \<and>
      take (length (candidate base j)) (drop (O' j) (bodies ! P j)) = as_bytes (candidate base j)"
    by metis
  let ?g = "\<lambda>j. ((P j, O' j), length (candidate base j))"
  have "inj_on ?g {1..<2 ^ 32}"
  proof (rule inj_onI)
    fix i j assume ij: "i \<in> {1..<2 ^ 32}" "j \<in> {1..<2 ^ 32}" "?g i = ?g j"
    then have "as_bytes (candidate base i) = as_bytes (candidate base j)"
      using PO [OF ij(1)] PO [OF ij(2)] by auto
    then show "i = j" by (simp add: as_bytes_inj candidate_inj)
  qed
  moreover have "?g ` {1..<2 ^ 32} \<subseteq> ?T"
    using PO candidate_length by (fastforce simp del: atLeastAtMost_iff)
  ultimately have "card {1..<(2::nat) ^ 32} \<le> card ?T"
    by (intro card_inj_on_le) auto
  also have "card ?T = 5 * (\<Sum>p<?n. length (bodies ! p) + 1)"
    by (simp add: card_cartesian_product)
  also have "(\<Sum>p<?n. length (bodies ! p) + 1) = (\<Sum>b\<leftarrow>bodies. length b + 1)"
    by (simp add: sum_list_sum_nth atLeast0LessThan)
  finally show False using assms by simp
qed

lemma boundary_loop_finds:
  "i \<le> j \<Longrightarrow> j < 2 ^ 32 \<Longrightarrow> \<not> has_collision (candidate base j) bodies \<Longrightarrow>
   \<exists>b k. boundary_loop base bodies (candidate base i) i = Some b \<and> \<not> has_collision b bodies \<and>
     b = candidate base k"
proof (induction "j - i" arbitrary: i)
  case 0
  then show ?case by (subst boundary_loop.simps) auto
next
  case (Suc n)
  show ?case
  proof (cases "has_collision (candidate base i) bodies")
    case True
    have "Suc i mod 2 ^ 32 = Suc i" using Suc(2,4) by simp
    moreover have "\<exists>b k. boundary_loop base bodies (candidate base (Suc i)) (Suc i) = Some b \<and>
        \<not> has_collision b bodies \<and> b = candidate base k"
      using Suc(2-5) by (intro Suc(1)) auto
    ultimately show ?thesis using True by (subst boundary_loop.simps) (simp add: Let_def)
  qed (subst boundary_loop.simps, auto)
qed

lemma find_unique_boundary_finds:
  assumes "5 * (\<Sum>b\<leftarrow>bodies. length b + 1) < 2 ^ 32 - 1"
  shows "\<exists>b. find_unique_boundary base bodies = Some b \<and> \<not> has_collision b bodies \<and>
    (b = base \<longleftrightarrow> \<not> has_collision base bodies) \<and> (b = base \<or> (\<exists>k. b = candidate base k))"
proof (cases "has_collision base bodies")
  case False
  then have "find_unique_boundary base bodies = Some base"
    unfolding find_unique_boundary_def by (subst boundary_loop.simps) simp
  with False show ?thesis by simp
next
  case True
  obtain j where j: "1 \<le> j" "j < 2 ^ 32" "\<not> has_collision (candidate base j) bodies"
    using free_candidate [OF assms] by blast
  obtain b k where b: "boundary_loop base bodies (candidate base 1) 1 = Some b"
    "\<not> has_collision b bodies" "b = candidate base k"
    using boundary_loop_finds [OF j] by blast
  have one: "(0 + 1) mod 2 ^ 32 = (1::nat)" by simp
  have "boundary_loop base bodies base 0 = boundary_loop base bodies (candidate base 1) 1"
    by (subst boundary_loop.simps) (simp only: True not_True_eq_False if_False Let_def one)
  then have f: "find_unique_boundary base bodies = Some b" by (simp only: find_unique_boundary_def b(1))
  have ne: "b \<noteq> base" using b(2) True by metis
  show ?thesis by (rule exI [of _ b]) (use f ne b(2) True exI [of "\<lambda>k. b = candidate base k", OF b(3)] in simp)
qed

text \<open>The search for a boundary ends: for bodies of less than about 850 million bytes in total the
  loop returns, before its 32-bit suffix wraps round, a boundary that occurs in no part body.\<close>

theorem find_unique_boundary_terminates:
  assumes "5 * (\<Sum>b\<leftarrow>bodies. length b + 1) < 2 ^ 32 - 1"
  shows "\<exists>b. find_unique_boundary base bodies = Some b \<and> \<not> list_ex (occurs (as_bytes b)) bodies"
  using find_unique_boundary_finds [OF assms, of base] by (auto simp: has_collision_def)

theorem find_unique_boundary_terminates_witness:
  "\<exists>b. find_unique_boundary ''B'' [as_bytes ''xBy'', as_bytes ''B0001''] = Some b \<and>
     \<not> list_ex (occurs (as_bytes b)) [as_bytes ''xBy'', as_bytes ''B0001'']"
  by (rule find_unique_boundary_terminates) simp

text \<open>The announced boundary can be the wrong one: \<open>content_type\<close> always names the builder's own
  boundary, but when that text occurs in a part body the body is written with another one, so a
  receiver that follows the header looks for a delimiter that is not there.\<close>

theorem content_type_boundary_mismatch:
  assumes "p \<in> set (mb_parts mb)" and "occurs (as_bytes (mb_boundary mb)) (pbody p)"
    and "5 * (\<Sum>b\<leftarrow>map pbody (mb_parts mb). length b + 1) < 2 ^ 32 - 1"
  shows "\<exists>b. build mb = Some (wire b (mb_parts mb)) \<and>
    builder_content_type mb \<noteq> ''multipart/form-data; boundary='' @ b"
proof -
  have "has_collision (mb_boundary mb) (map pbody (mb_parts mb))"
    using assms(1,2) by (auto simp: has_collision_def list_ex_iff)
  with find_unique_boundary_finds [OF assms(3), of "mb_boundary mb"]
  show ?thesis by (auto simp: build_def builder_content_type_def)
qed

theorem content_type_boundary_mismatch_witness:
  "\<exists>b. build (add_text ''f'' ''a B b'' \<lparr>mb_boundary = ''B'', mb_parts = []\<rparr>) =
      Some (wire b [part_text ''f'' ''a B b'']) \<and> ''multipart/form-data; boundary=B'' \<noteq> ''multipart/form-data; boundary='' @ b"
  using content_type_boundary_mismatch [of "part_text ''f'' ''a B b''"
      "add_text ''f'' ''a B b'' \<lparr>mb_boundary = ''B'', mb_parts = []\<rparr>"]
  by (simp add: add_text_def add_part_def part_text_def builder_content_type_def as_bytes_def starts_with_def)

subsection \<open>The wire format: lemmas and property\<close>

text \<open>The delimiter of RFC 2046 and the pieces between delimiters.\<close>

definition delimiter :: "string \<Rightarrow> bytes" where
  "delimiter boundary = crlf @ as_bytes ''--'' @ as_bytes boundary"

definition segment_of :: "part \<Rightarrow> bytes" where
  "segment_of p = crlf @ concat (map (\<lambda>(k, v). as_bytes k @ as_bytes '': '' @ as_bytes v @ crlf) (pheaders p))
     @ crlf @ pbody p"

fun cut_at :: "bytes \<Rightarrow> nat \<Rightarrow> bytes \<Rightarrow> bytes list" where
  "cut_at d 0 s = [s]"
| "cut_at d (Suc n) s = (case split_once_str d s of None \<Rightarrow> [s] | Some (a, r) \<Rightarrow> a # cut_at d n r)"

lemma split_once_str_first:
  assumes "\<And>u w. w \<noteq> [] \<Longrightarrow> s = u @ w \<Longrightarrow> \<not> starts_with d (w @ d @ rest)"
  shows "split_once_str d (s @ d @ rest) = Some (s, rest)"
  using assms
proof (induction s)
  case Nil
  have "starts_with d (d @ rest)" by (rule starts_with_append)
  then show ?case by (cases "d @ rest") (auto, metis append_eq_conv_conj)
next
  case (Cons x s)
  have "\<not> starts_with d ((x # s) @ d @ rest)" using Cons.prems [of "x # s" "[]"] by simp
  moreover have "split_once_str d (s @ d @ rest) = Some (s, rest)"
    using Cons.prems by (intro Cons.IH) (metis append_Cons)
  ultimately show ?case by simp
qed

definition plain_boundary :: "string \<Rightarrow> bool" where
  "plain_boundary b \<longleftrightarrow> b \<noteq> '''' \<and> 0x0D \<notin> set (as_bytes b) \<and> 0x0A \<notin> set (as_bytes b)"

text \<open>A delimiter cannot begin inside a text without the boundary, also not by overlapping with the
  real delimiter that follows: only its first byte is a carriage return.\<close>

lemma delimiter_no_overlap:
  assumes b: "plain_boundary b" and no: "\<not> occurs (as_bytes b) s" and s: "s = u @ w" "w \<noteq> []"
  shows "\<not> starts_with (delimiter b) (w @ delimiter b @ rest)"
proof
  let ?d = "delimiter b"
  assume "starts_with ?d (w @ ?d @ rest)"
  then obtain t where t: "w @ ?d @ rest = ?d @ t" by (auto simp: starts_with_iff)
  show False
  proof (cases "length ?d \<le> length w")
    case True
    then obtain w' where "w = ?d @ w'" using t by (metis append_eq_append_conv_if append_take_drop_id)
    then have "s = (u @ crlf @ as_bytes ''--'') @ as_bytes b @ w'" by (simp add: s delimiter_def)
    then have "occurs (as_bytes b) s" unfolding occurs_iff by blast
    with no show False ..
  next
    case False
    then have k: "length w < length ?d" "0 < length w" using s(2) by auto
    have "?d \<noteq> []" by (simp add: delimiter_def crlf_def)
    then have "(w @ ?d @ rest) ! length w = ?d ! 0" using k by (simp add: nth_append)
    moreover have "(?d @ t) ! length w = ?d ! length w" using k(1) by (simp add: nth_append)
    ultimately have "?d ! length w = ?d ! 0" using t by metis
    moreover have "?d ! 0 = 0x0D" by (simp add: delimiter_def crlf_def)
    ultimately have e: "?d ! length w = 0x0D" by simp
    have "?d ! length w \<in> set (tl ?d)"
    proof -
      have l: "length w - 1 < length (tl ?d)" using k unfolding length_tl by linarith
      have "tl ?d ! (length w - 1) = ?d ! length w" using l k(2) by (simp add: nth_tl)
      with nth_mem [OF l] show ?thesis by metis
    qed
    moreover have "0x0D \<notin> set (tl ?d)"
      using b by (auto simp: delimiter_def crlf_def plain_boundary_def as_bytes_def)
    ultimately show False using e by metis
  qed
qed

lemma split_at_delimiter:
  assumes "plain_boundary b" and "\<not> occurs (as_bytes b) s"
  shows "split_once_str (delimiter b) (s @ delimiter b @ rest) = Some (s, rest)"
  by (rule split_once_str_first) (rule delimiter_no_overlap [OF assms])

text \<open>A boundary does not reach over a line break.\<close>

lemma occurs_crlf:
  assumes "plain_boundary b" and "occurs (as_bytes b) (s @ crlf @ t)"
  shows "occurs (as_bytes b) s \<or> occurs (as_bytes b) t"
proof -
  let ?b = "as_bytes b"
  obtain u v where uv: "s @ crlf @ t = u @ ?b @ v" using assms(2) by (auto simp: occurs_iff)
  have ne: "0 < length ?b" using assms(1) by (simp add: plain_boundary_def)
  consider "length u + length ?b \<le> length s" | "length s + 2 \<le> length u"
    | "length u < length s + 2" "length s < length u + length ?b" by linarith
  then show ?thesis
  proof cases
    case 1
    then have "take (length s) (u @ ?b @ v) = u @ ?b @ take (length s - length u - length ?b) v" by simp
    moreover have "take (length s) (s @ crlf @ t) = s" by simp
    ultimately have "s = u @ ?b @ take (length s - length u - length ?b) v" using uv by metis
    then show ?thesis by (auto simp: occurs_iff)
  next
    case 2
    then have "drop (length s + 2) (u @ ?b @ v) = drop (length s + 2) u @ ?b @ v" by simp
    moreover have "drop (length s + 2) (s @ crlf @ t) = t" by (simp add: crlf_def)
    ultimately have "t = drop (length s + 2) u @ ?b @ v" using uv by metis
    then show ?thesis by (auto simp: occurs_iff)
  next
    case 3
    obtain i where i: "length u \<le> i" "i < length u + length ?b" "i = length s \<or> i = length s + 1"
    proof (cases "length u \<le> length s")
      case True
      with 3 show ?thesis by (intro that [of "length s"]) simp_all
    next
      case False
      then have "length s + 1 < length u + length ?b" using ne by linarith
      with 3 False show ?thesis by (intro that [of "length s + 1"]) simp_all
    qed
    have j: "i - length u < length ?b" "\<not> i < length u" using i by linarith+
    then have "(u @ ?b @ v) ! i = ?b ! (i - length u)" by (simp only: nth_append if_True if_False)
    moreover have "?b ! (i - length u) \<in> set ?b" using j(1) by (rule nth_mem)
    moreover have "(s @ crlf @ t) ! i \<in> {0x0D, 0x0A}" using i(3) by (auto simp: nth_append crlf_def)
    ultimately show ?thesis using uv assms(1) by (auto simp: plain_boundary_def)
  qed
qed

lemma not_occurs_segment:
  assumes b: "plain_boundary b"
    and hs: "\<forall>(k, v) \<in> set (pheaders p). \<not> occurs (as_bytes b) (as_bytes k @ as_bytes '': '' @ as_bytes v)"
    and body: "\<not> occurs (as_bytes b) (pbody p)"
  shows "\<not> occurs (as_bytes b) (segment_of p)"
proof
  have nil: "\<not> occurs (as_bytes b) []" using b by (simp add: plain_boundary_def as_bytes_def)
  have h: "\<not> occurs (as_bytes b) (concat (map (\<lambda>(k, v). as_bytes k @ as_bytes '': '' @ as_bytes v @ crlf) hs) @ crlf @ pbody p)"
    if "\<forall>(k, v) \<in> set hs. \<not> occurs (as_bytes b) (as_bytes k @ as_bytes '': '' @ as_bytes v)" for hs
    using that
  proof (induction hs)
    case Nil
    then show ?case using occurs_crlf [OF b, of "[]" "pbody p"] nil body by auto
  next
    case (Cons kv hs)
    obtain k v where kv: "kv = (k, v)" by fastforce
    show ?case
      using occurs_crlf [OF b, of "as_bytes k @ as_bytes '': '' @ as_bytes v"] Cons kv by auto
  qed
  assume "occurs (as_bytes b) (segment_of p)"
  then show False
    using occurs_crlf [OF b, of "[]"] nil h [OF hs] unfolding segment_of_def by fastforce
qed

lemma wire_delimited:
  "crlf @ wire b parts = concat (map (\<lambda>p. delimiter b @ segment_of p) parts) @ delimiter b @ as_bytes ''--'' @ crlf"
proof -
  have "crlf @ concat (map (\<lambda>p. part_preamble b (pheaders p) @ pbody p @ crlf) parts) @ final_boundary b =
      concat (map (\<lambda>p. delimiter b @ segment_of p) parts) @ crlf @ final_boundary b"
  proof (induction parts)
    case (Cons p parts)
    have "crlf @ part_preamble b (pheaders p) @ pbody p @ x = delimiter b @ segment_of p @ x" for x
      by (simp add: part_preamble_def delimiter_def segment_of_def)
    with Cons show ?case by simp
  qed simp
  then show ?thesis by (simp add: wire_def final_boundary_def delimiter_def)
qed

text \<open>What a boundary that was found is, whenever the loop returns one, for bodies of any size.\<close>

lemma boundary_loop_result:
  assumes "boundary_loop base bodies x k = Some b" and "x = base \<or> (\<exists>j. x = candidate base j)"
  shows "\<not> has_collision b bodies \<and> (b = base \<or> (\<exists>j. b = candidate base j))"
  using assms
proof (induction base bodies x k b rule: boundary_loop.raw_induct [rotated, consumes 1, case_names step])
  case (step loop base bodies x k b)
  show ?case
  proof (cases "has_collision x bodies")
    case True
    let ?k = "(k + 1) mod 2 ^ 32"
    from True step(2) have "loop base bodies (candidate base ?k) ?k = Some b" by (simp only: not_True_eq_False if_False Let_def)
    from step(1) [OF this] show ?thesis by blast
  next
    case False
    with step(2,3) show ?thesis by auto
  qed
qed

lemma hex_plain: "c \<in> set (show_hex n) \<Longrightarrow> c \<noteq> CHR 0x0D \<and> c \<noteq> CHR 0x0A"
  by (auto dest!: show_hex_digits simp: is_hex_digit_def is_digit_def)

lemma as_bytes_member: "b \<in> set (as_bytes s) \<longleftrightarrow> char_of (unat b) \<in> set s"
proof -
  have "unat b < 2 ^ LENGTH(8)" by (rule unsigned_less)
  then have b: "of_char (char_of (unat b)) = unat b" by simp
  have "b = of_nat (of_char c) \<longleftrightarrow> c = char_of (unat b)" for c
  proof
    assume "b = of_nat (of_char c)"
    then have "unat b = of_char c" by (simp only: unat_of_nat_of_char)
    then show "c = char_of (unat b)" by (simp only: char_of_char)
  qed (simp only: b, simp add: word_unat_eq_iff unat_of_nat)
  then show ?thesis by (auto simp: as_bytes_def)
qed

lemma plain_boundary_iff: "plain_boundary b \<longleftrightarrow> b \<noteq> [] \<and> CHR 0x0D \<notin> set b \<and> CHR 0x0A \<notin> set b"
proof -
  have "char_of (unat (0x0D :: u8)) = CHR 0x0D" "char_of (unat (0x0A :: u8)) = CHR 0x0A" by code_simp+
  then show ?thesis by (simp add: plain_boundary_def as_bytes_member)
qed

lemma candidate_plain: "plain_boundary base \<Longrightarrow> plain_boundary (candidate base k)"
  by (auto simp: plain_boundary_iff candidate_def pad_left_def dest: hex_plain)

text \<open>C7. The body is unambiguous: cutting what \<open>build\<close> writes at the delimiter of the boundary that it
  chose gives exactly the parts, in order, each with its own headers and its body byte for byte,
  then the closing mark; the bodies may contain anything, line breaks and dashes included, and be
  of any size for which \<open>build\<close> returns. Two things the code does not check are assumed: the
  builder's own boundary is not empty and has no line break (every generated one is like that), and
  the headers do not contain the chosen boundary.\<close>

theorem build_unambiguous:
  assumes "build mb = Some out" and "find_unique_boundary (mb_boundary mb) (map pbody (mb_parts mb)) = Some b"
    and "plain_boundary (mb_boundary mb)"
    and "\<forall>p \<in> set (mb_parts mb). \<forall>(k, v) \<in> set (pheaders p).
      \<not> occurs (as_bytes b) (as_bytes k @ as_bytes '': '' @ as_bytes v)"
  shows "cut_at (delimiter b) (Suc (length (mb_parts mb))) (crlf @ out) =
    [] # map segment_of (mb_parts mb) @ [as_bytes ''--'' @ crlf]"
proof -
  have out: "out = wire b (mb_parts mb)" using assms(1,2) by (simp add: build_def)
  have "\<not> has_collision b (map pbody (mb_parts mb)) \<and> (b = mb_boundary mb \<or> (\<exists>j. b = candidate (mb_boundary mb) j))"
    using boundary_loop_result assms(2) unfolding find_unique_boundary_def by blast
  then have "\<not> has_collision b (map pbody (mb_parts mb))" and plain: "plain_boundary b"
    using assms(3) candidate_plain by auto
  from this(1) have "\<forall>p \<in> set (mb_parts mb). \<not> occurs (as_bytes b) (pbody p)"
    by (auto simp: has_collision_def list_ex_iff)
  with assms(4) have seg: "\<forall>p \<in> set (mb_parts mb). \<not> occurs (as_bytes b) (segment_of p)"
    using not_occurs_segment [OF plain] by blast
  have cut: "cut_at (delimiter b) (Suc (length ps))
      (s @ concat (map (\<lambda>p. delimiter b @ segment_of p) ps) @ delimiter b @ fin) =
      s # map segment_of ps @ [fin]"
    if "\<not> occurs (as_bytes b) s" and "\<forall>p \<in> set ps. \<not> occurs (as_bytes b) (segment_of p)" for s ps fin
    using that
  proof (induction ps arbitrary: s)
    case Nil
    then show ?case by (simp add: split_at_delimiter [OF plain])
  next
    case (Cons p ps)
    let ?rest = "segment_of p @ concat (map (\<lambda>p. delimiter b @ segment_of p) ps) @ delimiter b @ fin"
    have "split_once_str (delimiter b) (s @ delimiter b @ ?rest) = Some (s, ?rest)"
      by (rule split_at_delimiter [OF plain Cons.prems(1)])
    moreover have "cut_at (delimiter b) (Suc (length ps)) ?rest = segment_of p # map segment_of ps @ [fin]"
      using Cons.prems(2) by (intro Cons.IH) auto
    ultimately show ?case by simp
  qed
  have "\<not> occurs (as_bytes b) []" using plain by (simp add: plain_boundary_def as_bytes_def)
  from cut [OF this seg, of "as_bytes ''--'' @ crlf"] show ?thesis
    unfolding out wire_delimited by simp
qed

theorem build_unambiguous_witness:
  "\<exists>out. build (add_text ''f'' ''x--y'' \<lparr>mb_boundary = ''BBB'', mb_parts = []\<rparr>) = Some out \<and>
     cut_at (delimiter ''BBB'') 2 (crlf @ out) = [[], segment_of (part_text ''f'' ''x--y''), as_bytes ''--'' @ crlf]"
proof -
  let ?mb = "add_text ''f'' ''x--y'' \<lparr>mb_boundary = ''BBB'', mb_parts = []\<rparr>"
  have parts: "mb_parts ?mb = [part_text ''f'' ''x--y'']" "mb_boundary ?mb = ''BBB''"
    by (simp_all add: add_text_def add_part_def)
  have body: "pbody (part_text ''f'' ''x--y'') = as_bytes ''x--y''" by (simp add: part_text_def)
  have "\<not> has_collision ''BBB'' [as_bytes ''x--y'']"
    by (simp add: has_collision_def as_bytes_def starts_with_def)
  then have f: "find_unique_boundary (mb_boundary ?mb) (map pbody (mb_parts ?mb)) = Some ''BBB''"
    unfolding find_unique_boundary_def parts by (subst boundary_loop.simps) (simp add: body)
  have h: "\<forall>p \<in> set (mb_parts ?mb). \<forall>(k, v) \<in> set (pheaders p).
      \<not> occurs (as_bytes ''BBB'') (as_bytes k @ as_bytes '': '' @ as_bytes v)"
    by (simp add: parts part_text_def quoted_def sanitize_header_param_def sanitize_char_def as_bytes_def
        starts_with_def)
  have p: "plain_boundary (mb_boundary ?mb)" by (simp add: parts plain_boundary_def as_bytes_def)
  obtain out where o': "build ?mb = Some out" using f by (simp add: build_def)
  from build_unambiguous [OF o' f p h] o' show ?thesis by (simp add: parts numeral_2_eq_2)
qed

subsection \<open>The stream: lemmas and property\<close>

text \<open>A stream that ends, and the bytes that it yields, in chunks of any sizes and with any pauses.\<close>

inductive yields :: "'s poller \<Rightarrow> 's \<Rightarrow> bytes \<Rightarrow> bool" for nxt :: "'s poller" where
  finished: "nxt s = (s', Ready None) \<Longrightarrow> yields nxt s []"
| chunk: "nxt s = (s', Ready (Some (Inr c))) \<Longrightarrow> yields nxt s' d \<Longrightarrow> yields nxt s (c @ d)"
| pause: "nxt s = (s', Pending) \<Longrightarrow> yields nxt s' d \<Longrightarrow> yields nxt s d"

lemma mp_poll_eqs:
  "mp_poll_next nxt [] = Some ([], Ready None)"
  "mp_poll_next nxt (ReadyChunk b # rest) =
     (if b = [] then mp_poll_next nxt rest else Some (rest, Ready (Some (Inr b))))"
  "nxt s = (s', Ready None) \<Longrightarrow> mp_poll_next nxt (Nested s # rest) = mp_poll_next nxt rest"
  "nxt s = (s', Ready (Some (Inr c))) \<Longrightarrow> mp_poll_next nxt (Nested s # rest) =
     (if c = [] then mp_poll_next nxt (Nested s' # rest) else Some (Nested s' # rest, Ready (Some (Inr c))))"
  "nxt s = (s', Ready (Some (Inl e))) \<Longrightarrow> mp_poll_next nxt (Nested s # rest) = Some (rest, Ready (Some (Inl e)))"
  "nxt s = (s', Pending) \<Longrightarrow> mp_poll_next nxt (Nested s # rest) = Some (Nested s' # rest, Pending)"
  by (subst mp_poll_next.simps; simp)+

lemma mp_drain_same_poll:
  "mp_poll_next nxt q = mp_poll_next nxt q' \<Longrightarrow> mp_drain nxt q acc = mp_drain nxt q' acc"
  by (subst (1 2) mp_drain.simps) simp

lemma mp_drain_step:
  "mp_poll_next nxt q = Some (q', Ready None) \<Longrightarrow> mp_drain nxt q acc = Some (Inr acc)"
  "mp_poll_next nxt q = Some (q', Ready (Some (Inr c))) \<Longrightarrow> mp_drain nxt q acc = mp_drain nxt q' (acc @ c)"
  "mp_poll_next nxt q = Some (q', Ready (Some (Inl e))) \<Longrightarrow> mp_drain nxt q acc = Some (Inl e)"
  "mp_poll_next nxt q = Some (q', Pending) \<Longrightarrow> mp_drain nxt q acc = mp_drain nxt q' acc"
  by (subst mp_drain.simps; simp)+

lemma mp_drain_ready: "mp_drain nxt (ReadyChunk b # rest) acc = mp_drain nxt rest (acc @ b)"
proof (cases "b = []")
  case True
  then show ?thesis using mp_drain_same_poll [of nxt "ReadyChunk b # rest" rest acc] by (simp add: mp_poll_eqs)
next
  case False
  then show ?thesis by (intro mp_drain_step(2)) (simp add: mp_poll_eqs)
qed

lemma mp_drain_nested:
  "yields nxt s d \<Longrightarrow> mp_drain nxt (Nested s # rest) acc = mp_drain nxt rest (acc @ d)"
proof (induction arbitrary: acc rule: yields.induct)
  case (finished s s')
  then show ?case using mp_drain_same_poll [of nxt "Nested s # rest" rest acc] by (simp add: mp_poll_eqs(3))
next
  case (chunk s s' c d)
  have "mp_drain nxt (Nested s # rest) acc = mp_drain nxt (Nested s' # rest) (acc @ c)"
  proof (cases "c = []")
    case True
    then show ?thesis
      using mp_drain_same_poll [of nxt "Nested s # rest" "Nested s' # rest" acc] mp_poll_eqs(4) [of nxt s s' c rest, OF chunk(1)]
      by simp
  next
    case False
    then show ?thesis by (intro mp_drain_step(2)) (simp add: mp_poll_eqs(4) [of nxt s s' c rest, OF chunk(1)])
  qed
  then show ?case using chunk.IH [of "acc @ c"] by simp
next
  case (pause s s' d)
  have "mp_drain nxt (Nested s # rest) acc = mp_drain nxt (Nested s' # rest) acc"
    by (rule mp_drain_step(4), rule mp_poll_eqs(6), rule pause(1))
  then show ?case using pause.IH by simp
qed

text \<open>What a part of the streaming builder stands for.\<close>

fun part_yields :: "'s poller \<Rightarrow> 's part_or_stream \<Rightarrow> part \<Rightarrow> bool" where
  "part_yields nxt (Buffered p) q \<longleftrightarrow> q = p"
| "part_yields nxt (Streamed hs s) q \<longleftrightarrow> pheaders q = hs \<and> yields nxt s (pbody q)"

lemma mp_drain_part:
  assumes "part_yields nxt ps p"
  shows "mp_drain nxt (part_chunks b ps @ rest) acc =
    mp_drain nxt rest (acc @ part_preamble b (pheaders p) @ pbody p @ crlf)"
  using assms by (cases ps) (auto simp: mp_drain_ready mp_drain_nested)

lemma mp_drain_parts:
  "list_all2 (part_yields nxt) pss parts \<Longrightarrow>
   mp_drain nxt (concat (map (part_chunks b) pss) @ rest) acc =
   mp_drain nxt rest (acc @ concat (map (\<lambda>p. part_preamble b (pheaders p) @ pbody p @ crlf) parts))"
  by (induction arbitrary: acc rule: list_all2_induct) (simp_all add: mp_drain_part)

text \<open>C28. Streaming equals buffering: for parts whose streams end, however their data is cut into chunks
  and pauses, polling the streamed body to its end always ends and delivers byte for byte the
  wire format of the buffered builder, with each stream's bytes as the part's body; empty chunks
  neither end the body early nor loop.\<close>

theorem streaming_equals_buffered:
  assumes "list_all2 (part_yields nxt) (sm_parts sm) parts" and "sm_find_unique_boundary sm = Some b"
  shows "\<exists>queue. build_stream sm = Some queue \<and> mp_drain nxt queue [] = Some (Inr (wire b parts))"
proof -
  let ?q = "concat (map (part_chunks b) (sm_parts sm)) @ [ReadyChunk (final_boundary b)]"
  have "mp_drain nxt [] acc = Some (Inr acc)" for acc
    by (rule mp_drain_step(1)) (rule mp_poll_eqs(1))
  then have "mp_drain nxt ?q [] = Some (Inr (wire b parts))"
    by (simp add: mp_drain_parts [OF assms(1)] mp_drain_ready wire_def)
  moreover have "build_stream sm = Some ?q" using assms(2) by (simp add: build_stream_def)
  ultimately show ?thesis by blast
qed

text \<open>A stream given by the results of its polls.\<close>

fun list_poller :: "polled list poller" where
  "list_poller [] = ([], Ready None)"
| "list_poller (p # ps) = (ps, p)"

theorem streaming_equals_buffered_witness:
  "\<exists>queue. build_stream (add_stream_part [] [Ready (Some (Inr [1])), Pending, Ready (Some (Inr [])), Ready (Some (Inr [2]))]
      \<lparr>mb_boundary = ''BBB'', mb_parts = [part_text ''f'' ''v'']\<rparr>) = Some queue \<and>
    mp_drain list_poller queue [] = Some (Inr (wire ''BBB'' [part_text ''f'' ''v'', part_custom [] [1, 2]]))"
proof (rule streaming_equals_buffered)
  let ?s = "[Ready (Some (Inr [1])), Pending, Ready (Some (Inr [])), Ready (Some (Inr [2]))]"
  have "yields list_poller [] []" by (rule finished) simp
  then have "yields list_poller [Ready (Some (Inr [2]))] ([2] @ [])" by (rule chunk [rotated]) simp
  then have "yields list_poller [Ready (Some (Inr [])), Ready (Some (Inr [2]))] ([] @ [2] @ [])"
    by (rule chunk [rotated]) simp
  then have "yields list_poller [Pending, Ready (Some (Inr [])), Ready (Some (Inr [2]))] ([] @ [2] @ [])"
    by (rule pause [rotated]) simp
  then have "yields list_poller ?s ([1] @ [] @ [2] @ [])" by (rule chunk [rotated]) simp
  then show "list_all2 (part_yields list_poller)
      (sm_parts (add_stream_part [] ?s \<lparr>mb_boundary = ''BBB'', mb_parts = [part_text ''f'' ''v'']\<rparr>))
      [part_text ''f'' ''v'', part_custom [] [1, 2]]"
    by (simp add: add_stream_part_def part_custom_def)
  have "\<not> has_collision ''BBB'' [as_bytes ''v'']" by (simp add: has_collision_def as_bytes_def starts_with_def)
  then show "sm_find_unique_boundary
      (add_stream_part [] ?s \<lparr>mb_boundary = ''BBB'', mb_parts = [part_text ''f'' ''v'']\<rparr>) = Some ''BBB''"
    unfolding sm_find_unique_boundary_def find_unique_boundary_def
    by (subst boundary_loop.simps) (simp add: add_stream_part_def part_text_def)
qed

end
