(* ===== verification/Client.thy ===== *)
theory Client
  imports ClientResponse ClientPolicy Multipart
begin

section \<open>The HTTP client: redirects, cookies and retries (oxihttp-client lib.rs)\<close>

text \<open>
  A request is sent hop by hop: \<open>hop\<close> builds the request, exchanges it, stores the cookies and
  decides on a redirect; \<open>send_loop\<close> is the loop over hops, \<open>send\<close> the loop over attempts. The
  connection pool of \<open>hyper\<close>, the clock and the timer are the record \<open>net\<close> over a world of type \<open>'w\<close>;
  a deadline that passes while the response is awaited drops the future there, which is the only
  place where it waits. The shared cookie jar is part of the environment, with the flag that a
  panic inside its critical section poisons the mutex. Policies may allow endless redirects, so the
  loop is a \<open>partial_function\<close>. What the network is handed is observed through the locale \<open>recording_net\<close>.
\<close>

subsection \<open>Requests, the network and the environment\<close>

record 's wire_request =
  wr_method :: string
  wr_uri :: uri
  wr_headers :: header_map
  wr_body :: "'s pinned_body"

datatype 'i net_reply = NetResponse "'i response" | NetError string | NetElapsed

record ('w, 's, 'i) net =
  exchange :: "nat option \<Rightarrow> 'w \<Rightarrow> 's wire_request \<Rightarrow> 'w \<times> 'i net_reply"
  clock :: "'w \<Rightarrow> nat"
  sleep :: "nat \<Rightarrow> 'w \<Rightarrow> 'w"

record 'w env =
  env_world :: 'w
  env_jar :: "cookie_jar option"
  env_poisoned :: bool

datatype 's outgoing = Reusable bytes | OneShot "'s body option"

definition already_sent_msg :: string where
  "already_sent_msg = ''streaming request body (multipart_stream) was already sent once and cannot be sent again ''
     @ of_bytes [0xE2, 0x80, 0x94] @ '' it cannot be retried and cannot follow a body-preserving (307/308) redirect''"

fun take_for_hop :: "'s outgoing \<Rightarrow> 's outgoing \<times> 's pinned_body oxi_result" where
  "take_for_hop (Reusable bs) = (Reusable bs, Inr (into_pinned (body_from bs)))"
| "take_for_hop (OneShot slot) =
     (OneShot None, case slot of Some b \<Rightarrow> Inr (into_pinned b) | None \<Rightarrow> Inl (BodyErr already_sent_msg))"

definition outgoing_clear :: "'s outgoing \<Rightarrow> 's outgoing" where
  "outgoing_clear b = Reusable []"

definition same_origin :: "uri \<Rightarrow> uri \<Rightarrow> bool" where
  "same_origin a b =
     (let scheme_a = (case uri_scheme a of Some s \<Rightarrow> s | None \<Rightarrow> ''http'');
          scheme_b = (case uri_scheme b of Some s \<Rightarrow> s | None \<Rightarrow> ''http'')
      in if \<not> eq_ignore_case scheme_a scheme_b then False
         else (case (uri_host a, uri_host b) of
                 (Some x, Some y) \<Rightarrow> eq_ignore_case x y
               | (None, None) \<Rightarrow> True
               | _ \<Rightarrow> False))"

definition resolve_redirect_uri :: "http_lib \<Rightarrow> uri \<Rightarrow> string \<Rightarrow> uri oxi_result" where
  "resolve_redirect_uri lib base location =
     (let relative =
        (let scheme = (case uri_scheme base of Some s \<Rightarrow> s | None \<Rightarrow> ''http'');
             authority = (case uri_authority base of Some a \<Rightarrow> a | None \<Rightarrow> ''localhost'')
         in map_sum InvalidUri id (uri_of lib (scheme @ ''://'' @ authority @ location)))
      in case uri_of lib location of
           Inr u \<Rightarrow> if uri_scheme u \<noteq> None then Inr u else relative
         | Inl _ \<Rightarrow> relative)"

record ('w, 's, 'i) cfg =
  cfg_lib :: http_lib
  cfg_net :: "('w, 's, 'i) net"
  cfg_feature :: bool
  cfg_redirect :: redirect_policy
  cfg_decompression :: bool
  cfg_max_body :: nat
  cfg_deadline :: "nat option"
  cfg_original :: uri

record 's hop_state =
  h_method :: string
  h_uri :: uri
  h_body :: "'s outgoing"
  h_headers :: header_map
  h_count :: nat

subsection \<open>One hop\<close>

definition with_accept_encoding :: "('w, 's, 'i) cfg \<Rightarrow> header_map \<Rightarrow> header_map" where
  "with_accept_encoding cfg hs =
     (if cfg_feature cfg \<and> cfg_decompression cfg \<and> \<not> hm_contains ''accept-encoding'' hs
      then hm_append ''accept-encoding'' ''gzip, deflate'' hs else hs)"

text \<open>The cookies of the jar replace a \<open>Cookie\<close> header of the request; a poisoned mutex is skipped.\<close>

definition with_jar_cookies :: "('w, 's, 'i) cfg \<Rightarrow> 'w env \<Rightarrow> uri \<Rightarrow> header_map \<Rightarrow> header_map" where
  "with_jar_cookies cfg env uri hs =
     (case env_jar env of None \<Rightarrow> hs
      | Some jar \<Rightarrow>
          if env_poisoned env then hs
          else (case cookie_header_for_url (clock (cfg_net cfg) (env_world env)) uri jar of
             None \<Rightarrow> hs
           | Some ch \<Rightarrow> if hv_error (cfg_lib cfg) ch = None then hm_insert ''cookie'' ch hs else hs))"

text \<open>\<open>None\<close> is the panic of the jar, raised while the mutex is held.\<close>

definition store_cookies :: "('w, 's, 'i) cfg \<Rightarrow> uri \<Rightarrow> header_map \<Rightarrow> 'w env \<Rightarrow> 'w env option" where
  "store_cookies cfg uri resp_hs env =
     (case env_jar env of None \<Rightarrow> Some env
      | Some jar \<Rightarrow>
          if env_poisoned env then Some env
          else map_option (\<lambda>jar'. env\<lparr>env_jar := Some jar'\<rparr>)
            (add_from_response_headers (clock (cfg_net cfg) (env_world env)) uri
               (map (to_str (cfg_lib cfg)) (hm_get_all ''set-cookie'' resp_hs)) jar))"

text \<open>The request of a hop, with the body left behind; the errors come before anything is sent.\<close>

definition hop_request ::
  "('w, 's, 'i) cfg \<Rightarrow> 'w env \<Rightarrow> 's hop_state \<Rightarrow> ('s outgoing \<times> 's wire_request) oxi_result" where
  "hop_request cfg env st =
     (let hs = with_accept_encoding cfg (h_headers st); (body', taken) = take_for_hop (h_body st) in
      rbind taken (\<lambda>pinned.
        case request_error (cfg_lib cfg) hs of Some e \<Rightarrow> Inl (HttpErr e)
        | None \<Rightarrow> Inr (body', \<lparr>wr_method = h_method st, wr_uri = h_uri st,
            wr_headers = with_jar_cookies cfg env (h_uri st) hs, wr_body = pinned\<rparr>)))"

datatype ('s, 'a) hop_result = Stop 'a | HopPanicked | HopElapsed | Follow "'s hop_state"

definition follow_redirect ::
  "('w, 's, 'i) cfg \<Rightarrow> 's hop_state \<Rightarrow> 's outgoing \<Rightarrow> 'i response \<Rightarrow> ('s, 'i client_response oxi_result) hop_result" where
  "follow_redirect cfg st body resp =
     (case hm_str (cfg_lib cfg) ''location'' (resp_headers resp) of
        None \<Rightarrow> Stop (Inl (RedirectErr ''redirect response missing Location header''))
      | Some location \<Rightarrow>
          (case resolve_redirect_uri (cfg_lib cfg) (h_uri st) location of
             Inl e \<Rightarrow> Stop (Inl e)
           | Inr new_uri \<Rightarrow>
               Follow \<lparr>h_method = redirect_method (resp_status resp) (h_method st),
                 h_uri = new_uri,
                 h_body = (if should_preserve_body (resp_status resp) then body else outgoing_clear body),
                 h_headers = (if same_origin (cfg_original cfg) new_uri then h_headers st
                              else hm_remove ''cookie'' (hm_remove ''authorization'' (h_headers st))),
                 h_count = h_count st + 1\<rparr>))"

definition hop_response ::
  "('w, 's, 'i) cfg \<Rightarrow> 's hop_state \<Rightarrow> 's outgoing \<Rightarrow> 'i response \<Rightarrow> ('s, 'i client_response oxi_result) hop_result" where
  "hop_response cfg st body resp =
     (let done_resp = Stop (Inr \<lparr>cr_inner = resp, cr_decompress = cfg_decompression cfg, cr_max_body = cfg_max_body cfg\<rparr>)
      in if is_redirect_status (resp_status resp) then
           (case max_redirects (cfg_redirect cfg) of
              None \<Rightarrow> follow_redirect cfg st body resp
            | Some mx \<Rightarrow>
                if mx = 0 then done_resp
                else if mx \<le> h_count st then
                  Stop (Inl (RedirectErr (''too many redirects (max: '' @ show_nat mx @ '')'')))
                else follow_redirect cfg st body resp)
         else done_resp)"

definition hop ::
  "('w, 's, 'i) cfg \<Rightarrow> 'w env \<Rightarrow> 's hop_state \<Rightarrow> 'w env \<times> ('s, 'i client_response oxi_result) hop_result" where
  "hop cfg env st =
     (case hop_request cfg env st of Inl e \<Rightarrow> (env, Stop (Inl e))
      | Inr (body', req) \<Rightarrow>
          (case exchange (cfg_net cfg) (cfg_deadline cfg) (env_world env) req of
             (w', NetError e) \<Rightarrow> (env\<lparr>env_world := w'\<rparr>, Stop (Inl (HyperErr e)))
           | (w', NetElapsed) \<Rightarrow> (env\<lparr>env_world := w'\<rparr>, HopElapsed)
           | (w', NetResponse resp) \<Rightarrow>
               (case store_cookies cfg (h_uri st) (resp_headers resp) (env\<lparr>env_world := w'\<rparr>) of
                  None \<Rightarrow> (env\<lparr>env_world := w', env_poisoned := True\<rparr>, HopPanicked)
                | Some env' \<Rightarrow> (env', hop_response cfg st body' resp))))"

datatype 'a run = Returned 'a | Panicked | Elapsed

partial_function (option) send_loop ::
  "('w, 's, 'i) cfg \<Rightarrow> 'w env \<Rightarrow> 's hop_state \<Rightarrow> ('w env \<times> 'i client_response oxi_result run) option" where
  "send_loop cfg env st =
     (case hop cfg env st of (env', r) \<Rightarrow>
       (case r of Stop x \<Rightarrow> Some (env', Returned x)
        | HopPanicked \<Rightarrow> Some (env', Panicked)
        | HopElapsed \<Rightarrow> Some (env', Elapsed)
        | Follow st' \<Rightarrow> send_loop cfg env' st'))"

definition first_hop :: "string \<Rightarrow> uri \<Rightarrow> 's outgoing \<Rightarrow> header_map \<Rightarrow> 's hop_state" where
  "first_hop m u b hs = \<lparr>h_method = m, h_uri = u, h_body = b, h_headers = hs, h_count = 0\<rparr>"

definition send_inner ::
  "('w, 's, 'i) cfg \<Rightarrow> 'w env \<Rightarrow> string \<Rightarrow> uri \<Rightarrow> 's outgoing \<Rightarrow> header_map \<Rightarrow>
     ('w env \<times> 'i client_response oxi_result run) option" where
  "send_inner cfg env m u b hs = send_loop (cfg\<lparr>cfg_original := u\<rparr>) env (first_hop m u b hs)"

subsection \<open>The request builder\<close>

text \<open>A middleware observes a request before it is sent and the response after it, and may change the world.\<close>

record 'w middleware =
  before_request :: "string \<Rightarrow> uri \<Rightarrow> header_map \<Rightarrow> 'w \<Rightarrow> 'w"
  after_response :: "nat \<Rightarrow> nat \<Rightarrow> 'w \<Rightarrow> 'w"

record ('w, 's) request_builder =
  q_method :: string
  q_uri :: uri
  q_headers :: header_map
  q_body :: bytes
  q_stream_body :: "'s body option"
  q_timeout :: "nat option"
  q_redirect :: redirect_policy
  q_retry :: "retry_policy option"
  q_decompression :: bool
  q_max_body :: nat
  q_middleware :: "'w middleware list"

definition q_header :: "http_lib \<Rightarrow> string \<Rightarrow> string \<Rightarrow> ('w, 's) request_builder \<Rightarrow> ('w, 's) request_builder oxi_result" where
  "q_header lib key v q = map_sum id (\<lambda>h. q\<lparr>q_headers := h\<rparr>) (checked_header lib key v (q_headers q))"

definition q_add_headers :: "header_map \<Rightarrow> ('w, 's) request_builder \<Rightarrow> ('w, 's) request_builder" where
  "q_add_headers m q = q\<lparr>q_headers := hm_extend (q_headers q) m\<rparr>"

definition q_bearer_token :: "http_lib \<Rightarrow> string \<Rightarrow> ('w, 's) request_builder \<Rightarrow> ('w, 's) request_builder oxi_result" where
  "q_bearer_token lib token q =
     map_sum id (\<lambda>h. q\<lparr>q_headers := h\<rparr>) (hm_set lib id ''authorization'' (''Bearer '' @ token) (q_headers q))"

text \<open>The client has its own copy of the encoder, the same code.\<close>

definition client_base64_encode :: "bytes \<Rightarrow> string" where
  "client_base64_encode data = base64_encode data"

definition q_basic_auth ::
  "http_lib \<Rightarrow> string \<Rightarrow> string option \<Rightarrow> ('w, 's) request_builder \<Rightarrow> ('w, 's) request_builder oxi_result" where
  "q_basic_auth lib username password q =
     (let credentials = (case password of Some pw \<Rightarrow> username @ '':'' @ pw | None \<Rightarrow> username @ '':'');
          encoded = client_base64_encode (as_bytes credentials)
      in map_sum id (\<lambda>h. q\<lparr>q_headers := h\<rparr>) (hm_set lib id ''authorization'' (''Basic '' @ encoded) (q_headers q)))"

definition q_set_body :: "bytes \<Rightarrow> ('w, 's) request_builder \<Rightarrow> ('w, 's) request_builder" where
  "q_set_body b q = q\<lparr>q_body := b, q_stream_body := None\<rparr>"

definition q_json :: "string + bytes \<Rightarrow> ('w, 's) request_builder \<Rightarrow> ('w, 's) request_builder oxi_result" where
  "q_json json q =
     (case json of Inl e \<Rightarrow> Inl (JsonErr e)
      | Inr bs \<Rightarrow> Inr (q_set_body bs q\<lparr>q_headers := hm_insert ''content-type'' ''application/json'' (q_headers q)\<rparr>))"

definition q_form ::
  "http_lib \<Rightarrow> (string \<Rightarrow> string) \<Rightarrow> form_body \<Rightarrow> ('w, 's) request_builder \<Rightarrow> ('w, 's) request_builder" where
  "q_form lib enc flds q =
     (let q' = q_set_body (form_build enc flds) q; ct = ''application/x-www-form-urlencoded'' in
      if hv_error lib ct = None then q'\<lparr>q_headers := hm_insert ''content-type'' ct (q_headers q)\<rparr> else q')"

definition default_content_type :: "http_lib \<Rightarrow> string \<Rightarrow> header_map \<Rightarrow> header_map" where
  "default_content_type lib ct h =
     (if \<not> hm_contains ''content-type'' h \<and> hv_error lib ct = None then hm_insert ''content-type'' ct h else h)"

definition q_multipart ::
  "http_lib \<Rightarrow> multipart_builder \<Rightarrow> ('w, 's) request_builder \<Rightarrow> ('w, 's) request_builder option" where
  "q_multipart lib mb q =
     (let ct_str = builder_content_type mb in
      map_option (\<lambda>b. q_set_body b q\<lparr>q_headers := default_content_type lib ct_str (q_headers q)\<rparr>) (build mb))"

definition q_multipart_stream ::
  "http_lib \<Rightarrow> 't streaming_multipart \<Rightarrow> ('w, 't pending_chunk list) request_builder \<Rightarrow>
     ('w, 't pending_chunk list) request_builder option" where
  "q_multipart_stream lib sm q =
     (let ct_str = sm_content_type sm in
      map_option (\<lambda>queue. q\<lparr>q_body := [], q_stream_body := Some (BodyStream queue),
        q_headers := default_content_type lib ct_str (q_headers q)\<rparr>) (build_stream sm))"

definition q_set_timeout :: "nat \<Rightarrow> ('w, 's) request_builder \<Rightarrow> ('w, 's) request_builder" where
  "q_set_timeout d q = q\<lparr>q_timeout := Some d\<rparr>"

definition q_max_response_body :: "nat \<Rightarrow> ('w, 's) request_builder \<Rightarrow> ('w, 's) request_builder" where
  "q_max_response_body n q = q\<lparr>q_max_body := n\<rparr>"

subsection \<open>Sending with retries\<close>

text \<open>\<open>max_retries + 1\<close> is an addition of \<open>u32\<close>: it wraps in a release build.\<close>

definition max_attempts :: "('w, 's) request_builder \<Rightarrow> nat" where
  "max_attempts q =
     (if q_stream_body q \<noteq> None then 1
      else case q_retry q of Some p \<Rightarrow> (max_retries p + 1) mod 2 ^ 32 | None \<Rightarrow> 1)"

definition attempt_cfg ::
  "http_lib \<Rightarrow> ('w, 's, 'i) net \<Rightarrow> bool \<Rightarrow> ('w, 's) request_builder \<Rightarrow> ('w, 's, 'i) cfg" where
  "attempt_cfg lib nt feature q =
     \<lparr>cfg_lib = lib, cfg_net = nt, cfg_feature = feature, cfg_redirect = q_redirect q,
      cfg_decompression = q_decompression q, cfg_max_body = q_max_body q, cfg_deadline = q_timeout q,
      cfg_original = q_uri q\<rparr>"

definition timed_out_msg :: "nat \<Rightarrow> string" where
  "timed_out_msg dur = ''request timed out after '' @ show_nat (dur div 1000000) @ ''ms''"

text \<open>The result of an attempt; \<open>None\<close> is a panic.\<close>

fun attempt_result :: "nat option \<Rightarrow> 'a oxi_result run \<Rightarrow> 'a oxi_result option" where
  "attempt_result dl (Returned r) = Some r"
| "attempt_result dl Elapsed = Some (Inl (TimeoutErr (timed_out_msg (case dl of Some d \<Rightarrow> d | None \<Rightarrow> 0))))"
| "attempt_result dl Panicked = None"

fun should_retry_error :: "retry_policy \<Rightarrow> oxi_error \<Rightarrow> bool" where
  "should_retry_error p (HyperErr _) = retry_on_connection_error p"
| "should_retry_error p (TimeoutErr _) = retry_on_timeout p"
| "should_retry_error p (IoErr _) = retry_on_connection_error p"
| "should_retry_error p _ = False"

fun should_retry :: "retry_policy option \<Rightarrow> 'i client_response oxi_result \<Rightarrow> bool" where
  "should_retry None r = False"
| "should_retry (Some p) (Inr resp) = should_retry_status (cr_status resp) p"
| "should_retry (Some p) (Inl e) = should_retry_error p e"

definition outgoing_of :: "('w, 's) request_builder \<Rightarrow> 's body option \<Rightarrow> 's outgoing" where
  "outgoing_of q slot = (if q_stream_body q \<noteq> None then OneShot slot else Reusable (q_body q))"

definition after_delay :: "('w, 's, 'i) net \<Rightarrow> nat \<Rightarrow> ('w, 's) request_builder \<Rightarrow> 'w env \<Rightarrow> 'w env" where
  "after_delay nt attempt q env =
     (case q_retry q of None \<Rightarrow> env
      | Some p \<Rightarrow> env\<lparr>env_world := sleep nt (backoff_delay attempt p) (env_world env)\<rparr>)"

definition run_after :: "('w, 's) request_builder \<Rightarrow> nat \<Rightarrow> nat \<Rightarrow> 'w env \<Rightarrow> 'w env" where
  "run_after q st elapsed env =
     env\<lparr>env_world := fold (\<lambda>mw. after_response mw st elapsed) (q_middleware q) (env_world env)\<rparr>"

text \<open>The loop over attempts; the first argument counts the attempts that are left, \<open>start\<close> is the
  instant of the first. The outer \<open>None\<close> is an endless chain of redirects, the inner one a panic.\<close>

fun attempts ::
  "nat \<Rightarrow> http_lib \<Rightarrow> ('w, 's, 'i) net \<Rightarrow> bool \<Rightarrow> ('w, 's) request_builder \<Rightarrow> nat \<Rightarrow> nat \<Rightarrow> 's body option \<Rightarrow>
     'w env \<Rightarrow> ('w env \<times> 'i client_response oxi_result option) option" where
  "attempts 0 lib nt feature q start attempt slot env =
     Some (env, Some (Inl (HyperErr ''max retries exceeded'')))"
| "attempts (Suc left) lib nt feature q start attempt slot env =
     Option.bind (send_inner (attempt_cfg lib nt feature q) env (q_method q) (q_uri q) (outgoing_of q slot) (q_headers q))
       (\<lambda>(env', run).
         case attempt_result (q_timeout q) run of
           None \<Rightarrow> Some (env', None)
         | Some r \<Rightarrow>
             if should_retry (q_retry q) r \<and> attempt < max_attempts q - 1 then
               attempts left lib nt feature q start (attempt + 1) None (after_delay nt attempt q env')
             else
               (case r of
                  Inl e \<Rightarrow> Some (env', Some (Inl e))
                | Inr resp \<Rightarrow>
                    Some (run_after q (cr_status resp) (clock nt (env_world env') - start) env', Some (Inr resp))))"

definition send_request ::
  "http_lib \<Rightarrow> ('w, 's, 'i) net \<Rightarrow> bool \<Rightarrow> ('w, 's) request_builder \<Rightarrow> 'w env \<Rightarrow>
     ('w env \<times> 'i client_response oxi_result option) option" where
  "send_request lib nt feature q env =
     (let w = fold (\<lambda>mw. before_request mw (q_method q) (q_uri q) (q_headers q)) (q_middleware q) (env_world env);
          start = clock nt w
      in attempts (max_attempts q) lib nt feature q start 0 (q_stream_body q) (env\<lparr>env_world := w\<rparr>))"

subsection \<open>The client\<close>

record ('w, 's) client =
  cl_redirect :: redirect_policy
  cl_retry :: "retry_policy option"
  cl_default_headers :: header_map
  cl_connect_timeout :: "nat option"
  cl_read_timeout :: "nat option"
  cl_decompression :: bool
  cl_max_response_body :: nat
  cl_middleware :: "'w middleware list"

definition client_request :: "http_lib \<Rightarrow> ('w, 's) client \<Rightarrow> string \<Rightarrow> string \<Rightarrow> ('w, 's) request_builder oxi_result" where
  "client_request lib c m url =
     (case uri_of lib url of Inl e \<Rightarrow> Inl (InvalidUri e)
      | Inr u \<Rightarrow> Inr \<lparr>q_method = m, q_uri = u, q_headers = fold (\<lambda>(k, v). hm_insert k v) (cl_default_headers c) [],
          q_body = [], q_stream_body = None, q_timeout = None, q_redirect = cl_redirect c, q_retry = cl_retry c,
          q_decompression = cl_decompression c, q_max_body = cl_max_response_body c, q_middleware = cl_middleware c\<rparr>)"

definition client_get :: "http_lib \<Rightarrow> ('w, 's) client \<Rightarrow> string \<Rightarrow> ('w, 's) request_builder oxi_result" where
  "client_get lib c = client_request lib c ''GET''"

definition client_post :: "http_lib \<Rightarrow> ('w, 's) client \<Rightarrow> string \<Rightarrow> ('w, 's) request_builder oxi_result" where
  "client_post lib c = client_request lib c ''POST''"

definition client_put :: "http_lib \<Rightarrow> ('w, 's) client \<Rightarrow> string \<Rightarrow> ('w, 's) request_builder oxi_result" where
  "client_put lib c = client_request lib c ''PUT''"

definition client_delete :: "http_lib \<Rightarrow> ('w, 's) client \<Rightarrow> string \<Rightarrow> ('w, 's) request_builder oxi_result" where
  "client_delete lib c = client_request lib c ''DELETE''"

definition client_patch :: "http_lib \<Rightarrow> ('w, 's) client \<Rightarrow> string \<Rightarrow> ('w, 's) request_builder oxi_result" where
  "client_patch lib c = client_request lib c ''PATCH''"

definition client_head :: "http_lib \<Rightarrow> ('w, 's) client \<Rightarrow> string \<Rightarrow> ('w, 's) request_builder oxi_result" where
  "client_head lib c = client_request lib c ''HEAD''"

text \<open>\<open>execute_body\<close>: one exchange, without redirects, retries, cookies or a deadline. \<open>execute\<close> is the
  same on a body in memory.\<close>

definition execute_body :: "('w, 's, 'i) net \<Rightarrow> ('w, 's) client \<Rightarrow> 's http_message \<Rightarrow> 'w \<Rightarrow> 'w \<times> 'i client_response oxi_result" where
  "execute_body nt c msg w =
     (case exchange nt None w \<lparr>wr_method = msg_method msg, wr_uri = msg_uri msg, wr_headers = msg_headers msg,
          wr_body = into_pinned (msg_body msg)\<rparr> of
        (w', NetResponse resp) \<Rightarrow>
          (w', Inr \<lparr>cr_inner = resp, cr_decompress = cl_decompression c, cr_max_body = cl_max_response_body c\<rparr>)
      | (w', NetError e) \<Rightarrow> (w', Inl (HyperErr e))
      | (w', NetElapsed) \<Rightarrow> (w', Inl (HyperErr '''')))"

definition execute :: "('w, 's, 'i) net \<Rightarrow> ('w, 's) client \<Rightarrow> bytes \<Rightarrow> 's http_message \<Rightarrow> 'w \<Rightarrow> 'w \<times> 'i client_response oxi_result" where
  "execute nt c full_body msg w = execute_body nt c (msg\<lparr>msg_body := body_from full_body\<rparr>) w"

definition client_get_bytes ::
  "http_lib \<Rightarrow> ('w, 's, 'i) net \<Rightarrow> codecs \<Rightarrow> (nat \<Rightarrow> string option) \<Rightarrow> 'i frame_poller \<Rightarrow> ('w, 's) client \<Rightarrow> string \<Rightarrow>
     'w env \<Rightarrow> ('w env \<times> bytes oxi_result option) option" where
  "client_get_bytes lib nt cs reason nxt c url env =
     (case client_get lib c url of Inl e \<Rightarrow> Some (env, Some (Inl e))
      | Inr q \<Rightarrow>
          Option.bind (send_request lib nt (feature_decompression cs) q env) (\<lambda>(env', r).
            case r of None \<Rightarrow> Some (env', None)
            | Some (Inl e) \<Rightarrow> Some (env', Some (Inl e))
            | Some (Inr resp) \<Rightarrow>
                (case error_for_status reason resp of Inl e \<Rightarrow> Some (env', Some (Inl e))
                 | Inr resp' \<Rightarrow> map_option (\<lambda>b. (env', Some b)) (response_body_bytes lib cs nxt resp'))))"

subsection \<open>The requests of a redirect chain\<close>

text \<open>What the network is handed is observed by a world that keeps a record: every exchange adds its
  request to the end of \<open>sent\<close>.\<close>

locale recording_net =
  fixes nt :: "('w, 's, 'i) net" and sent :: "'w \<Rightarrow> 's wire_request list"
  assumes exchange_sent: "exchange nt dl w req = (w', r) \<Longrightarrow> sent w' = sent w @ [req]"

text \<open>Every network can be watched that way.\<close>

definition logged :: "('w, 's, 'i) net \<Rightarrow> ('w \<times> 's wire_request list, 's, 'i) net" where
  "logged nt =
     \<lparr>exchange = (\<lambda>dl (w, l) req. case exchange nt dl w req of (w', r) \<Rightarrow> ((w', l @ [req]), r)),
      clock = (\<lambda>(w, l). clock nt w), sleep = (\<lambda>d (w, l). (sleep nt d w, l))\<rparr>"

interpretation log_net: recording_net "logged nt" snd
  by unfold_locales (auto simp: logged_def split: prod.splits)

text \<open>\<open>chain cfg env0 st0 k env st\<close>: after \<open>k\<close> hops from \<open>st0\<close> the environment is \<open>env\<close> and the loop goes on
  with the state in \<open>st\<close>, or has left, with a result, a panic or the deadline.\<close>

fun next_hop :: "('s, 'a) hop_result \<Rightarrow> 's hop_state option" where
  "next_hop (Follow st') = Some st'"
| "next_hop _ = None"

inductive chain ::
  "('w, 's, 'i) cfg \<Rightarrow> 'w env \<Rightarrow> 's hop_state \<Rightarrow> nat \<Rightarrow> 'w env \<Rightarrow> 's hop_state option \<Rightarrow> bool"
  for cfg env0 st0 where
  chain_start: "chain cfg env0 st0 0 env0 (Some st0)"
| chain_hop: "chain cfg env0 st0 k env (Some st) \<Longrightarrow> hop cfg env st = (env', r) \<Longrightarrow>
    chain cfg env0 st0 (Suc k) env' (next_hop r)"

lemma send_loop_chain:
  assumes "send_loop cfg env st = Some (env', r)" and "chain cfg env0 st0 k env (Some st)"
  shows "\<exists>k'. chain cfg env0 st0 k' env' None"
  using assms
proof (induction cfg env st "(env', r)" arbitrary: k rule: send_loop.raw_induct [rotated, consumes 1, case_names step])
  case (step loop cfg env st)
  obtain e1 x where h: "hop cfg env st = (e1, x)" by fastforce
  note c = chain_hop [OF step.prems h]
  show ?case
  proof (cases x)
    case (Follow st')
    with step.hyps(2) h have "loop cfg e1 st' = Some (env', r)" by simp
    from step.hyps(1) [OF this] c Follow show ?thesis by simp
  qed (use step.hyps(2) h c in auto)
qed

text \<open>Whatever \<open>send_inner\<close> returns is the end of such a chain.\<close>

lemma send_inner_chain:
  "send_inner cfg env0 m u b hs = Some (env, r) \<Longrightarrow>
     \<exists>k. chain (cfg\<lparr>cfg_original := u\<rparr>) env0 (first_hop m u b hs) k env None"
  unfolding send_inner_def by (rule send_loop_chain [OF _ chain_start])

lemma hop_requestD:
  assumes "hop_request cfg env st = Inr (b, req)"
  shows "take_for_hop (h_body st) = (b, Inr (wr_body req)) \<and> wr_method req = h_method st \<and> wr_uri req = h_uri st \<and>
    wr_headers req = with_jar_cookies cfg env (h_uri st) (with_accept_encoding cfg (h_headers st))"
  using assms by (auto simp: hop_request_def Let_def rbind_Inr split: prod.splits option.splits)

text \<open>What following a redirect means.\<close>

lemma hop_Follow:
  assumes "hop cfg env st = (env', Follow st')"
  obtains b req code where "hop_request cfg env st = Inr (b, req)"
    and "is_redirect_status code"
    and "\<forall>n. max_redirects (cfg_redirect cfg) = Some n \<longrightarrow> h_count st < n"
    and "h_count st' = Suc (h_count st)"
    and "h_method st' = redirect_method code (h_method st)"
    and "h_body st' = (if should_preserve_body code then b else Reusable [])"
    and "h_headers st' = (if same_origin (cfg_original cfg) (h_uri st') then h_headers st
           else hm_remove ''cookie'' (hm_remove ''authorization'' (h_headers st)))"
proof -
  obtain b req where r: "hop_request cfg env st = Inr (b, req)"
    using assms by (auto simp: hop_def split: sum.splits)
  obtain w' resp env2 where "hop_response cfg st b resp = Follow st'"
    using assms r by (auto simp: hop_def split: prod.splits net_reply.splits option.splits)
  then have "follow_redirect cfg st b resp = Follow st'" "is_redirect_status (resp_status resp)"
    "\<forall>n. max_redirects (cfg_redirect cfg) = Some n \<longrightarrow> h_count st < n"
    by (auto simp: hop_response_def Let_def split: if_splits option.splits)
  then show thesis
    by (intro that [of b req "resp_status resp"] r) (auto simp: follow_redirect_def outgoing_clear_def split: option.splits sum.splits)
qed

lemma same_origin_refl: "same_origin u u"
  by (cases "uri_host u") (auto simp: same_origin_def)

lemma hm_get_accept_encoding:
  "k \<noteq> ''accept-encoding'' \<Longrightarrow> hm_get k (with_accept_encoding cfg hs) = hm_get k hs"
  by (auto simp: with_accept_encoding_def hm_simps split: option.splits)

lemma hm_get_jar_cookies:
  "k \<noteq> ''cookie'' \<Longrightarrow> hm_get k (with_jar_cookies cfg env u hs) = hm_get k hs"
  by (auto simp: with_jar_cookies_def Let_def hm_simps split: option.splits)

lemma with_jar_cookies_none: "env_jar env = None \<Longrightarrow> with_jar_cookies cfg env u hs = hs"
  by (simp add: with_jar_cookies_def)

lemma store_cookies_jar: "store_cookies cfg u hs env = Some env' \<Longrightarrow> env_jar env = None \<Longrightarrow> env_jar env' = None"
  by (auto simp: store_cookies_def)

lemma hop_jar_none: "hop cfg env st = (env', r) \<Longrightarrow> env_jar env = None \<Longrightarrow> env_jar env' = None"
  by (auto simp: hop_def dest: store_cookies_jar split: sum.splits prod.splits net_reply.splits option.splits)

text \<open>The headers lose the credentials at the first foreign request and never get them back.\<close>

definition stripped :: "header_map \<Rightarrow> bool" where
  "stripped hs \<longleftrightarrow> hm_get ''authorization'' hs = None \<and> hm_get ''cookie'' hs = None"

lemma stripped_remove:
  "stripped (hm_remove ''cookie'' (hm_remove ''authorization'' hs))"
  by (simp add: stripped_def hm_simps)

text \<open>What one hop hands to the network: the request it has built, once, or nothing when it could not
  build one.\<close>

lemma store_cookies_world: "store_cookies cfg u hs env = Some env' \<Longrightarrow> env_world env' = env_world env"
  by (auto simp: store_cookies_def split: option.splits if_splits)

lemma hop_no_request: "hop_request cfg env st = Inl e \<Longrightarrow> hop cfg env st = (env, Stop (Inl e))"
  by (simp add: hop_def)

context recording_net
begin

lemma hop_sent:
  assumes "hop cfg env st = (env', r)" and "hop_request cfg env st = Inr (b, req)" and "cfg_net cfg = nt"
  shows "sent (env_world env') = sent (env_world env) @ [req]"
proof -
  obtain w' reply where e: "exchange nt (cfg_deadline cfg) (env_world env) req = (w', reply)" by fastforce
  have "env_world env' = w'"
    using assms(1) by (auto simp: hop_def assms(2,3) e dest: store_cookies_world split: net_reply.splits option.splits)
  then show ?thesis using exchange_sent [OF e] by simp
qed

text \<open>Invariants of a chain: a property of the record and of the next state that every hop keeps.\<close>

lemma chain_invariant:
  assumes "chain cfg env0 st0 k env st" and "cfg_net cfg = nt"
    and "Inv (sent (env_world env0)) env0 (Some st0)"
    and stay: "\<And>l e s. Inv l e (Some s) \<Longrightarrow> Inv l e None"
    and step: "\<And>l e s b req e' r. Inv l e (Some s) \<Longrightarrow> hop_request cfg e s = Inr (b, req) \<Longrightarrow>
        hop cfg e s = (e', r) \<Longrightarrow> Inv (l @ [req]) e' (next_hop r)"
  shows "Inv (sent (env_world env)) env st"
  using assms(1)
proof (induction rule: chain.induct)
  case (chain_hop k env st env' r)
  show ?case
  proof (cases "hop_request cfg env st")
    case (Inl e)
    with chain_hop.hyps(2) have "env' = env" "r = Stop (Inl e)" by (simp_all add: hop_no_request)
    then show ?thesis using stay [OF chain_hop.IH] by simp
  next
    case (Inr p)
    then obtain b req where r: "hop_request cfg env st = Inr (b, req)" by (cases p) auto
    show ?thesis
      unfolding hop_sent [OF chain_hop.hyps(2) r assms(2)] by (rule step [OF chain_hop.IH r chain_hop.hyps(2)])
  qed
qed (rule assms(3))

lemma sent_length:
  assumes "chain cfg env0 st0 k env st" and "cfg_net cfg = nt"
  shows "length (sent (env_world env)) \<le> length (sent (env_world env0)) + k"
  using assms(1)
proof (induction rule: chain.induct)
  case (chain_hop k env st env' r)
  then show ?case
    by (cases "hop_request cfg env st") (auto simp: hop_no_request dest: hop_sent [OF _ _ assms(2)])
qed simp

end

lemma hop_stripped:
  assumes "hop cfg env st = (env', Follow st')" and "\<not> same_origin (cfg_original cfg) (h_uri st') \<or> stripped (h_headers st)"
  shows "stripped (h_headers st')"
proof -
  have "h_headers st' = (if same_origin (cfg_original cfg) (h_uri st') then h_headers st
           else hm_remove ''cookie'' (hm_remove ''authorization'' (h_headers st)))"
    using hop_Follow [OF assms(1)] by metis
  with assms(2) stripped_remove show ?thesis by auto
qed

text \<open>The record of a chain that keeps the credentials at home.\<close>

definition clean_request :: "bool \<Rightarrow> 's wire_request \<Rightarrow> bool" where
  "clean_request no_jar req \<longleftrightarrow> hm_get ''authorization'' (wr_headers req) = None
     \<and> (no_jar \<longrightarrow> hm_get ''cookie'' (wr_headers req) = None)"

definition homebound :: "uri \<Rightarrow> bool \<Rightarrow> 's wire_request list \<Rightarrow> bool" where
  "homebound u no_jar reqs \<longleftrightarrow>
     (\<forall>i j. i \<le> j \<longrightarrow> j < length reqs \<longrightarrow> \<not> same_origin u (wr_uri (reqs ! i)) \<longrightarrow> clean_request no_jar (reqs ! j))"

lemma homebound_append:
  assumes "homebound u no_jar reqs"
    and "(\<exists>r \<in> set (reqs @ [req]). \<not> same_origin u (wr_uri r)) \<longrightarrow> clean_request no_jar req"
  shows "homebound u no_jar (reqs @ [req])"
  unfolding homebound_def
proof (intro allI impI)
  fix i j
  assume ij: "i \<le> j" "j < length (reqs @ [req])" and f: "\<not> same_origin u (wr_uri ((reqs @ [req]) ! i))"
  show "clean_request no_jar ((reqs @ [req]) ! j)"
  proof (cases "j < length reqs")
    case True
    with ij f have "\<not> same_origin u (wr_uri (reqs ! i))" by (simp add: nth_append)
    with assms(1) ij(1) True show ?thesis by (simp add: homebound_def nth_append)
  next
    case False
    from ij have "(reqs @ [req]) ! i \<in> set (reqs @ [req])" by (intro nth_mem) simp
    with assms(2) f have "clean_request no_jar req" by blast
    then show ?thesis using False ij(2) by (simp add: nth_append)
  qed
qed

definition chain_clean :: "uri \<Rightarrow> bool \<Rightarrow> 's wire_request list \<Rightarrow> 'w env \<Rightarrow> 's hop_state option \<Rightarrow> bool" where
  "chain_clean u no_jar reqs env st \<longleftrightarrow> homebound u no_jar reqs \<and> (no_jar \<longrightarrow> env_jar env = None) \<and>
     (\<forall>s. st = Some s \<longrightarrow> (\<exists>r \<in> set reqs. \<not> same_origin u (wr_uri r)) \<or> \<not> same_origin u (h_uri s) \<longrightarrow> stripped (h_headers s))"

lemma hop_clean:
  assumes "chain_clean u no_jar l env (Some st)" and "hop_request cfg env st = Inr (b, req)"
    and "hop cfg env st = (env', r)" and "cfg_original cfg = u"
  shows "chain_clean u no_jar (l @ [req]) env' (next_hop r)"
proof -
  have q: "wr_uri req = h_uri st"
    "wr_headers req = with_jar_cookies cfg env (h_uri st) (with_accept_encoding cfg (h_headers st))"
    using hop_requestD [OF assms(2)] by auto
  have st: "(\<exists>r \<in> set (l @ [req]). \<not> same_origin u (wr_uri r)) \<Longrightarrow> stripped (h_headers st)"
    using assms(1) q(1) by (auto simp: chain_clean_def)
  have nj: "no_jar \<Longrightarrow> env_jar env = None" using assms(1) by (simp add: chain_clean_def)
  have "(\<exists>r \<in> set (l @ [req]). \<not> same_origin u (wr_uri r)) \<longrightarrow> clean_request no_jar req"
    using st nj by (auto simp: clean_request_def q(2) stripped_def hm_get_jar_cookies hm_get_accept_encoding with_jar_cookies_none)
  then have "homebound u no_jar (l @ [req])"
    using assms(1) by (intro homebound_append) (simp_all add: chain_clean_def)
  moreover have "env_jar env' = None" if no_jar using hop_jar_none [OF assms(3) nj [OF that]] .
  moreover have "stripped (h_headers s)"
    if s: "next_hop r = Some s" and f: "(\<exists>r \<in> set (l @ [req]). \<not> same_origin u (wr_uri r)) \<or> \<not> same_origin u (h_uri s)" for s
  proof -
    from s have "r = Follow s" by (cases r) auto
    with assms(3) f st show ?thesis unfolding assms(4) [symmetric] by (intro hop_stripped) auto
  qed
  ultimately show ?thesis unfolding chain_clean_def by blast
qed

text \<open>C3. Credentials stay at home: of all the requests the network is handed in a chain of redirects, the
  last one included, of any length and however it ends, a request to a host or scheme other than the
  first carries no \<open>Authorization\<close> header, nor does any request after it, even one that comes back;
  without a cookie jar the same holds for \<open>Cookie\<close>. The requests are those a recording network has
  seen when \<open>send_inner\<close> is over, or after any number of its hops.\<close>

theorem redirect_credentials:
  assumes "recording_net (cfg_net cfg) sent" and "sent (env_world env0) = []"
    and "send_inner cfg env0 m u b hs = Some (env, r) \<or> chain (cfg\<lparr>cfg_original := u\<rparr>) env0 (first_hop m u b hs) k env st"
    and "i \<le> j" and "j < length (sent (env_world env))" and "\<not> same_origin u (wr_uri (sent (env_world env) ! i))"
  shows "hm_get ''authorization'' (wr_headers (sent (env_world env) ! j)) = None
    \<and> (env_jar env0 = None \<longrightarrow> hm_get ''cookie'' (wr_headers (sent (env_world env) ! j)) = None)"
proof -
  obtain k st where c: "chain (cfg\<lparr>cfg_original := u\<rparr>) env0 (first_hop m u b hs) k env st"
    using assms(3) send_inner_chain by blast
  have "chain_clean u (env_jar env0 = None) (sent (env_world env)) env st"
  proof (rule recording_net.chain_invariant [OF assms(1) c])
    show "chain_clean u (env_jar env0 = None) (sent (env_world env0)) env0 (Some (first_hop m u b hs))"
      by (simp add: assms(2) chain_clean_def homebound_def first_hop_def same_origin_refl)
  qed (auto simp: chain_clean_def [where st = None] intro: hop_clean dest: chain_clean_def [THEN iffD1])
  then show ?thesis
    using assms(4-6) unfolding chain_clean_def homebound_def clean_request_def by blast
qed

subsection \<open>A small network\<close>

text \<open>A server that sends everybody to another host; the world counts the requests.\<close>

definition demo_net :: "nat \<Rightarrow> (nat, unit, unit) net" where
  "demo_net code =
     \<lparr>exchange = (\<lambda>dl w req. (w + 1, NetResponse
        \<lparr>resp_status = code, resp_headers = [(''location'', ''http://b.org/'')], resp_body = ()\<rparr>)),
      clock = (\<lambda>w. w), sleep = (\<lambda>d w. w)\<rparr>"

definition uri_a :: uri where
  "uri_a = \<lparr>uri_scheme = Some ''http'', uri_authority = Some ''a.org'', uri_host = Some ''a.org'', uri_port = None,
     uri_path = ''/'', uri_query = None\<rparr>"

definition uri_b :: uri where
  "uri_b = \<lparr>uri_scheme = Some ''http'', uri_authority = Some ''b.org'', uri_host = Some ''b.org'', uri_port = None,
     uri_path = ''/'', uri_query = None\<rparr>"

definition cfg_on :: "(('w, unit, unit) net) \<Rightarrow> redirect_policy \<Rightarrow> ('w, unit, unit) cfg" where
  "cfg_on nt pol =
     \<lparr>cfg_lib = std_lib, cfg_net = nt, cfg_feature = False, cfg_redirect = pol, cfg_decompression = False,
      cfg_max_body = 10, cfg_deadline = None, cfg_original = uri_a\<rparr>"

definition demo_env :: "nat \<Rightarrow> nat env" where
  "demo_env w = \<lparr>env_world = w, env_jar = None, env_poisoned = False\<rparr>"

lemma simple_uri_b: "simple_uri ''http://b.org/'' = Inr uri_b"
  unfolding uri_b_def by code_simp

lemma demo_location: "hm_str std_lib ''location'' [(''location'', ''http://b.org/'')] = Some ''http://b.org/''"
  by code_simp

lemma demo_origins: "same_origin uri_a uri_a" "\<not> same_origin uri_a uri_b"
  unfolding uri_a_def uri_b_def by code_simp+

text \<open>The chain seen by a recording network: the first request goes to \<open>a.org\<close>, the next ones to \<open>b.org\<close>.\<close>

definition watched :: "nat \<Rightarrow> unit wire_request list \<Rightarrow> (nat \<times> unit wire_request list) env" where
  "watched w l = \<lparr>env_world = (w, l), env_jar = None, env_poisoned = False\<rparr>"

lemma demo_hop:
  assumes "take_for_hop (h_body st) = (bd', Inr pb)" and "is_redirect_status code"
  shows "hop (cfg_on (logged (demo_net code)) RedirectAll) (watched w l) st =
      (watched (w + 1) (l @ [\<lparr>wr_method = h_method st, wr_uri = h_uri st, wr_headers = h_headers st, wr_body = pb\<rparr>]),
       Follow \<lparr>h_method = redirect_method code (h_method st), h_uri = uri_b,
         h_body = (if should_preserve_body code then bd' else Reusable []),
         h_headers = hm_remove ''cookie'' (hm_remove ''authorization'' (h_headers st)), h_count = h_count st + 1\<rparr>)"
proof -
  have r: "hop_request (cfg_on (logged (demo_net code)) RedirectAll) (watched w l) st =
      Inr (bd', \<lparr>wr_method = h_method st, wr_uri = h_uri st, wr_headers = h_headers st, wr_body = pb\<rparr>)"
    using assms(1) by (simp add: hop_request_def cfg_on_def watched_def with_accept_encoding_def with_jar_cookies_def
        std_lib_def)
  have l: "uri_of std_lib ''http://b.org/'' = Inr uri_b" by (simp add: std_lib_def simple_uri_b)
  have "resolve_redirect_uri std_lib u ''http://b.org/'' = Inr uri_b" for u
    unfolding resolve_redirect_uri_def l by (simp add: uri_b_def)
  then show ?thesis
    unfolding hop_def r using assms(2) demo_origins
    by (simp add: cfg_on_def watched_def demo_net_def logged_def store_cookies_def hop_response_def follow_redirect_def
        demo_location outgoing_clear_def)
qed

lemma demo_chain:
  assumes "take_for_hop bd = (bd', Inr pb)" and "is_redirect_status code"
    and "take_for_hop (if should_preserve_body code then bd' else Reusable []) = (bd2, Inr pb2)"
  shows "\<exists>st. chain (cfg_on (logged (demo_net code)) RedirectAll\<lparr>cfg_original := uri_a\<rparr>) (watched 0 []) (first_hop m uri_a bd hs) 2
    (watched 2 [\<lparr>wr_method = m, wr_uri = uri_a, wr_headers = hs, wr_body = pb\<rparr>,
     \<lparr>wr_method = redirect_method code m, wr_uri = uri_b,
      wr_headers = hm_remove ''cookie'' (hm_remove ''authorization'' hs), wr_body = pb2\<rparr>]) st"
proof -
  let ?cfg = "cfg_on (logged (demo_net code)) RedirectAll" and ?s0 = "first_hop m uri_a bd hs"
  have o: "?cfg\<lparr>cfg_original := uri_a\<rparr> = ?cfg" by (simp add: cfg_on_def)
  note h1 = demo_hop [of ?s0 bd' pb code 0 "[]"]
  show ?thesis
    unfolding o
    using chain.chain_hop [OF chain.chain_hop [OF chain.chain_start h1, unfolded next_hop.simps] demo_hop [of _ bd2 pb2 code]]
      assms by (fastforce simp: first_hop_def numeral_2_eq_2)
qed

theorem redirect_credentials_witness:
  "\<exists>st l. chain (cfg_on (logged (demo_net 302)) RedirectAll\<lparr>cfg_original := uri_a\<rparr>) (watched 0 [])
      (first_hop ''GET'' uri_a (Reusable []) [(''authorization'', ''Bearer x'')]) 2 (watched 2 l) st
    \<and> hm_get ''authorization'' (wr_headers (l ! 0)) = Some ''Bearer x''
    \<and> hm_get ''authorization'' (wr_headers (l ! 1)) = None"
proof -
  let ?hs = "[(''authorization'', ''Bearer x'')]" and ?cfg = "cfg_on (logged (demo_net 302)) RedirectAll"
  let ?l = "[\<lparr>wr_method = ''GET'', wr_uri = uri_a, wr_headers = ?hs, wr_body = PinnedEmpty\<rparr>,
     \<lparr>wr_method = redirect_method 302 ''GET'', wr_uri = uri_b,
      wr_headers = hm_remove ''cookie'' (hm_remove ''authorization'' ?hs), wr_body = PinnedEmpty\<rparr>]"
  obtain st where s: "chain (?cfg\<lparr>cfg_original := uri_a\<rparr>) (watched 0 []) (first_hop ''GET'' uri_a (Reusable []) ?hs) 2 (watched 2 ?l) st"
    using demo_chain [of "Reusable []" "Reusable []" PinnedEmpty 302 "Reusable []" PinnedEmpty "''GET''" ?hs]
    by (auto simp: is_redirect_status_def body_from_def)
  have n: "recording_net (cfg_net ?cfg) snd" by (simp add: cfg_on_def log_net.recording_net_axioms)
  have "hm_get ''authorization'' (wr_headers (?l ! 1)) = None"
    using redirect_credentials [OF n _ disjI2 [OF s], where i = 1 and j = 1] demo_origins
    by (simp add: watched_def)
  with s show ?thesis by (intro exI [of _ st] exI [of _ ?l]) (simp add: hm_get_def)
qed

subsection \<open>Termination\<close>

lemma send_loop_Stop: "hop cfg env st = (env', Stop x) \<Longrightarrow> send_loop cfg env st = Some (env', Returned x)"
  by (subst send_loop.simps) simp

lemma send_loop_Panicked: "hop cfg env st = (env', HopPanicked) \<Longrightarrow> send_loop cfg env st = Some (env', Panicked)"
  by (subst send_loop.simps) simp

lemma send_loop_Elapsed: "hop cfg env st = (env', HopElapsed) \<Longrightarrow> send_loop cfg env st = Some (env', Elapsed)"
  by (subst send_loop.simps) simp

lemma send_loop_Follow: "hop cfg env st = (env', Follow st') \<Longrightarrow> send_loop cfg env st = send_loop cfg env' st'"
  by (subst send_loop.simps) simp

lemmas send_loop_eqs = send_loop_Stop send_loop_Panicked send_loop_Elapsed send_loop_Follow

lemma send_loop_terminates:
  assumes "max_redirects (cfg_redirect cfg) = Some n"
  shows "\<exists>x. send_loop cfg env st = Some x"
proof (induction "n - h_count st" arbitrary: env st rule: less_induct)
  case less
  obtain env' r where h: "hop cfg env st = (env', r)" by fastforce
  show ?case
  proof (cases r)
    case (Follow st')
    with h have f: "hop cfg env st = (env', Follow st')" by simp
    then have "h_count st < n" "h_count st' = Suc (h_count st)"
      using assms by (auto elim!: hop_Follow)
    then have "n - h_count st' < n - h_count st" by simp
    from less.hyps [OF this, of env'] show ?thesis by (simp add: send_loop_Follow [OF f])
  qed (use h in \<open>auto simp: send_loop_eqs\<close>)
qed

lemma attempts_terminate:
  assumes "\<And>env slot. \<exists>x. send_inner (attempt_cfg lib nt feature q) env (q_method q) (q_uri q) (outgoing_of q slot) (q_headers q) = Some x"
  shows "\<exists>r. attempts left lib nt feature q start k slot env = Some r"
proof (induction left arbitrary: k slot env)
  case (Suc left)
  obtain env' run where s: "send_inner (attempt_cfg lib nt feature q) env (q_method q) (q_uri q) (outgoing_of q slot) (q_headers q) = Some (env', run)"
    using assms by fastforce
  show ?case
  proof (cases "attempt_result (q_timeout q) run")
    case (Some r)
    then show ?thesis using s Suc.IH by (cases r) auto
  qed (use s in simp)
qed simp

lemma chain_count:
  assumes "chain cfg env0 st0 k env st" and "h_count st0 = 0" and "max_redirects (cfg_redirect cfg) = Some n"
  shows "k \<le> n + 1 \<and> (\<forall>s. st = Some s \<longrightarrow> h_count s = k \<and> k \<le> n)"
  using assms
proof (induction rule: chain.induct)
  case (chain_hop k env st env' r)
  then have k: "h_count st = k" "k \<le> n" by simp_all
  show ?case
  proof (cases r)
    case (Follow st')
    with chain_hop.hyps(2) have "h_count st < n \<and> h_count st' = Suc (h_count st)"
      using chain_hop.prems(2) by (auto elim!: hop_Follow)
    then show ?thesis using k Follow by simp
  qed (use k in auto)
qed simp

lemma send_request_returns:
  assumes "max_redirects (q_redirect q) = Some n"
  shows "\<exists>r. send_request lib nt feature q env = Some r"
proof -
  have c: "cfg_redirect (attempt_cfg lib nt feature q\<lparr>cfg_original := u\<rparr>) = q_redirect q" for u
    by (simp add: attempt_cfg_def)
  show ?thesis
    unfolding send_request_def Let_def send_inner_def
    by (intro attempts_terminate) (unfold send_inner_def, rule send_loop_terminates, simp only: c assms)
qed

text \<open>C4. Sending ends: under a policy with at most \<open>n\<close> redirects, \<open>send\<close> returns (or panics) on every
  network, whatever the servers answer and however often it retries, and no attempt follows more than
  \<open>n\<close> redirects or makes more than \<open>n + 1\<close> hops, so that a recording network sees at most \<open>n + 1\<close>
  requests of it.\<close>

theorem send_terminates:
  assumes "max_redirects (q_redirect q) = Some n"
  shows "(\<exists>r. send_request lib nt feature q env = Some r)
    \<and> (\<forall>e0 bd k e st. chain (attempt_cfg lib nt feature q) e0 (first_hop (q_method q) (q_uri q) bd (q_headers q)) k e st
         \<longrightarrow> k \<le> n + 1 \<and> (st \<noteq> None \<longrightarrow> k \<le> n)
           \<and> (\<forall>sent. recording_net nt sent \<longrightarrow> length (sent (env_world e)) \<le> length (sent (env_world e0)) + n + 1))"
proof (intro conjI allI impI)
  show "\<exists>r. send_request lib nt feature q env = Some r" by (rule send_request_returns [OF assms])
  fix e0 bd k e st
  assume c: "chain (attempt_cfg lib nt feature q) e0 (first_hop (q_method q) (q_uri q) bd (q_headers q)) k e st"
  have b: "k \<le> n + 1 \<and> (\<forall>s. st = Some s \<longrightarrow> h_count s = k \<and> k \<le> n)"
    by (rule chain_count [OF c]) (simp_all add: assms attempt_cfg_def first_hop_def)
  then show "k \<le> n + 1" by simp
  show "k \<le> n" if "st \<noteq> None" using b that by auto
  fix sent assume "recording_net nt sent"
  from recording_net.sent_length [OF this c] b
  show "length (sent (env_world e)) \<le> length (sent (env_world e0)) + n + 1" by (simp add: attempt_cfg_def)
qed

definition demo_builder :: "redirect_policy \<Rightarrow> retry_policy option \<Rightarrow> unit body option \<Rightarrow> (nat, unit) request_builder" where
  "demo_builder pol rp sb = \<lparr>q_method = ''POST'', q_uri = uri_a, q_headers = [], q_body = [1], q_stream_body = sb,
     q_timeout = None, q_redirect = pol, q_retry = rp, q_decompression = False, q_max_body = 10, q_middleware = []\<rparr>"

theorem send_terminates_witness:
  "\<exists>r. send_request std_lib (demo_net 302) False (demo_builder (RedirectLimited 5) None None) (demo_env 0) = Some r"
  using send_terminates [of "demo_builder (RedirectLimited 5) None None" 5 std_lib "demo_net 302" False "demo_env 0"]
  by (simp only: demo_builder_def request_builder.simps max_redirects.simps)

subsection \<open>Methods and bodies along a chain\<close>

text \<open>What a hop may still send: the method and body of the caller, or nothing more.\<close>

definition body_phase :: "string \<Rightarrow> 's pinned_body \<Rightarrow> 's hop_state \<Rightarrow> bool" where
  "body_phase m pb st \<longleftrightarrow>
     (h_method st = m \<and> (\<forall>b p. take_for_hop (h_body st) = (b, Inr p) \<longrightarrow> p = pb))
     \<or> (h_method st \<in> {''GET'', ''HEAD''} \<and> h_body st = Reusable [])"

lemma take_once: "take_for_hop bd = (b, Inr p) \<Longrightarrow> take_for_hop b = (b', Inr p') \<Longrightarrow> p' = p \<and> b' = b"
  by (cases bd) auto

lemma redirect_method_cases:
  "is_redirect_status code \<Longrightarrow> (if should_preserve_body code then redirect_method code m = m else redirect_method code m \<in> {''GET'', ''HEAD''})"
  by (auto simp: is_redirect_status_def should_preserve_body_def redirect_method_def)

lemma hop_phase:
  assumes "hop cfg env st = (env', Follow st')" and "body_phase m pb st"
  shows "body_phase m pb st'"
proof -
  obtain b req code where r: "hop_request cfg env st = Inr (b, req)" and c: "is_redirect_status code"
    and m: "h_method st' = redirect_method code (h_method st)"
    and b: "h_body st' = (if should_preserve_body code then b else Reusable [])"
    using hop_Follow [OF assms(1)] by metis
  have t: "take_for_hop (h_body st) = (b, Inr (wr_body req))" using hop_requestD [OF r] by simp
  show ?thesis
  proof (cases "should_preserve_body code")
    case True
    then have e: "h_method st' = h_method st" "h_body st' = b"
      using m b redirect_method_cases [OF c, of "h_method st"] by simp_all
    from assms(2) show ?thesis
      unfolding body_phase_def
    proof (elim disjE conjE)
      assume h: "h_method st = m" "\<forall>b p. take_for_hop (h_body st) = (b, Inr p) \<longrightarrow> p = pb"
      then have "\<forall>b' p. take_for_hop (h_body st') = (b', Inr p) \<longrightarrow> p = pb"
        using take_once [OF t] t e by auto
      with e h show "h_method st' = m \<and> (\<forall>b p. take_for_hop (h_body st') = (b, Inr p) \<longrightarrow> p = pb)
         \<or> h_method st' \<in> {''GET'', ''HEAD''} \<and> h_body st' = Reusable []" by simp
    next
      assume "h_method st \<in> {''GET'', ''HEAD''}" "h_body st = Reusable []"
      with t e show "h_method st' = m \<and> (\<forall>b p. take_for_hop (h_body st') = (b, Inr p) \<longrightarrow> p = pb)
         \<or> h_method st' \<in> {''GET'', ''HEAD''} \<and> h_body st' = Reusable []" by auto
    qed
  next
    case False
    then show ?thesis
      using m b redirect_method_cases [OF c, of "h_method st"] by (simp add: body_phase_def)
  qed
qed

text \<open>A one-shot body is gone after the first request.\<close>

definition spent :: "'s outgoing \<Rightarrow> bool" where
  "spent bd \<longleftrightarrow> bd = OneShot None \<or> bd = Reusable []"

lemma spent_take: "spent bd \<Longrightarrow> take_for_hop bd = (b, Inr p) \<Longrightarrow> p = PinnedEmpty \<and> spent b"
  by (auto simp: spent_def body_from_def)

lemma hop_spent:
  assumes "hop cfg env st = (env', Follow st')" and "hop_request cfg env st = Inr (b, req)"
    and "spent (h_body st) \<or> (\<exists>slot. h_body st = OneShot slot)"
  shows "spent (h_body st')"
proof -
  have "take_for_hop (h_body st) = (b, Inr (wr_body req))" using hop_requestD [OF assms(2)] by simp
  with assms(3) have "spent b" using spent_take by (auto simp: spent_def)
  moreover have "h_body st' = b \<or> h_body st' = Reusable []"
    using hop_Follow [OF assms(1)] assms(2) by (metis Inr_inject fst_conv)
  ultimately show ?thesis by (auto simp: spent_def)
qed

text \<open>What the requests of a chain may be: those of the record, and what the next hop may still send.\<close>

definition body_request :: "string \<Rightarrow> 's pinned_body \<Rightarrow> bool \<Rightarrow> 's wire_request list \<Rightarrow> nat \<Rightarrow> bool" where
  "body_request m pb one_shot reqs i \<longleftrightarrow>
     (wr_method (reqs ! i) = m \<and> wr_body (reqs ! i) = pb
       \<or> wr_method (reqs ! i) \<in> {''GET'', ''HEAD''} \<and> wr_body (reqs ! i) = PinnedEmpty)
     \<and> (one_shot \<longrightarrow> 0 < i \<longrightarrow> wr_body (reqs ! i) = PinnedEmpty)"

definition chain_bodies :: "string \<Rightarrow> 's pinned_body \<Rightarrow> bool \<Rightarrow> 's wire_request list \<Rightarrow> 'w env \<Rightarrow> 's hop_state option \<Rightarrow> bool" where
  "chain_bodies m pb one_shot reqs env st \<longleftrightarrow>
     (\<forall>i < length reqs. body_request m pb one_shot reqs i) \<and>
     (\<forall>s. st = Some s \<longrightarrow> body_phase m pb s \<and>
        (one_shot \<longrightarrow> spent (h_body s) \<or> (reqs = [] \<and> (\<exists>slot. h_body s = OneShot slot))))"

lemma hop_bodies:
  assumes "chain_bodies m pb one_shot l env (Some st)" and "hop_request cfg env st = Inr (b, req)"
    and "hop cfg env st = (env', r)"
  shows "chain_bodies m pb one_shot (l @ [req]) env' (next_hop r)"
proof -
  have t: "take_for_hop (h_body st) = (b, Inr (wr_body req))" "wr_method req = h_method st"
    using hop_requestD [OF assms(2)] by auto
  have p: "body_phase m pb st" and o: "one_shot \<Longrightarrow> spent (h_body st) \<or> (l = [] \<and> (\<exists>slot. h_body st = OneShot slot))"
    using assms(1) by (simp_all add: chain_bodies_def)
  have new: "body_request m pb one_shot (l @ [req]) (length l)"
    using p t o spent_take [OF _ t(1)] by (auto simp: body_request_def body_phase_def body_from_def)
  have "body_request m pb one_shot (l @ [req]) i" if "i < Suc (length l)" for i
  proof (cases "i < length l")
    case True
    with assms(1) show ?thesis by (simp add: chain_bodies_def body_request_def nth_append)
  next
    case False
    with that have "i = length l" by simp
    with new show ?thesis by simp
  qed
  moreover have "body_phase m pb s \<and> (one_shot \<longrightarrow> spent (h_body s))" if "next_hop r = Some s" for s
  proof -
    from that have "r = Follow s" by (cases r) auto
    with assms(3) have h: "hop cfg env st = (env', Follow s)" by simp
    have "one_shot \<longrightarrow> spent (h_body s)" using hop_spent [OF h assms(2)] o by blast
    with hop_phase [OF h p] show ?thesis by simp
  qed
  ultimately show ?thesis by (simp add: chain_bodies_def)
qed

text \<open>C12. Bodies along redirects: every request the network is handed in a chain, the last one included,
  either repeats the caller's method and body unchanged, or is a \<open>GET\<close> or \<open>HEAD\<close> without a body; and
  a streaming body, which cannot be read twice, is part of the first request only: no later one
  carries data. The requests are those a recording network has seen when \<open>send_inner\<close> is over, or
  after any number of its hops.\<close>

theorem redirect_bodies:
  assumes "recording_net (cfg_net cfg) sent" and "sent (env_world env0) = []"
    and "send_inner cfg env0 m u bd hs = Some (env, r) \<or> chain (cfg\<lparr>cfg_original := u\<rparr>) env0 (first_hop m u bd hs) k env st"
    and "take_for_hop bd = (bd', Inr pb)" and "i < length (sent (env_world env))"
  shows "(wr_method (sent (env_world env) ! i) = m \<and> wr_body (sent (env_world env) ! i) = pb
      \<or> wr_method (sent (env_world env) ! i) \<in> {''GET'', ''HEAD''} \<and> wr_body (sent (env_world env) ! i) = PinnedEmpty)
    \<and> (\<forall>slot. bd = OneShot slot \<longrightarrow> 0 < i \<longrightarrow> wr_body (sent (env_world env) ! i) = PinnedEmpty)"
proof -
  obtain k st where c: "chain (cfg\<lparr>cfg_original := u\<rparr>) env0 (first_hop m u bd hs) k env st"
    using assms(3) send_inner_chain by blast
  have "chain_bodies m pb (\<exists>slot. bd = OneShot slot) (sent (env_world env)) env st"
  proof (rule recording_net.chain_invariant [OF assms(1) c])
    show "chain_bodies m pb (\<exists>slot. bd = OneShot slot) (sent (env_world env0)) env0 (Some (first_hop m u bd hs))"
      using assms(4) by (auto simp: assms(2) chain_bodies_def body_phase_def first_hop_def)
  qed (auto simp: chain_bodies_def [where st = None] intro: hop_bodies dest: chain_bodies_def [THEN iffD1])
  with assms(5) show ?thesis by (auto simp: chain_bodies_def body_request_def)
qed

theorem redirect_bodies_witness:
  "\<exists>st l. chain (cfg_on (logged (demo_net 303)) RedirectAll\<lparr>cfg_original := uri_a\<rparr>) (watched 0 [])
      (first_hop ''POST'' uri_a (OneShot (Some (BodyStream ()))) []) 2 (watched 2 l) st
    \<and> wr_body (l ! 0) = PinnedStream () \<and> wr_body (l ! 1) = PinnedEmpty"
proof -
  let ?cfg = "cfg_on (logged (demo_net 303)) RedirectAll" and ?bd = "OneShot (Some (BodyStream ()))"
  let ?l = "[\<lparr>wr_method = ''POST'', wr_uri = uri_a, wr_headers = [], wr_body = PinnedStream ()\<rparr>,
     \<lparr>wr_method = redirect_method 303 ''POST'', wr_uri = uri_b,
      wr_headers = hm_remove ''cookie'' (hm_remove ''authorization'' []), wr_body = PinnedEmpty\<rparr>]"
  obtain st where s: "chain (?cfg\<lparr>cfg_original := uri_a\<rparr>) (watched 0 []) (first_hop ''POST'' uri_a ?bd []) 2 (watched 2 ?l) st"
    using demo_chain [of ?bd "OneShot None" "PinnedStream ()" 303 "Reusable []" PinnedEmpty "''POST''" "[]"]
    by (auto simp: is_redirect_status_def should_preserve_body_def body_from_def)
  have n: "recording_net (cfg_net ?cfg) snd" by (simp add: cfg_on_def log_net.recording_net_axioms)
  have "wr_body (?l ! 1) = PinnedEmpty"
    using redirect_bodies [OF n _ disjI2 [OF s], where i = 1] by (simp add: watched_def)
  with s show ?thesis by (intro exI [of _ st] exI [of _ ?l]) simp
qed

subsection \<open>Retries against their specification\<close>

text \<open>The results of \<open>k\<close> attempts in a row, whatever they are, with the delays between them.\<close>

fun run_attempts ::
  "nat \<Rightarrow> http_lib \<Rightarrow> ('w, 's, 'i) net \<Rightarrow> bool \<Rightarrow> ('w, 's) request_builder \<Rightarrow> nat \<Rightarrow> 's body option \<Rightarrow>
     'w env \<Rightarrow> 'i client_response oxi_result list option" where
  "run_attempts 0 lib nt feature q attempt slot env = Some []"
| "run_attempts (Suc k) lib nt feature q attempt slot env =
     Option.bind (send_inner (attempt_cfg lib nt feature q) env (q_method q) (q_uri q) (outgoing_of q slot) (q_headers q))
       (\<lambda>(env', run). case attempt_result (q_timeout q) run of None \<Rightarrow> None
         | Some r \<Rightarrow> map_option (Cons r)
             (run_attempts k lib nt feature q (attempt + 1) None (after_delay nt attempt q env')))"

lemma attempts_spec:
  assumes "attempts left lib nt feature q start a slot env = Some (env', Some r)" and "left + a = max_attempts q" and "0 < left"
  shows "\<exists>k rs. k < left \<and> run_attempts (Suc k) lib nt feature q a slot env = Some rs \<and> length rs = Suc k \<and> rs ! k = r \<and>
    (\<forall>i < k. should_retry (q_retry q) (rs ! i)) \<and> (should_retry (q_retry q) r \<longrightarrow> Suc k = left)"
  using assms
proof (induction left arbitrary: a slot env)
  case (Suc left)
  obtain e1 run x where s: "send_inner (attempt_cfg lib nt feature q) env (q_method q) (q_uri q) (outgoing_of q slot) (q_headers q) = Some (e1, run)"
    and x: "attempt_result (q_timeout q) run = Some x"
    using Suc.prems(1) by (auto simp: bind_eq_Some_conv split: option.splits)
  show ?case
  proof (cases "should_retry (q_retry q) x \<and> a < max_attempts q - 1")
    case True
    with Suc.prems(1) s x have r: "attempts left lib nt feature q start (a + 1) None (after_delay nt a q e1) = Some (env', Some r)"
      by simp
    have "left + (a + 1) = max_attempts q" "0 < left" using Suc.prems(2) True by (simp, linarith)
    from Suc.IH [OF r this] obtain k rs where k: "k < left" "length rs = Suc k" "rs ! k = r"
      "run_attempts (Suc k) lib nt feature q (a + 1) None (after_delay nt a q e1) = Some rs"
      "\<forall>i < k. should_retry (q_retry q) (rs ! i)" "should_retry (q_retry q) r \<longrightarrow> Suc k = left" by blast
    have "run_attempts (Suc (Suc k)) lib nt feature q a slot env = Some (x # rs)"
      by (subst run_attempts.simps(2)) (simp only: s x k(4) Option.bind.simps prod.case option.case option.map)
    then show ?thesis using k True
      by (intro exI [of _ "Suc k"] exI [of _ "x # rs"]) (auto simp: nth_Cons less_Suc_eq_0_disj)
  next
    case False
    with Suc.prems(1) s x have "r = x" by (cases x) auto
    moreover have "should_retry (q_retry q) x \<longrightarrow> Suc 0 = Suc left" using False Suc.prems(2) by auto
    ultimately show ?thesis using s x
      by (intro exI [of _ 0] exI [of _ "[x]"]) simp
  qed
qed simp

text \<open>C5. Retries: the result of \<open>send\<close> is that of the first attempt which the policy does not retry, or of
  the last one allowed: every attempt before it had a result that the policy retries, and a
  result that it would retry is only returned by attempt number \<open>max_retries + 1\<close>. A streaming
  body is never sent again.\<close>

theorem retry_spec:
  assumes "send_request lib nt feature q env = Some (env', Some r)" and "0 < max_attempts q"
  shows "\<exists>k rs. k < max_attempts q \<and>
    run_attempts (Suc k) lib nt feature q 0 (q_stream_body q)
      (env\<lparr>env_world := fold (\<lambda>mw. before_request mw (q_method q) (q_uri q) (q_headers q)) (q_middleware q) (env_world env)\<rparr>) = Some rs \<and>
    length rs = Suc k \<and> rs ! k = r \<and>
    (\<forall>i < k. should_retry (q_retry q) (rs ! i)) \<and>
    (should_retry (q_retry q) r \<longrightarrow> Suc k = max_attempts q) \<and>
    (q_stream_body q \<noteq> None \<longrightarrow> k = 0)"
proof -
  have "max_attempts q = 1" if "q_stream_body q \<noteq> None" using that by (simp add: max_attempts_def)
  then show ?thesis
    using assms(1) attempts_spec [where q = q and a = 0 and slot = "q_stream_body q", OF _ _ assms(2)]
    unfolding send_request_def Let_def by (metis add_0_right less_one)
qed

lemma demo_send_none:
  "\<exists>e. send_request std_lib (demo_net 503) False (demo_builder RedirectNone None None) (demo_env 0) =
     Some (e, Some (Inr \<lparr>cr_inner = \<lparr>resp_status = 503, resp_headers = [(''location'', ''http://b.org/'')], resp_body = ()\<rparr>,
        cr_decompress = False, cr_max_body = 10\<rparr>))"
proof -
  have h: "hop (attempt_cfg std_lib (demo_net 503) False (demo_builder RedirectNone None None)\<lparr>cfg_original := uri_a\<rparr>)
      \<lparr>env_world = 0, env_jar = None, env_poisoned = False\<rparr> (first_hop ''POST'' uri_a (Reusable [1]) []) =
    (\<lparr>env_world = 1, env_jar = None, env_poisoned = False\<rparr>,
     Stop (Inr \<lparr>cr_inner = \<lparr>resp_status = 503, resp_headers = [(''location'', ''http://b.org/'')], resp_body = ()\<rparr>,
        cr_decompress = False, cr_max_body = 10\<rparr>))"
    by (simp add: hop_def hop_request_def first_hop_def attempt_cfg_def demo_builder_def with_accept_encoding_def
        with_jar_cookies_def std_lib_def demo_net_def store_cookies_def hop_response_def is_redirect_status_def)
  show ?thesis
    using send_loop_Stop [OF h]
    by (simp add: send_request_def demo_builder_def max_attempts_def send_inner_def outgoing_of_def demo_env_def)
qed

theorem retry_spec_witness:
  "\<exists>r. run_attempts 1 std_lib (demo_net 503) False (demo_builder RedirectNone None None) 0 None (demo_env 0) = Some [r]"
proof -
  let ?q = "demo_builder RedirectNone None None"
  obtain e r where s: "send_request std_lib (demo_net 503) False ?q (demo_env 0) = Some (e, Some r)"
    using demo_send_none by blast
  have m: "max_attempts ?q = 1" "q_stream_body ?q = None" "q_middleware ?q = []"
    by (simp_all add: max_attempts_def demo_builder_def)
  from retry_spec [OF s] m obtain rs where
    "run_attempts 1 std_lib (demo_net 503) False ?q 0 None (demo_env 0) = Some rs" "length rs = 1"
    by (auto simp: demo_env_def)
  then show ?thesis by (auto simp: length_Suc_conv)
qed

text \<open>The largest retry count sends nothing: \<open>max_retries + 1\<close> is computed in 32 bits, so with
  \<open>u32::MAX\<close> the loop is empty and the request fails although the network was never asked.\<close>

theorem retry_overflow:
  assumes "q_retry q = Some p" and "max_retries p = 2 ^ 32 - 1" and "q_stream_body q = None"
  shows "\<exists>w. send_request lib nt feature q env = Some (env\<lparr>env_world := w\<rparr>, Some (Inl (HyperErr ''max retries exceeded'')))
    \<and> w = fold (\<lambda>mw. before_request mw (q_method q) (q_uri q) (q_headers q)) (q_middleware q) (env_world env)"
  using assms by (simp add: send_request_def max_attempts_def Let_def)

theorem retry_overflow_witness:
  "send_request std_lib (demo_net 200) False (demo_builder RedirectNone (Some (retry_new (2 ^ 32 - 1))) None) (demo_env 0) =
     Some (demo_env 0, Some (Inl (HyperErr ''max retries exceeded'')))"
  using retry_overflow [of "demo_builder RedirectNone (Some (retry_new (2 ^ 32 - 1))) None" "retry_new (2 ^ 32 - 1)" std_lib "demo_net 200" False "demo_env 0"]
  by (simp add: demo_builder_def retry_new_def demo_env_def)

subsection \<open>A panic in the jar\<close>

text \<open>A server can stop the client and its cookies with one header: a response whose only cookie has
  the largest \<open>Max-Age\<close> makes the hop panic (the addition to the clock overflows) while the jar is
  locked, so the mutex is poisoned; from then on no request carries a cookie of the jar and no
  cookie is stored, without any error.\<close>

theorem max_age_poisons:
  assumes "env_jar env = Some jar" and "\<not> env_poisoned env" and "hop_request cfg env st = Inr (b, req)"
    and "exchange (cfg_net cfg) (cfg_deadline cfg) (env_world env) req = (w', NetResponse resp)"
    and "hm_get_all ''set-cookie'' (resp_headers resp) = [''a=b; Max-Age=18446744073709551615'']"
    and "to_str (cfg_lib cfg) ''a=b; Max-Age=18446744073709551615'' = Some ''a=b; Max-Age=18446744073709551615''"
  shows "\<exists>env'. hop cfg env st = (env', HopPanicked) \<and> env_poisoned env' \<and>
    (\<forall>u hs. with_jar_cookies cfg env' u hs = hs \<and> store_cookies cfg u hs env' = Some env')"
proof -
  have "store_cookies cfg (h_uri st) (resp_headers resp) (env\<lparr>env_world := w'\<rparr>) = None"
    using assms(1,2) by (simp add: store_cookies_def assms(5,6) huge_max_age_header del: add_from_response_headers.simps)
  then have "hop cfg env st = (env\<lparr>env_world := w', env_poisoned := True\<rparr>, HopPanicked)"
    by (simp add: hop_def assms(3,4))
  then show ?thesis using assms(1)
    by (intro exI [of _ "env\<lparr>env_world := w', env_poisoned := True\<rparr>"]) (simp add: store_cookies_def with_jar_cookies_def)
qed

theorem max_age_poisons_witness:
  "\<exists>env'. hop (cfg_on (demo_net 200) RedirectAll\<lparr>cfg_net := demo_net 200\<lparr>exchange := (\<lambda>dl w req. (w, NetResponse
       \<lparr>resp_status = 200, resp_headers = [(''set-cookie'', ''a=b; Max-Age=18446744073709551615'')], resp_body = ()\<rparr>))\<rparr>\<rparr>)
     \<lparr>env_world = 0, env_jar = Some [], env_poisoned = False\<rparr> (first_hop ''GET'' uri_a (Reusable []) []) = (env', HopPanicked)"
proof -
  let ?cfg = "cfg_on (demo_net 200) RedirectAll\<lparr>cfg_net := demo_net 200\<lparr>exchange := (\<lambda>dl w req. (w, NetResponse
       \<lparr>resp_status = 200, resp_headers = [(''set-cookie'', ''a=b; Max-Age=18446744073709551615'')], resp_body = ()\<rparr>))\<rparr>\<rparr>"
  let ?env = "\<lparr>env_world = 0, env_jar = Some [], env_poisoned = False\<rparr> :: nat env"
  have r: "\<exists>req. hop_request ?cfg ?env (first_hop ''GET'' uri_a (Reusable []) []) = Inr (Reusable [], req)"
    by (simp add: hop_request_def cfg_on_def first_hop_def with_accept_encoding_def with_jar_cookies_def demo_net_def
        std_lib_def cookie_header_for_url_def cookies_for_url_def)
  have t: "to_str std_lib ''a=b; Max-Age=18446744073709551615'' = Some ''a=b; Max-Age=18446744073709551615''"
    by code_simp
  from r obtain req where "hop_request ?cfg ?env (first_hop ''GET'' uri_a (Reusable []) []) = Inr (Reusable [], req)" by blast
  from max_age_poisons [OF _ _ this] t show ?thesis
    by (fastforce simp: cfg_on_def hm_get_all_def)
qed

subsection \<open>Where a relative redirect leads\<close>

text \<open>What the URI parser of the \<open>http\<close> crate promises of the texts the client builds: if an absolute
  URI parses, its scheme and authority are the parts before and after the separator.\<close>

locale uri_library =
  fixes lib :: http_lib
  assumes absolute: "s = ''http'' \<or> s = ''https'' \<Longrightarrow> a \<noteq> '''' \<Longrightarrow> \<forall>c \<in> set a. \<not> authority_end c \<Longrightarrow>
      p = '''' \<or> authority_end (hd p) \<Longrightarrow> uri_of lib (s @ ''://'' @ a @ p) = Inr u \<Longrightarrow>
      uri_scheme u = Some s \<and> uri_authority u = Some a"
begin

lemma resolve_authority:
  assumes "uri_scheme base = Some s" and "s = ''http'' \<or> s = ''https''" and "uri_authority base = Some a"
    and "a \<noteq> ''''" and "\<forall>c \<in> set (a @ x). \<not> authority_end c" and "p = '''' \<or> authority_end (hd p)"
    and "\<forall>u. uri_of lib (x @ p) = Inr u \<longrightarrow> uri_scheme u = None"
    and "resolve_redirect_uri lib base (x @ p) = Inr u"
  shows "uri_scheme u = Some s \<and> uri_authority u = Some (a @ x)"
proof -
  have "resolve_redirect_uri lib base (x @ p) = map_sum InvalidUri id (uri_of lib (s @ ''://'' @ a @ x @ p))"
    using assms(1,3,7) by (cases "uri_of lib (x @ p)") (simp_all add: resolve_redirect_uri_def Let_def)
  with assms(8) have "uri_of lib (s @ ''://'' @ (a @ x) @ p) = Inr u"
    by (simp add: map_sum_id_Inr)
  with absolute [OF assms(2) _ assms(5,6)] assms(4) show ?thesis by simp
qed

end

lemma split_once_str_scheme:
  "\<forall>c \<in> set s. c \<noteq> CHR '':'' \<Longrightarrow> split_once_str ''://'' (s @ ''://'' @ r) = Some (s, r)"
  by (induction s) (auto simp: starts_with_def)

interpretation std: uri_library std_lib
proof unfold_locales
  fix s a p u
  assume s: "s = ''http'' \<or> s = ''https''" and "a \<noteq> ''''" and a: "\<forall>c \<in> set a. \<not> authority_end c"
    and p: "p = '''' \<or> authority_end (hd p)" and u: "uri_of std_lib (s @ ''://'' @ a @ p) = Inr u"
  have "split_once_str ''://'' (s @ ''://'' @ a @ p) = Some (s, a @ p)"
    using s by (intro split_once_str_scheme) auto
  moreover have "takeWhile (\<lambda>c. \<not> authority_end c) (a @ p) = a"
    using a p by (cases p) (auto simp: takeWhile_append)
  ultimately show "uri_scheme u = Some s \<and> uri_authority u = Some a"
    using u by (auto simp: std_lib_def simple_uri_def Let_def split: prod.splits if_splits)
qed

text \<open>The target of a relative redirect: a location that begins with a slash stays on the scheme and
  authority of the request, also when it begins with two, where RFC 3986 names another host; but
  any other relative location is glued to the authority, so \<open>.evil.org/\<close> or \<open>@evil.org/\<close> leads to
  another host instead of another path of the same one.\<close>

theorem redirect_target:
  assumes "uri_library lib" and "uri_scheme base = Some s" and "s = ''http'' \<or> s = ''https''"
    and "uri_authority base = Some a" and "a \<noteq> ''''" and "\<forall>c \<in> set (a @ x). \<not> authority_end c"
    and "\<forall>u. uri_of lib (x @ CHR ''/'' # p) = Inr u \<longrightarrow> uri_scheme u = None"
    and "resolve_redirect_uri lib base (x @ CHR ''/'' # p) = Inr u"
  shows "uri_scheme u = Some s \<and> uri_authority u = Some (a @ x)"
  by (rule uri_library.resolve_authority [OF assms(1-6) _ assms(7,8)]) (simp add: authority_end_def)

theorem redirect_target_witness:
  "\<exists>u. resolve_redirect_uri std_lib uri_a ''.evil.org/'' = Inr u \<and> uri_authority u = Some ''a.org.evil.org''"
proof -
  have l: "uri_of std_lib ''.evil.org/'' = Inl ''invalid uri character''" by code_simp
  obtain u where u: "resolve_redirect_uri std_lib uri_a ''.evil.org/'' = Inr u"
    unfolding resolve_redirect_uri_def l by (auto simp: uri_a_def std_lib_def simple_uri_def Let_def starts_with_def authority_end_def
        split_path_def)
  have "uri_authority u = Some (''a.org'' @ ''.evil.org'')"
    using redirect_target [OF std.uri_library_axioms, of uri_a "''http''" "''a.org''" "''.evil.org''" "''''" u] u l
    by (simp add: uri_a_def authority_end_def)
  with u show ?thesis by simp
qed

end
