(* ===== verification/Proxy.thy ===== *)
theory Proxy
  imports Cookie Headers WsFrame Utf8
begin

section \<open>Proxy connectors (oxihttp-client proxy.rs)\<close>

text \<open>
  The handshakes of the HTTP CONNECT and the SOCKS5 connector, byte for byte, over the transport of
  \<open>WsFrame\<close> extended by the single-byte read of the CONNECT reader. Opening the TCP connection to
  the proxy is the parameter \<open>dial\<close>; the \<open>base64\<close> crate is the parameter \<open>b64\<close>. The parser of
  \<open>std::net::IpAddr\<close> is spelled out. \<open>socks_decode\<close> is the reader of the server side in RFC 1928,
  against which the requests are checked.
\<close>

subsection \<open>The byte-wise reader\<close>

text \<open>\<open>read(&mut [0u8; 1])\<close>: one byte, or nothing at the end of the stream.\<close>

locale byte_stream = duplex io rx tx
  for io :: "'s io" and rx tx +
  fixes read_byte :: "'s \<Rightarrow> (string + u8 option) \<times> 's"
  assumes byte_ok: "rx s = b # t \<Longrightarrow>
      \<exists>s'. read_byte s = (Inr (Some b), s') \<and> rx s' = t \<and> tx s' = tx s"
    and byte_eof: "rx s = [] \<Longrightarrow>
      \<exists>r s'. read_byte s = (r, s') \<and> (r = Inr None \<or> (\<exists>e. r = Inl e)) \<and> tx s' = tx s"

definition mem_read_byte :: "mem \<Rightarrow> (string + u8 option) \<times> mem" where
  "mem_read_byte m =
     (case mem_rx m of [] \<Rightarrow> (Inr None, m) | b # t \<Rightarrow> (Inr (Some b), m\<lparr>mem_rx := t\<rparr>))"

interpretation mem_bytes: byte_stream mem_io mem_rx mem_tx mem_read_byte
  by unfold_locales (auto simp: mem_read_byte_def)

subsection \<open>Addresses\<close>

text \<open>The text of a \<open>Uri\<close>.\<close>

definition uri_to_string :: "uri \<Rightarrow> string" where
  "uri_to_string u =
     (case uri_scheme u of Some s \<Rightarrow> s @ ''://'' | None \<Rightarrow> '''')
     @ (case uri_authority u of Some a \<Rightarrow> a | None \<Rightarrow> '''')
     @ uri_path u
     @ (case uri_query u of Some q \<Rightarrow> ''?'' @ q | None \<Rightarrow> '''')"

definition uri_host_port :: "uri \<Rightarrow> (string \<times> u16) oxi_result" where
  "uri_host_port u =
     (case uri_host u of
        None \<Rightarrow> Inl (ConnectionPool (''URI has no host: '' @ uri_to_string u))
      | Some host \<Rightarrow>
          (case uri_port u of
             Some p \<Rightarrow> Inr (host, of_nat p)
           | None \<Rightarrow>
               if uri_scheme u = Some ''https'' then Inr (host, 443)
               else if uri_scheme u = Some ''http'' then Inr (host, 80)
               else Inl (ConnectionPool (''URI has no port and unknown scheme: '' @ uri_to_string u))))"

definition extract_auth :: "uri \<Rightarrow> (string \<times> string) option" where
  "extract_auth u =
     (case uri_authority u of
        None \<Rightarrow> None
      | Some authority \<Rightarrow>
          (let userinfo = hd (split_on CHR ''@'' authority) in
           if CHR ''@'' \<notin> set authority then None
           else (case split_once CHR '':'' userinfo of
                   None \<Rightarrow> None
                 | Some (user, pass) \<Rightarrow> if user = '''' then None else Some (user, pass))))"

text \<open>\<open>{host}:{port}\<close>\<close>

definition host_port :: "string \<Rightarrow> u16 \<Rightarrow> string" where
  "host_port host port = host @ '':'' @ show_nat (unat port)"

subsection \<open>Opening the connection\<close>

datatype proxy_kind = HttpConnect uri | Socks5 uri

record proxy_connector =
  px_uri :: uri
  px_timeout :: "nat option"
  px_auth :: "(string \<times> string) option"

definition proxy_connector_new :: "uri \<Rightarrow> nat option \<Rightarrow> proxy_connector" where
  "proxy_connector_new u timeout = \<lparr>px_uri = u, px_timeout = timeout, px_auth = extract_auth u\<rparr>"

definition socks5_connector_new :: "uri \<Rightarrow> nat option \<Rightarrow> proxy_connector" where
  "socks5_connector_new u timeout = \<lparr>px_uri = u, px_timeout = timeout, px_auth = extract_auth u\<rparr>"

text \<open>\<open>TcpStream::connect\<close> under an optional deadline in nanoseconds.\<close>

datatype 's dialed = Dialed 's | DialFailed string | DialElapsed

type_synonym 's dialer = "nat option \<Rightarrow> string \<Rightarrow> 's dialed"

definition as_millis :: "nat \<Rightarrow> nat" where
  "as_millis d = d div 10 ^ 6"

definition open_proxy :: "'s dialer \<Rightarrow> string \<Rightarrow> nat option \<Rightarrow> string \<Rightarrow> 's oxi_result" where
  "open_proxy dial what timeout addr =
     (case dial timeout addr of
        Dialed s \<Rightarrow> Inr s
      | DialFailed e \<Rightarrow> Inl (IoErr e)
      | DialElapsed \<Rightarrow>
          Inl (TimeoutErr (what @ '' connect timeout after ''
            @ show_nat (as_millis (case timeout of Some t \<Rightarrow> t | None \<Rightarrow> 0)) @ ''ms'')))"

subsection \<open>HTTP CONNECT\<close>

definition CRLF :: string where
  "CRLF = [CHR 0x0D, CHR 0x0A]"

definition head_end :: bytes where
  "head_end = [13, 10, 13, 10]"

definition connect_request :: "(bytes \<Rightarrow> string) \<Rightarrow> (string \<times> string) option \<Rightarrow> string \<Rightarrow> string" where
  "connect_request b64 auth target =
     ''CONNECT '' @ target @ '' HTTP/1.1'' @ CRLF @ ''Host: '' @ target @ CRLF
     @ (case auth of
          None \<Rightarrow> ''''
        | Some (user, pass) \<Rightarrow>
            ''Proxy-Authorization: Basic '' @ b64 (as_bytes (user @ '':'' @ pass)) @ CRLF)
     @ CRLF"

text \<open>The loop is bounded by the size check: at most 8193 bytes are read.\<close>

function read_head ::
  "('s \<Rightarrow> (string + u8 option) \<times> 's) \<Rightarrow> bytes \<Rightarrow> ('s, oxi_error, bytes) sresult" where
  "read_head read_byte buf s =
     (case read_byte s of
        (Inl e, s1) \<Rightarrow> (Inl (IoErr e), s1)
      | (Inr None, s1) \<Rightarrow> (Inl (ConnectionPool ''proxy closed connection during CONNECT handshake''), s1)
      | (Inr (Some b), s1) \<Rightarrow>
          if ends_with head_end (buf @ [b]) then (Inr (buf @ [b]), s1)
          else if 8192 < length (buf @ [b])
          then (Inl (ConnectionPool ''proxy CONNECT response too large''), s1)
          else read_head read_byte (buf @ [b]) s1)"
  by pat_completeness auto
termination by (relation "measure (\<lambda>(_, buf, _). 8193 - length buf)") auto

declare read_head.simps [simp del]

definition first_line :: "bytes \<Rightarrow> string" where
  "first_line buf = (case from_utf8 (hd (split_on 10 buf)) of Inr l \<Rightarrow> l | Inl _ \<Rightarrow> '''')"

definition check_connect :: "bytes \<Rightarrow> ('s, oxi_error, unit) sresult" where
  "check_connect buf =
     (if \<not> occurs ''200'' (first_line buf)
      then sthrow (ConnectionPool (''proxy CONNECT rejected: '' @ first_line buf))
      else sreturn ())"

definition connect_handshake ::
  "'s io \<Rightarrow> ('s \<Rightarrow> (string + u8 option) \<times> 's) \<Rightarrow> (bytes \<Rightarrow> string) \<Rightarrow> (string \<times> string) option \<Rightarrow> string
   \<Rightarrow> ('s, oxi_error, unit) sresult" where
  "connect_handshake io read_byte b64 auth target =
     sbind (map_err IoErr (write_all io (as_bytes (connect_request b64 auth target)))) (\<lambda>_.
     sbind (read_head read_byte []) check_connect)"

text \<open>An error drops the stream.\<close>

definition tunnel :: "('s, oxi_error, unit) sresult \<Rightarrow> 's \<Rightarrow> 's oxi_result" where
  "tunnel handshake s = (case handshake s of (Inl e, _) \<Rightarrow> Inl e | (Inr _, s') \<Rightarrow> Inr s')"

definition proxy_call ::
  "'s dialer \<Rightarrow> 's io \<Rightarrow> ('s \<Rightarrow> (string + u8 option) \<times> 's) \<Rightarrow> (bytes \<Rightarrow> string) \<Rightarrow> proxy_connector \<Rightarrow> uri
   \<Rightarrow> 's oxi_result" where
  "proxy_call dial io read_byte b64 px u =
     rbind (uri_host_port (px_uri px)) (\<lambda>(proxy_host, proxy_port).
     rbind (uri_host_port u) (\<lambda>(target_host, target_port).
     rbind (open_proxy dial ''proxy'' (px_timeout px) (host_port proxy_host proxy_port)) (\<lambda>s.
     tunnel (connect_handshake io read_byte b64 (px_auth px) (host_port target_host target_port)) s)))"

subsection \<open>IP addresses from text\<close>

text \<open>
  The parser of \<open>core::net\<close>: a reader returns what it read with the rest, and a reader that fails
  consumes nothing. IPv6 groups may end in an embedded IPv4 address.
\<close>

datatype ip_addr = IpV4 bytes | IpV6 bytes

definition read_char :: "char \<Rightarrow> string \<Rightarrow> string option" where
  "read_char c s = (case s of [] \<Rightarrow> None | x # xs \<Rightarrow> if x = c then Some xs else None)"

definition read_number :: "nat \<Rightarrow> nat \<Rightarrow> bool \<Rightarrow> nat \<Rightarrow> string \<Rightarrow> (nat \<times> string) option" where
  "read_number radix max_digits zero_prefix limit s =
     (let ds = takeWhile (\<lambda>c. digit_of radix c \<noteq> None) s
      in if ds = '''' \<or> max_digits < length ds then None
         else if \<not> zero_prefix \<and> hd ds = CHR ''0'' \<and> 1 < length ds then None
         else (case digits_acc radix 0 ds of
                 Some v \<Rightarrow> if v \<le> limit then Some (v, drop (length ds) s) else None
               | None \<Rightarrow> None))"

fun read_octets :: "nat \<Rightarrow> bool \<Rightarrow> string \<Rightarrow> (bytes \<times> string) option" where
  "read_octets 0 first s = Some ([], s)"
| "read_octets (Suc k) first s =
     Option.bind (if first then Some s else read_char CHR ''.'' s) (\<lambda>s1.
     Option.bind (read_number 10 3 False 255 s1) (\<lambda>(v, s2).
     map_option (\<lambda>(bs, s3). (of_nat v # bs, s3)) (read_octets k False s2)))"

definition read_ipv4 :: "string \<Rightarrow> (bytes \<times> string) option" where
  "read_ipv4 s = read_octets 4 True s"

fun read_groups :: "nat \<Rightarrow> bool \<Rightarrow> string \<Rightarrow> bytes \<times> bool \<times> string" where
  "read_groups 0 first s = ([], False, s)"
| "read_groups (Suc k) first s =
     (let start = (if first then Some s else read_char CHR '':'' s)
      in case (if 0 < k then Option.bind start read_ipv4 else None) of
           Some (octets, rest) \<Rightarrow> (octets, True, rest)
         | None \<Rightarrow>
             (case Option.bind start (read_number 16 4 True 0xFFFF) of
                None \<Rightarrow> ([], False, s)
              | Some (g, rest) \<Rightarrow>
                  (let (gs, v4, rest') = read_groups k False rest in (nat_to_be 2 g @ gs, v4, rest'))))"

definition read_ipv6 :: "string \<Rightarrow> (bytes \<times> string) option" where
  "read_ipv6 s =
     (let (head, v4, rest) = read_groups 8 True s
      in if length head = 16 then Some (head, rest)
         else if v4 then None
         else Option.bind (read_char CHR '':'' rest) (\<lambda>s1.
              Option.bind (read_char CHR '':'' s1) (\<lambda>s2.
              let (tail, _, s3) = read_groups (8 - (length head div 2 + 1)) True s2
              in Some (head @ replicate (16 - length head - length tail) 0 @ tail, s3))))"

definition parse_ip :: "string \<Rightarrow> ip_addr option" where
  "parse_ip s =
     (case (case read_ipv4 s of
              Some (octets, rest) \<Rightarrow> Some (IpV4 octets, rest)
            | None \<Rightarrow> map_option (\<lambda>(octets, rest). (IpV6 octets, rest)) (read_ipv6 s)) of
        Some (ip, []) \<Rightarrow> Some ip
      | _ \<Rightarrow> None)"

subsection \<open>SOCKS5\<close>

definition socks_greeting :: "(string \<times> string) option \<Rightarrow> bytes" where
  "socks_greeting auth = (if auth \<noteq> None then [0x05, 2, 0x00, 0x02] else [0x05, 1, 0x00])"

text \<open>\<open>len() as u8\<close> keeps the low byte.\<close>

definition socks_userpass :: "string \<Rightarrow> string \<Rightarrow> bytes" where
  "socks_userpass user pass =
     [0x01, of_nat (length user)] @ as_bytes user @ [of_nat (length pass)] @ as_bytes pass"

definition socks_address :: "string \<Rightarrow> u8 \<times> bytes" where
  "socks_address target_host =
     (case parse_ip target_host of
        Some (IpV4 octets) \<Rightarrow> (0x01, octets)
      | Some (IpV6 octets) \<Rightarrow> (0x04, octets)
      | None \<Rightarrow> (0x03, of_nat (length target_host) # as_bytes target_host))"

definition socks_request :: "string \<Rightarrow> u16 \<Rightarrow> bytes" where
  "socks_request target_host target_port =
     (let (atyp, addr_bytes) = socks_address target_host
      in [0x05, 0x01, 0x00, atyp] @ addr_bytes
           @ [ucast (drop_bit 8 target_port), ucast (target_port AND 0xFF)])"

definition socks_authenticate :: "'s io \<Rightarrow> (string \<times> string) option \<Rightarrow> u8 \<Rightarrow> ('s, oxi_error, unit) sresult" where
  "socks_authenticate io auth selected =
     (if selected = 0x02 then
        (case auth of
           None \<Rightarrow> sthrow (ConnectionPool ''SOCKS5 proxy requires authentication but none configured'')
         | Some (user, pass) \<Rightarrow>
             sbind (map_err IoErr (write_all io (socks_userpass user pass))) (\<lambda>_.
             sbind (map_err IoErr (read_exact io 2)) (\<lambda>auth_resp.
             if auth_resp ! 1 \<noteq> 0x00 then sthrow (ConnectionPool ''SOCKS5 authentication failed'')
             else sreturn ())))
      else sreturn ())"

definition drain_bound_address :: "'s io \<Rightarrow> u8 \<Rightarrow> ('s, oxi_error, unit) sresult" where
  "drain_bound_address io bnd_atyp =
     (if bnd_atyp = 0x01 then sbind (map_err IoErr (read_exact io 4)) (\<lambda>_. sreturn ())
      else if bnd_atyp = 0x04 then sbind (map_err IoErr (read_exact io 16)) (\<lambda>_. sreturn ())
      else if bnd_atyp = 0x03 then
        sbind (map_err IoErr (read_exact io 1)) (\<lambda>len_buf.
        sbind (map_err IoErr (read_exact io (unat (len_buf ! 0)))) (\<lambda>_. sreturn ()))
      else sthrow (ConnectionPool (''SOCKS5 reply has unknown ATYP 0x'' @ pad_left 2 (show_hex (unat bnd_atyp)))))"

definition socks_reply :: "'s io \<Rightarrow> ('s, oxi_error, unit) sresult" where
  "socks_reply io =
     sbind (map_err IoErr (read_exact io 4)) (\<lambda>reply_hdr.
     if reply_hdr ! 1 \<noteq> 0x00
     then sthrow (ConnectionPool (''SOCKS5 error code 0x'' @ pad_left 2 (show_hex (unat (reply_hdr ! 1)))))
     else sbind (drain_bound_address io (reply_hdr ! 3)) (\<lambda>_.
          sbind (map_err IoErr (read_exact io 2)) (\<lambda>_. sreturn ())))"

definition socks5_handshake ::
  "'s io \<Rightarrow> (string \<times> string) option \<Rightarrow> string \<Rightarrow> u16 \<Rightarrow> ('s, oxi_error, unit) sresult" where
  "socks5_handshake io auth target_host target_port =
     sbind (map_err IoErr (write_all io (socks_greeting auth))) (\<lambda>_.
     sbind (map_err IoErr (read_exact io 2)) (\<lambda>method_resp.
     if method_resp ! 0 \<noteq> 0x05
     then sthrow (ConnectionPool ''SOCKS5 greeting response has wrong version byte'')
     else if method_resp ! 1 = 0xFF
     then sthrow (ConnectionPool ''SOCKS5 proxy rejected all authentication methods'')
     else sbind (socks_authenticate io auth (method_resp ! 1)) (\<lambda>_.
          sbind (map_err IoErr (write_all io (socks_request target_host target_port))) (\<lambda>_.
          socks_reply io))))"

definition socks5_call :: "'s dialer \<Rightarrow> 's io \<Rightarrow> proxy_connector \<Rightarrow> uri \<Rightarrow> 's oxi_result" where
  "socks5_call dial io px u =
     rbind (uri_host_port (px_uri px)) (\<lambda>(proxy_host, proxy_port).
     rbind (uri_host_port u) (\<lambda>(target_host, target_port).
     rbind (open_proxy dial ''SOCKS5 proxy'' (px_timeout px) (host_port proxy_host proxy_port)) (\<lambda>s.
     tunnel (socks5_handshake io (px_auth px) target_host target_port) s)))"

subsection \<open>CONNECT consumes exactly the response head\<close>

definition response_head :: "bytes \<Rightarrow> bool" where
  "response_head h \<longleftrightarrow> ends_with head_end h \<and> (\<forall>k < length h. \<not> ends_with head_end (take k h))"

definition granting_head :: "bytes \<Rightarrow> bool" where
  "granting_head h \<longleftrightarrow> response_head h \<and> length h \<le> 8193 \<and> occurs ''200'' (first_line h)"

lemma ends_with_nonempty: "ends_with p s \<Longrightarrow> p \<noteq> [] \<Longrightarrow> s \<noteq> []"
  by (auto simp: ends_with_iff)

context byte_stream
begin

lemma read_byte_Some:
  assumes "read_byte s = (Inr (Some b), s')"
  shows "rx s = b # rx s' \<and> tx s' = tx s"
  using assms byte_ok byte_eof by (cases "rx s") (fastforce dest: byte_ok)+

end

context byte_stream
begin

lemma read_head_Inr:
  assumes "read_head read_byte buf s = (Inr h, s')" and "length buf \<le> 8192"
  shows "\<exists>t. h = buf @ t \<and> rx s = t @ rx s' \<and> tx s' = tx s \<and> ends_with head_end h \<and> length h \<le> 8193 \<and>
             (\<forall>k. 0 < k \<and> k < length t \<longrightarrow> \<not> ends_with head_end (buf @ take k t))"
  using assms
proof (induction "8193 - length buf" arbitrary: buf s rule: less_induct)
  case less
  from less.prems(1) obtain b s1 where b: "read_byte s = (Inr (Some b), s1)"
    by (auto simp: read_head.simps [of _ buf s] split: prod.splits sum.splits option.splits if_splits)
  note rb = read_byte_Some [OF b]
  show ?case
  proof (cases "ends_with head_end (buf @ [b])")
    case True
    with less.prems b have "h = buf @ [b]" "s' = s1" by (simp_all add: read_head.simps [of _ buf s])
    with rb True less.prems(2) show ?thesis by (intro exI [of _ "[b]"]) simp
  next
    case False
    with less.prems b have small: "length (buf @ [b]) \<le> 8192"
      and rest: "read_head read_byte (buf @ [b]) s1 = (Inr h, s')"
      by (auto simp: read_head.simps [of _ buf s] split: if_splits)
    have "8193 - length (buf @ [b]) < 8193 - length buf" using small by simp
    from less.hyps [OF this rest small] have
      "\<exists>t. h = buf @ b # t \<and> rx s1 = t @ rx s' \<and> tx s' = tx s1 \<and> ends_with head_end h \<and>
         length h \<le> 8193 \<and> (\<forall>k. 0 < k \<and> k < length t \<longrightarrow> \<not> ends_with head_end (buf @ b # take k t))"
      by simp
    then obtain t where t: "h = buf @ b # t" "rx s1 = t @ rx s'"
      "tx s' = tx s1" "ends_with head_end h" "length h \<le> 8193"
      "\<forall>k. 0 < k \<and> k < length t \<longrightarrow> \<not> ends_with head_end (buf @ b # take k t)"
      by blast
    have "\<not> ends_with head_end (buf @ take k (b # t))" if "0 < k" "k < length (b # t)" for k
      using that t(6) False by (cases "k = 1") (auto simp: take_Cons')
    with rb t(1-5) show ?thesis by (intro exI [of _ "b # t"]) simp
  qed
qed

lemma read_head_ready:
  assumes "rx s = t @ r" and "ends_with head_end (buf @ t)" and "t \<noteq> []" and "length (buf @ t) \<le> 8193"
    and "\<forall>k. 0 < k \<and> k < length t \<longrightarrow> \<not> ends_with head_end (buf @ take k t)"
  shows "\<exists>s'. read_head read_byte buf s = (Inr (buf @ t), s') \<and> rx s' = r"
  using assms
proof (induction t arbitrary: buf s)
  case (Cons b t)
  obtain s1 where s1: "read_byte s = (Inr (Some b), s1)" "rx s1 = t @ r"
    using byte_ok [of s b "t @ r"] Cons.prems(1) by auto
  show ?case
  proof (cases "t = []")
    case True
    with s1 Cons.prems show ?thesis by (simp add: read_head.simps [of _ buf s])
  next
    case False
    have no: "\<not> ends_with head_end (buf @ [b])" using Cons.prems(5) False
      by (auto dest!: spec [of _ 1])
    have "\<forall>k. 0 < k \<and> k < length t \<longrightarrow> \<not> ends_with head_end ((buf @ [b]) @ take k t)"
    proof (intro allI impI)
      fix k assume "0 < k \<and> k < length t"
      with Cons.prems(5) [THEN spec, of "Suc k"] show "\<not> ends_with head_end ((buf @ [b]) @ take k t)" by simp
    qed
    from Cons.IH [OF s1(2) _ False _ this] Cons.prems
    obtain s' where "read_head read_byte (buf @ [b]) s1 = (Inr (buf @ b # t), s')" "rx s' = r" by auto
    moreover have "length (buf @ [b]) \<le> 8192" using Cons.prems(4) False by (cases t) auto
    ultimately show ?thesis using no s1(1) by (simp add: read_head.simps [of _ buf s])
  qed
qed simp

lemma connect_handshake_Inr:
  assumes "connect_handshake io read_byte b64 auth target s = (Inr (), s')"
  shows "\<exists>h. rx s = h @ rx s' \<and> granting_head h \<and> tx s' = tx s @ as_bytes (connect_request b64 auth target)"
proof -
  from assms obtain s1 h s2 where
    w: "write_all io (as_bytes (connect_request b64 auth target)) s = (Inr (), s1)"
    and h: "read_head read_byte [] s1 = (Inr h, s2)" and c: "check_connect h s2 = (Inr (), s')"
    by (auto simp: connect_handshake_def sbind_Inr)
  note rw = write_done [OF w]
  have s2: "s' = s2" and ok: "occurs ''200'' (first_line h)"
    using c by (auto simp: check_connect_def split: if_splits)
  from read_head_Inr [OF h] have t: "rx s1 = h @ rx s2" "tx s2 = tx s1" "ends_with head_end h"
    "length h \<le> 8193" "\<forall>k. 0 < k \<and> k < length h \<longrightarrow> \<not> ends_with head_end (take k h)"
    by auto
  have "\<not> ends_with head_end (take k h)" if "k < length h" for k
    using t(5) that by (cases "k = 0") (auto simp: head_end_def dest: ends_with_nonempty)
  with t ok rw s2 show ?thesis by (simp add: granting_head_def response_head_def)
qed

lemma connect_handshake_ready:
  assumes sent: "write_all io (as_bytes (connect_request b64 auth target)) s = (Inr (), s1)"
    and rx: "rx s = h @ rest" and granted: "granting_head h"
  shows "\<exists>s'. connect_handshake io read_byte b64 auth target s = (Inr (), s') \<and> rx s' = rest"
proof -
  from granted have g: "ends_with head_end h" "\<forall>k < length h. \<not> ends_with head_end (take k h)"
    "length h \<le> 8193" "occurs ''200'' (first_line h)"
    by (simp_all add: granting_head_def response_head_def)
  have "h \<noteq> []" using ends_with_nonempty [OF g(1)] by (simp add: head_end_def)
  with read_head_ready [of s1 h rest "[]"] rx g write_done [OF sent]
  obtain s2 where "read_head read_byte [] s1 = (Inr h, s2)" "rx s2 = rest" by auto
  with g(4) sent show ?thesis
    by (intro exI [of _ s2]) (simp add: connect_handshake_def sbind_run check_connect_def)
qed

lemma connect_handshake_iff:
  assumes sent: "write_all io (as_bytes (connect_request b64 auth target)) s = (Inr (), s1)"
  shows "(\<exists>s'. connect_handshake io read_byte b64 auth target s = (Inr (), s') \<and> rx s' = rest \<and>
            tx s' = tx s @ as_bytes (connect_request b64 auth target)) \<longleftrightarrow>
         (\<exists>h. rx s = h @ rest \<and> granting_head h)"
  using connect_handshake_Inr connect_handshake_ready [OF sent] by blast

lemma proxy_call_Inr:
  assumes "proxy_call dial io read_byte b64 px u = Inr s'"
  shows "\<exists>ph pp host p s. uri_host_port (px_uri px) = Inr (ph, pp) \<and> uri_host_port u = Inr (host, p) \<and>
     dial (px_timeout px) (host_port ph pp) = Dialed s \<and> (\<exists>h. rx s = h @ rx s' \<and> granting_head h) \<and>
     tx s' = tx s @ as_bytes (connect_request b64 (px_auth px) (host_port host p))"
proof -
  from assms obtain ph pp host p s where
    a: "uri_host_port (px_uri px) = Inr (ph, pp)" "uri_host_port u = Inr (host, p)"
    and o: "open_proxy dial ''proxy'' (px_timeout px) (host_port ph pp) = Inr s"
    and t: "tunnel (connect_handshake io read_byte b64 (px_auth px) (host_port host p)) s = Inr s'"
    by (auto simp: proxy_call_def rbind_Inr)
  from t have "connect_handshake io read_byte b64 (px_auth px) (host_port host p) s = (Inr (), s')"
    by (auto simp: tunnel_def split: prod.splits sum.splits)
  with a o connect_handshake_Inr show ?thesis
    by (fastforce simp: open_proxy_def split: dialed.splits)
qed

end

subsection \<open>A SOCKS5 request as the proxy reads it\<close>

datatype socks_target = TargetIp ip_addr | TargetName string

text \<open>RFC 1928 section 4 (CONNECT only) and RFC 1929 section 2, from the side of the proxy.\<close>

fun socks_decode :: "bytes \<Rightarrow> (socks_target \<times> u16) option" where
  "socks_decode (ver # cmd # rsv # atyp # rest) =
     (if ver \<noteq> 5 \<or> cmd \<noteq> 1 then None
      else if atyp = 1 \<and> length rest = 6
      then Some (TargetIp (IpV4 (take 4 rest)), of_nat (be_to_nat (drop 4 rest)))
      else if atyp = 4 \<and> length rest = 18
      then Some (TargetIp (IpV6 (take 16 rest)), of_nat (be_to_nat (drop 16 rest)))
      else if atyp = 3 \<and> rest \<noteq> [] \<and> length (tl rest) = unat (hd rest) + 2
      then Some (TargetName (of_bytes (take (unat (hd rest)) (tl rest))),
                 of_nat (be_to_nat (drop (unat (hd rest)) (tl rest))))
      else None)"
| "socks_decode _ = None"

definition userpass_decode :: "bytes \<Rightarrow> (string \<times> string) option" where
  "userpass_decode m =
     (let r = drop 2 m; n = unat (m ! 1) in
      if length m < 2 \<or> hd m \<noteq> 1 \<or> length r \<le> n then None
      else if length r = n + 1 + unat (r ! n)
      then Some (of_bytes (take n r), of_bytes (drop (Suc n) r)) else None)"

definition socks_target_of :: "string \<Rightarrow> socks_target" where
  "socks_target_of host = (case parse_ip host of Some ip \<Rightarrow> TargetIp ip | None \<Rightarrow> TargetName host)"

lemma unat_small_byte: "n \<le> 255 \<Longrightarrow> unat (of_nat n :: u8) = n"
  by (simp add: unat_of_nat)

lemma userpass_roundtrip:
  assumes "length user \<le> 255" and "length pass \<le> 255"
  shows "userpass_decode (socks_userpass user pass) = Some (user, pass)"
  using assms by (simp add: userpass_decode_def socks_userpass_def unat_small_byte nth_append)

lemma read_octets_length: "read_octets k first s = Some (bs, r) \<Longrightarrow> length bs = k"
  by (induction k arbitrary: first s bs r)
    (auto split: bind_splits prod.splits if_splits)

lemma read_groups_length:
  "read_groups k first s = (gs, v4, r) \<Longrightarrow> even (length gs) \<and> length gs \<le> 2 * k"
proof (induction k arbitrary: first s gs v4 r)
  case (Suc k)
  from Suc.prems show ?case
    by (auto simp: Let_def read_ipv4_def split: option.splits prod.splits if_splits bind_splits
        dest!: read_octets_length Suc.IH)
qed simp

lemma read_ipv6_length:
  assumes "read_ipv6 s = Some (bs, r)" shows "length bs = 16"
proof -
  obtain gs v4 rest where g: "read_groups 8 True s = (gs, v4, rest)" by (metis prod_cases3)
  note gl = read_groups_length [OF g]
  show ?thesis
  proof (cases "length gs = 16")
    case True
    with assms g show ?thesis by (simp add: read_ipv6_def)
  next
    case False
    with assms g obtain s2 tl t4 s3 where t: "read_groups (8 - (length gs div 2 + 1)) True s2 = (tl, t4, s3)"
      and bs: "bs = gs @ replicate (16 - length gs - length tl) 0 @ tl"
      by (auto simp: read_ipv6_def split: bind_splits prod.splits if_splits)
    from read_groups_length [OF t] gl False have "length gs + length tl \<le> 16" by (auto elim!: evenE)
    then show ?thesis by (simp add: bs)
  qed
qed

lemma parse_ip_length:
  "parse_ip s = Some (IpV4 bs) \<Longrightarrow> length bs = 4"
  "parse_ip s = Some (IpV6 bs) \<Longrightarrow> length bs = 16"
  by (auto simp: parse_ip_def read_ipv4_def dest: read_octets_length read_ipv6_length
      split: option.splits list.splits prod.splits)

lemma port_bytes:
  "be_to_nat [ucast (drop_bit 8 (p :: u16)), ucast (p AND 0xFF)] = unat p"
proof -
  have "unat p < 2 ^ LENGTH(16)" by (rule unsigned_less)
  then have lt: "unat p < 65536" by simp
  have hi: "unat (drop_bit 8 p) = unat p div 256"
    by (simp add: drop_bit_eq_div unat_div)
  have "(0xFF :: u16) = mask 8" by (simp add: mask_eq_exp_minus_1)
  then have "p AND 0xFF = take_bit 8 p" by (simp only: take_bit_eq_mask)
  then have lo: "unat (p AND 0xFF) = unat p mod 256"
    by (simp add: take_bit_eq_mod unat_mod)
  show ?thesis
    using lt by (simp add: be_to_nat_def unsigned_ucast_eq hi lo take_bit_eq_mod)
qed

lemma socks_request_decodes:
  assumes "length host \<le> 255"
  shows "socks_decode (socks_request host port) = Some (socks_target_of host, port)"
  using assms parse_ip_length [of host]
  by (auto simp: socks_request_def socks_address_def socks_target_of_def port_bytes unat_small_byte
      split: option.splits ip_addr.splits)

text \<open>A longer name is announced with the low byte of its length, and the proxy cannot read the request.\<close>

lemma socks_long_host:
  assumes "parse_ip host = None" and "255 < length host"
  shows "socks_decode (socks_request host port) = None"
proof -
  have "unat (of_nat (length host) :: u8) < 2 ^ LENGTH(8)" by (rule unsigned_less)
  with assms have "unat (of_nat (length host) :: u8) \<noteq> length host" by simp
  with assms(1) show ?thesis by (simp add: socks_request_def socks_address_def)
qed

text \<open>The host of a bracketed literal is not an address for this parser.\<close>

lemma parse_ip_bracket: "parse_ip (CHR ''['' # s) = None"
  by (simp add: parse_ip_def read_ipv4_def read_ipv6_def numeral_eq_Suc read_number_def digit_of_def read_char_def)

subsection \<open>The SOCKS5 handshake\<close>

text \<open>\<open>reply_form a b\<close>: \<open>b\<close> is a bound address of type \<open>a\<close> followed by a port.\<close>

definition reply_form :: "u8 \<Rightarrow> bytes \<Rightarrow> bool" where
  "reply_form a b \<longleftrightarrow> a = 1 \<and> length b = 6 \<or> a = 4 \<and> length b = 18 \<or>
     a = 3 \<and> b \<noteq> [] \<and> length b = unat (hd b) + 3"

text \<open>
  What a successful handshake exchanges: \<open>sub\<close> is the user and password message, present exactly when
  the proxy selected that method, and \<open>sub_reply\<close> its two-byte answer with status 0.
\<close>

definition negotiated :: "(string \<times> string) option \<Rightarrow> u8 \<Rightarrow> bytes \<Rightarrow> bytes \<Rightarrow> bool" where
  "negotiated auth selected sub sub_reply \<longleftrightarrow> selected \<noteq> 0xFF \<and>
     (if selected = 2 then (\<exists>user pass v. auth = Some (user, pass) \<and> sub = socks_userpass user pass \<and> sub_reply = [v, 0])
      else sub = [] \<and> sub_reply = [])"

lemma length_two: "length b = 2 \<Longrightarrow> b = [b ! 0, b ! 1]"
  by (cases b) (auto simp: length_Suc_conv numeral_2_eq_2)

lemma length_four: "length b = 4 \<Longrightarrow> b = [b ! 0, b ! 1, b ! 2, b ! 3]"
  by (auto simp: length_Suc_conv numeral_eq_Suc)

lemma length_one: "length b = 1 \<Longrightarrow> b = [b ! 0]"
  by (auto simp: length_Suc_conv numeral_eq_Suc)

context duplex
begin

lemma socks_authenticate_Inr:
  assumes "socks_authenticate io auth selected s = (Inr (), s')" and "selected \<noteq> 0xFF"
  shows "\<exists>sub sub_reply. negotiated auth selected sub sub_reply \<and> tx s' = tx s @ sub \<and> rx s = sub_reply @ rx s'"
proof (cases "selected = 2")
  case False
  with assms show ?thesis by (auto simp: socks_authenticate_def negotiated_def)
next
  case True
  with assms obtain user pass s1 b where a: "auth = Some (user, pass)"
    and w: "write_all io (socks_userpass user pass) s = (Inr (), s1)"
    and r: "read_exact io 2 s1 = (Inr b, s')" and ok: "b ! 1 = 0"
    by (auto simp: socks_authenticate_def sbind_Inr split: option.splits if_splits)
  note rw = write_done [OF w] and rr = read_exact_Inr [OF r]
  from length_two [OF rr(2)] ok have "b = [b ! 0, 0]" by simp
  with True a rw rr show ?thesis
    by (intro exI [of _ "socks_userpass user pass"] exI [of _ b]) (auto simp: negotiated_def)
qed

lemma drain_Inr:
  assumes "drain_bound_address io a s = (Inr (), s1)" and "read_exact io 2 s1 = (Inr p, s')"
  shows "\<exists>b. rx s = b @ rx s' \<and> reply_form a b \<and> tx s' = tx s"
proof -
  note p = read_exact_Inr [OF assms(2)]
  consider (v4) b where "a = 1" "read_exact io 4 s = (Inr b, s1)"
    | (v6) b where "a = 4" "read_exact io 16 s = (Inr b, s1)"
    | (name) l s2 b where "a = 3" "read_exact io 1 s = (Inr l, s2)" "read_exact io (unat (l ! 0)) s2 = (Inr b, s1)"
    using assms(1) by (auto simp: drain_bound_address_def sbind_Inr split: if_splits)
  then show ?thesis
  proof cases
    case v4
    from read_exact_Inr [OF v4(2)] p v4(1) show ?thesis
      by (intro exI [of _ "b @ p"]) (simp add: reply_form_def)
  next
    case v6
    from read_exact_Inr [OF v6(2)] p v6(1) show ?thesis
      by (intro exI [of _ "b @ p"]) (simp add: reply_form_def)
  next
    case name
    note l = read_exact_Inr [OF name(2)] and b = read_exact_Inr [OF name(3)]
    from length_one [OF l(2)] obtain n where "l = [n]" by blast
    with l b p name(1) show ?thesis
      by (intro exI [of _ "l @ b @ p"]) (simp add: reply_form_def)
  qed
qed

lemma socks_reply_Inr:
  assumes "socks_reply io s = (Inr (), s')"
  shows "\<exists>v r a b. rx s = [v, 0, r, a] @ b @ rx s' \<and> reply_form a b \<and> tx s' = tx s"
proof -
  from assms obtain h s1 s2 p where h: "read_exact io 4 s = (Inr h, s1)" and ok: "h ! 1 = 0"
    and d: "drain_bound_address io (h ! 3) s1 = (Inr (), s2)" and p: "read_exact io 2 s2 = (Inr p, s')"
    by (auto simp: socks_reply_def sbind_Inr split: if_splits)
  note rh = read_exact_Inr [OF h]
  from length_four [OF rh(2)] ok have "h = [h ! 0, 0, h ! 2, h ! 3]" by simp
  with drain_Inr [OF d p] rh show ?thesis by (metis append.assoc)
qed

lemma socks5_handshake_Inr:
  assumes "socks5_handshake io auth host port s = (Inr (), s')"
  shows "\<exists>selected sub sub_reply v r a b. negotiated auth selected sub sub_reply \<and>
     tx s' = tx s @ socks_greeting auth @ sub @ socks_request host port \<and>
     rx s = [5, selected] @ sub_reply @ [v, 0, r, a] @ b @ rx s' \<and> reply_form a b"
proof -
  from assms obtain s1 m s2 s3 s4 where g: "write_all io (socks_greeting auth) s = (Inr (), s1)"
    and m: "read_exact io 2 s1 = (Inr m, s2)" and v: "m ! 0 = 5" and sel: "m ! 1 \<noteq> 0xFF"
    and a: "socks_authenticate io auth (m ! 1) s2 = (Inr (), s3)"
    and w: "write_all io (socks_request host port) s3 = (Inr (), s4)"
    and r: "socks_reply io s4 = (Inr (), s')"
    by (auto simp: socks5_handshake_def sbind_Inr split: if_splits)
  note rg = write_done [OF g] and rm = read_exact_Inr [OF m] and rw = write_done [OF w]
  from length_two [OF rm(2)] v have "m = [5, m ! 1]" by simp
  with rm rg have head: "rx s = [5, m ! 1] @ rx s2" "tx s2 = tx s @ socks_greeting auth" by simp_all
  from socks_authenticate_Inr [OF a sel] obtain sub sub_reply where
    n: "negotiated auth (m ! 1) sub sub_reply" "tx s3 = tx s2 @ sub" "rx s2 = sub_reply @ rx s3" by blast
  from socks_reply_Inr [OF r] obtain x y c b where
    "rx s4 = [x, 0, y, c] @ b @ rx s'" "reply_form c b" "tx s' = tx s4" by blast
  with head n rw show ?thesis
    by (intro exI [of _ "m ! 1"] exI [of _ sub] exI [of _ sub_reply] exI [of _ x] exI [of _ y]
        exI [of _ c] exI [of _ b]) simp
qed

end

subsection \<open>The properties\<close>

text \<open>The proxy's side of CONNECT: the request line names the target, the \<open>Host\<close> field repeats it, the
  credentials of RFC 7617 are the Base64 text (RFC 4648) of the user, a colon and the password, and an
  empty line ends the head.\<close>

definition line_of :: "string \<Rightarrow> string \<Rightarrow> string \<Rightarrow> string option" where
  "line_of before after l =
     (if starts_with before l \<and> ends_with after l \<and> length before + length after \<le> length l
      then Some (take (length l - length before - length after) (drop (length before) l)) else None)"

definition credentials_of :: "string \<Rightarrow> (string \<times> string) option" where
  "credentials_of e = Option.bind (base64_decode e) (\<lambda>bs. split_once CHR '':'' (of_bytes bs))"

definition connect_decode :: "string \<Rightarrow> (string \<times> (string \<times> string) option) option" where
  "connect_decode req =
     Option.bind (split_once_str CRLF req) (\<lambda>(l1, r1).
     Option.bind (line_of ''CONNECT '' '' HTTP/1.1'' l1) (\<lambda>target.
     Option.bind (split_once_str CRLF r1) (\<lambda>(l2, r2).
     if l2 \<noteq> ''Host: '' @ target then None
     else if r2 = CRLF then Some (target, None)
     else Option.bind (split_once_str CRLF r2) (\<lambda>(l3, r3).
       if r3 \<noteq> CRLF then None
       else Option.bind (line_of ''Proxy-Authorization: Basic '' '''' l3) (\<lambda>e.
         map_option (\<lambda>up. (target, Some up)) (credentials_of e))))))"

lemma split_line: "CHR 0x0D \<notin> set l \<Longrightarrow> split_once_str CRLF (l @ CRLF @ r) = Some (l, r)"
proof (induction l)
  case Nil
  then show ?case by (simp add: CRLF_def starts_with_def)
next
  case (Cons c l)
  then show ?case by (auto simp: CRLF_def starts_with_def)
qed

lemma line_of_append: "line_of p q (p @ x @ q) = Some x"
  by (auto simp: line_of_def starts_with_iff ends_with_def)

lemma base64_decode_chars: "base64_decode e = Some bs \<Longrightarrow> c \<in> set e \<Longrightarrow> b64_value c \<noteq> None \<or> c = CHR ''=''"
  by (induction e arbitrary: bs rule: base64_decode.induct) (auto split: option.splits if_splits)

lemma base64_decode_no_cr: "base64_decode e = Some bs \<Longrightarrow> CHR 0x0D \<notin> set e"
proof
  assume d: "base64_decode e = Some bs" and "CHR 0x0D \<in> set e"
  from base64_decode_chars [OF this] have "b64_value CHR 0x0D \<noteq> None" by simp
  moreover have "b64_value CHR 0x0D = None" by code_simp
  ultimately show False by simp
qed

lemma connect_request_decodes:
  assumes b64: "\<And>bs. base64_decode (b64 bs) = Some bs" and target: "CHR 0x0D \<notin> set target"
    and user: "\<And>user pass. auth = Some (user, pass) \<Longrightarrow> CHR '':'' \<notin> set user"
  shows "connect_decode (connect_request b64 auth target) = Some (target, auth)"
proof -
  let ?l1 = "''CONNECT '' @ target @ '' HTTP/1.1''" and ?l2 = "''Host: '' @ target"
  have l: "CHR 0x0D \<notin> set ?l1" "CHR 0x0D \<notin> set ?l2" using target by simp_all
  show ?thesis
  proof (cases auth)
    case None
    have "connect_request b64 auth target = ?l1 @ CRLF @ ?l2 @ CRLF @ CRLF" by (simp add: connect_request_def None)
    then show ?thesis
      unfolding connect_decode_def by (simp only: split_line [OF l(1)] split_line [OF l(2)] Option.bind.simps prod.case
          line_of_append not_True_eq_False if_False if_True simp_thms None)
  next
    case (Some up)
    obtain user pass where up: "auth = Some (user, pass)" using Some by (cases up) auto
    let ?e = "b64 (as_bytes (user @ '':'' @ pass))"
    let ?l3 = "''Proxy-Authorization: Basic '' @ ?e @ ''''"
    have req: "connect_request b64 auth target = ?l1 @ CRLF @ ?l2 @ CRLF @ ?l3 @ CRLF @ CRLF"
      by (simp add: connect_request_def up)
    have l3: "CHR 0x0D \<notin> set ?l3" using base64_decode_no_cr [OF b64] by auto
    have r: "(?l3 @ CRLF @ CRLF = CRLF) = False" by simp
    have c: "credentials_of ?e = Some (user, pass)"
      unfolding credentials_of_def b64 Option.bind.simps of_bytes_as_bytes
      using split_once_append [of "CHR '':''" user pass] user [OF up] by simp
    show ?thesis
      unfolding connect_decode_def req by (simp only: split_line [OF l(1)] split_line [OF l(2)] split_line [OF l3]
          Option.bind.simps prod.case line_of_append not_True_eq_False if_False if_True simp_thms r c option.map up)
  qed
qed

text \<open>C16. The HTTP CONNECT handshake: once its bytes have been written, they decode, by a reader of the
  proxy's side, to a CONNECT for the target with the \<open>Host\<close> field repeating it and with exactly the
  caller's credentials (or none); and the handshake succeeds and leaves \<open>rest\<close> for the tunnelled
  protocol if and only if what the proxy sent is \<open>rest\<close> behind a head that ends with the first empty
  line, has at most 8193 bytes and carries 200 in its first line. The bytes written are that request and
  nothing else. The \<open>base64\<close> crate is assumed to write what a decoder of RFC 4648 reads back, the target
  to have no carriage return, and the user name no colon, which RFC 7617 forbids and the code does not
  check.\<close>

theorem connect_tunnel:
  assumes "byte_stream io rx tx read_byte" and "\<forall>bs. base64_decode (b64 bs) = Some bs"
    and "CHR 0x0D \<notin> set target" and "\<forall>user pass. auth = Some (user, pass) \<longrightarrow> CHR '':'' \<notin> set user"
    and "write_all io (as_bytes (connect_request b64 auth target)) s = (Inr (), s1)"
  shows "\<exists>req. connect_decode (of_bytes req) = Some (target, auth) \<and>
    (\<forall>rest. (\<exists>s'. connect_handshake io read_byte b64 auth target s = (Inr (), s') \<and> rx s' = rest \<and> tx s' = tx s @ req)
       \<longleftrightarrow> (\<exists>h. rx s = h @ rest \<and> granting_head h))"
proof (intro exI conjI allI)
  show "connect_decode (of_bytes (as_bytes (connect_request b64 auth target))) = Some (target, auth)"
    using connect_request_decodes [of b64 target auth] assms(2-4) by simp
qed (rule byte_stream.connect_handshake_iff [OF assms(1,5)])

definition demo_reply :: bytes where
  "demo_reply = as_bytes (''HTTP/1.1 200 OK'' @ CRLF @ CRLF)"

definition demo_proxy_state :: "mem" where
  "demo_proxy_state = \<lparr>mem_rx = demo_reply @ [22, 3, 1], mem_tx = [], mem_room = 200\<rparr>"

lemma demo_granting: "granting_head demo_reply"
proof -
  have "list_all (\<lambda>k. \<not> ends_with head_end (take k demo_reply)) [0..<length demo_reply]"
    by code_simp
  then have "\<forall>k < length demo_reply. \<not> ends_with head_end (take k demo_reply)"
    by (simp add: list_all_iff)
  moreover have "ends_with head_end demo_reply" "length demo_reply \<le> 8193" "occurs ''200'' (first_line demo_reply)"
    by code_simp+
  ultimately show ?thesis by (simp add: granting_head_def response_head_def)
qed

lemma connect_tunnel_witness:
  "\<exists>s' req. connect_handshake mem_io mem_read_byte base64_encode (Some (''u'', ''p'')) ''h:443'' demo_proxy_state = (Inr (), s') \<and>
     mem_rx s' = [22, 3, 1] \<and> mem_tx s' = req \<and> connect_decode (of_bytes req) = Some (''h:443'', Some (''u'', ''p''))"
proof -
  let ?req = "as_bytes (connect_request base64_encode (Some (''u'', ''p'')) ''h:443'')"
  have "length ?req \<le> 200" by code_simp
  then obtain s1 where w: "write_all mem_io ?req demo_proxy_state = (Inr (), s1)"
    by (simp add: mem_io_def mem_write_def demo_proxy_state_def Let_def)
  have h: "\<exists>h. mem_rx demo_proxy_state = h @ [22, 3, 1] \<and> granting_head h"
    using demo_granting by (auto simp: demo_proxy_state_def)
  have b: "\<forall>bs. base64_decode (base64_encode bs) = Some bs" by (simp add: base64_decode_encode)
  have t: "CHR 0x0D \<notin> set ''h:443''" "\<forall>user pass. Some (''u'', ''p'') = Some (user, pass) \<longrightarrow> CHR '':'' \<notin> set user" by simp_all
  obtain req where r: "connect_decode (of_bytes req) = Some (''h:443'', Some (''u'', ''p''))"
    "\<forall>rest. (\<exists>s'. connect_handshake mem_io mem_read_byte base64_encode (Some (''u'', ''p'')) ''h:443'' demo_proxy_state = (Inr (), s')
         \<and> mem_rx s' = rest \<and> mem_tx s' = mem_tx demo_proxy_state @ req) \<longleftrightarrow> (\<exists>h. mem_rx demo_proxy_state = h @ rest \<and> granting_head h)"
    using connect_tunnel [OF mem_bytes.byte_stream_axioms b t w] by blast
  from spec [OF r(2), of "[22, 3, 1]"] h r(1) show ?thesis by (auto simp: demo_proxy_state_def)
qed

text \<open>C15. A SOCKS5 handshake that succeeds has told the proxy the target and consumed its answers
  exactly: for a host and credentials of at most 255 bytes the request decodes, by the reader of RFC 1928,
  to the host (as the address it spells, otherwise as a name) and the port, the user and password message
  is sent if and only if the proxy selected that method and decodes to the credentials, and what the proxy
  sent is its three answers followed by what is left for the tunnelled protocol.\<close>

theorem socks5_tunnel:
  assumes "duplex io rx tx" and "socks5_handshake io auth host port s = (Inr (), s')"
    and "length host \<le> 255"
    and "\<forall>user pass. auth = Some (user, pass) \<longrightarrow> length user \<le> 255 \<and> length pass \<le> 255"
  shows "\<exists>selected sub sub_reply req v r a b.
     tx s' = tx s @ socks_greeting auth @ sub @ req \<and> socks_decode req = Some (socks_target_of host, port) \<and>
     rx s = [5, selected] @ sub_reply @ [v, 0, r, a] @ b @ rx s' \<and> reply_form a b \<and>
     negotiated auth selected sub sub_reply \<and> (if selected = 2 then userpass_decode sub = auth else sub = [])"
proof -
  from duplex.socks5_handshake_Inr [OF assms(1,2)] obtain selected sub sub_reply v r a b where
    h: "negotiated auth selected sub sub_reply" "tx s' = tx s @ socks_greeting auth @ sub @ socks_request host port"
      "rx s = [5, selected] @ sub_reply @ [v, 0, r, a] @ b @ rx s'" "reply_form a b" by blast
  have "if selected = 2 then userpass_decode sub = auth else sub = []"
    using h(1) assms(4) userpass_roundtrip by (auto simp: negotiated_def split: if_splits)
  with h socks_request_decodes [OF assms(3), of port] show ?thesis by blast
qed

definition demo_socks_state :: "mem" where
  "demo_socks_state = \<lparr>mem_rx = [5, 2, 1, 0, 5, 0, 0, 1, 10, 0, 0, 1, 31, 144, 71, 69, 84], mem_tx = [], mem_room = 200\<rparr>"

lemma socks5_tunnel_witness:
  "\<exists>s'. socks5_handshake mem_io (Some (''u'', ''p'')) ''h'' 443 demo_socks_state = (Inr (), s') \<and>
     mem_rx s' = [71, 69, 84] \<and>
     (\<exists>sub req. mem_tx s' = [5, 2, 0, 2] @ sub @ req \<and> socks_decode req = Some (TargetName ''h'', 443))"
proof -
  let ?run = "socks5_handshake mem_io (Some (''u'', ''p'')) ''h'' 443 demo_socks_state"
  have name: "parse_ip ''h'' = None"
    by (simp add: parse_ip_def read_ipv4_def read_ipv6_def numeral_eq_Suc read_number_def digit_of_def read_char_def)
  then have addr: "socks_request ''h'' 443 = [5, 1, 0, 3, 1, 104, 1, 187]"
    by (simp add: socks_request_def socks_address_def as_bytes_def)
  have "fst ?run = Inr ()" "mem_rx (snd ?run) = [71, 69, 84]"
    by (simp_all add: socks5_handshake_def sbind_def map_err_def mem_io_def mem_read_def mem_write_def addr
        demo_socks_state_def socks_greeting_def socks_userpass_def socks_authenticate_def socks_reply_def
        drain_bound_address_def as_bytes_def sreturn_def Let_def)
  then obtain s' where h: "?run = (Inr (), s')" and r: "mem_rx s' = [71, 69, 84]"
    by (metis prod.collapse)
  from name have "socks_target_of ''h'' = TargetName ''h''" by (simp add: socks_target_of_def)
  moreover have "length ''h'' \<le> (255 :: nat)"
    "\<forall>user pass. Some (''u'', ''p'') = Some (user, pass) \<longrightarrow> length user \<le> 255 \<and> length pass \<le> (255 :: nat)"
    by simp_all
  note socks5_tunnel [OF mem.duplex_axioms h this]
  then obtain sub req where "mem_tx s' = mem_tx demo_socks_state @ socks_greeting (Some (''u'', ''p'')) @ sub @ req"
    "socks_decode req = Some (socks_target_of ''h'', 443)" by blast
  ultimately show ?thesis
    using h r by (intro exI [of _ s'] conjI exI [of _ sub] exI [of _ req]) (simp_all add: demo_socks_state_def socks_greeting_def)
qed

end
