(* ===== verification/ClientBuild.thy ===== *)
theory ClientBuild
  imports Client Proxy
begin

section \<open>Building clients and their connectors (oxihttp-client client_builder.rs, tls.rs, connector.rs, request_config.rs, resolver.rs)\<close>

text \<open>
  The builder with its setters, the eight build methods, the choice and the configuration of the TLS
  connector, and the connector that upgrades to TLS. The setters of \<open>hyper_util\<close> that a build method calls
  are recorded in order (\<open>pool_call\<close>, \<open>tcp_call\<close>); \<open>rustls\<close> and \<open>oxitls\<close> are the record
  \<open>client_tls_lib\<close> over the plan of their builder. A custom verifier has type \<open>'v\<close>, a DNS resolver type
  \<open>'r\<close>, a finished TLS configuration type \<open>'t\<close>.
\<close>

subsection \<open>Settings\<close>

record client_http2_settings =
  h2_initial_stream_window_size :: "u32 option"
  h2_initial_connection_window_size :: "u32 option"
  h2_adaptive_window :: "bool option"
  h2_keep_alive_interval :: "nat option"
  h2_keep_alive_timeout :: "nat option"
  h2_max_frame_size :: "u32 option"
  h2_max_concurrent_reset_streams :: "nat option"
  h2_max_send_buf_size :: "nat option"

datatype pool_call =
    PoolMaxIdlePerHost nat
  | PoolIdleTimeout nat
  | Http2InitialStreamWindowSize u32
  | Http2InitialConnectionWindowSize u32
  | Http2AdaptiveWindow bool
  | Http2KeepAliveInterval nat
  | Http2KeepAliveTimeout nat
  | Http2MaxFrameSize u32
  | Http2MaxConcurrentResetStreams nat
  | Http2MaxSendBufSize nat

text \<open>\<open>if let Some(x) = opt { builder.call(x) }\<close>\<close>

fun if_some :: "('a \<Rightarrow> 'c) \<Rightarrow> 'a option \<Rightarrow> 'c list" where
  "if_some f None = []"
| "if_some f (Some x) = [f x]"

definition apply_client_http2 :: "client_http2_settings \<Rightarrow> pool_call list" where
  "apply_client_http2 settings =
     if_some Http2InitialStreamWindowSize (h2_initial_stream_window_size settings)
     @ if_some Http2InitialConnectionWindowSize (h2_initial_connection_window_size settings)
     @ if_some Http2AdaptiveWindow (h2_adaptive_window settings)
     @ if_some Http2KeepAliveInterval (h2_keep_alive_interval settings)
     @ if_some Http2KeepAliveTimeout (h2_keep_alive_timeout settings)
     @ if_some Http2MaxFrameSize (h2_max_frame_size settings)
     @ if_some Http2MaxConcurrentResetStreams (h2_max_concurrent_reset_streams settings)
     @ if_some Http2MaxSendBufSize (h2_max_send_buf_size settings)"

record ('w, 'r, 'v) client_builder =
  cb_pool_max_idle_per_host :: "nat option"
  cb_pool_idle_timeout :: "nat option"
  cb_connect_timeout :: "nat option"
  cb_read_timeout :: "nat option"
  cb_redirect_policy :: redirect_policy
  cb_retry_policy :: "retry_policy option"
  cb_default_headers :: header_map
  cb_user_agent :: "string option"
  cb_decompression :: bool
  cb_max_response_body :: nat
  cb_middleware :: "'w middleware list"
  cb_proxy :: "proxy_kind option"
  cb_cookie_jar :: "cookie_jar option"
  cb_http2_settings :: "client_http2_settings option"
  cb_tcp_nodelay :: "bool option"
  cb_tcp_keepalive :: "nat option"
  cb_resolver :: "'r option"
  cb_trusted_certs_der :: "bytes list"
  cb_alpn :: "string list"
  cb_accept_invalid_certs :: bool
  cb_use_webpki_roots :: bool
  cb_key_log_path :: "string option"
  cb_early_data :: bool
  cb_custom_cert_verifier :: "'v option"

definition client_builder_new :: "('w, 'r, 'v) client_builder" where
  "client_builder_new =
     \<lparr>cb_pool_max_idle_per_host = None, cb_pool_idle_timeout = None, cb_connect_timeout = None,
      cb_read_timeout = None, cb_redirect_policy = default_redirect_policy, cb_retry_policy = None,
      cb_default_headers = [], cb_user_agent = None, cb_decompression = False,
      cb_max_response_body = DEFAULT_MAX_RESPONSE_BODY, cb_middleware = [], cb_proxy = None,
      cb_cookie_jar = None, cb_http2_settings = None, cb_tcp_nodelay = None, cb_tcp_keepalive = None,
      cb_resolver = None, cb_trusted_certs_der = [], cb_alpn = [], cb_accept_invalid_certs = False,
      cb_use_webpki_roots = False, cb_key_log_path = None, cb_early_data = False,
      cb_custom_cert_verifier = None\<rparr>"

text \<open>The setters, one constructor each, and what each does to the builder.\<close>

datatype ('w, 'r, 'v) builder_op =
    PoolMaxIdle nat
  | PoolIdle nat
  | ConnectTimeout nat
  | ReadTimeout nat
  | RedirectPolicy redirect_policy
  | RetryPolicy retry_policy
  | DefaultHeaders header_map
  | UserAgent string
  | WithDecompression bool
  | WithMaxResponseBody nat
  | WithMiddleware "'w middleware"
  | WithLayer "'w middleware"
  | WithCookieJar cookie_jar
  | WithNewCookieJar
  | WithHttp2Settings client_http2_settings
  | WithTcpNodelay bool
  | WithTcpKeepalive nat
  | WithResolver 'r
  | WithHttpProxy uri
  | WithSocks5Proxy uri
  | WithTls
  | WithWebpkiRoots
  | WithTrustedCertDer bytes
  | WithAlpn "string list"
  | WithDangerAcceptInvalidCerts
  | WithKeyLogFile string
  | WithEarlyData
  | DangerAcceptInvalidCerts bool
  | WithCustomCertVerifier 'v

fun set_pool :: "('w, 'r, 'v) builder_op \<Rightarrow> ('w, 'r, 'v) client_builder \<Rightarrow> ('w, 'r, 'v) client_builder" where
  "set_pool (PoolMaxIdle n) b = b\<lparr>cb_pool_max_idle_per_host := Some n\<rparr>"
| "set_pool (PoolIdle d) b = b\<lparr>cb_pool_idle_timeout := Some d\<rparr>"
| "set_pool (ConnectTimeout d) b = b\<lparr>cb_connect_timeout := Some d\<rparr>"
| "set_pool (ReadTimeout d) b = b\<lparr>cb_read_timeout := Some d\<rparr>"
| "set_pool (RedirectPolicy p) b = b\<lparr>cb_redirect_policy := p\<rparr>"
| "set_pool (RetryPolicy p) b = b\<lparr>cb_retry_policy := Some p\<rparr>"
| "set_pool (DefaultHeaders h) b = b\<lparr>cb_default_headers := h\<rparr>"
| "set_pool (UserAgent a) b = b\<lparr>cb_user_agent := Some a\<rparr>"
| "set_pool (WithDecompression e) b = b\<lparr>cb_decompression := e\<rparr>"
| "set_pool (WithMaxResponseBody n) b = b\<lparr>cb_max_response_body := n\<rparr>"
| "set_pool _ b = b"

fun set_stack :: "('w, 'r, 'v) builder_op \<Rightarrow> ('w, 'r, 'v) client_builder \<Rightarrow> ('w, 'r, 'v) client_builder" where
  "set_stack (WithMiddleware m) b = b\<lparr>cb_middleware := cb_middleware b @ [m]\<rparr>"
| "set_stack (WithLayer m) b = b\<lparr>cb_middleware := cb_middleware b @ [m]\<rparr>"
| "set_stack (WithCookieJar j) b = b\<lparr>cb_cookie_jar := Some j\<rparr>"
| "set_stack WithNewCookieJar b = b\<lparr>cb_cookie_jar := Some []\<rparr>"
| "set_stack (WithHttp2Settings s) b = b\<lparr>cb_http2_settings := Some s\<rparr>"
| "set_stack (WithTcpNodelay f) b = b\<lparr>cb_tcp_nodelay := Some f\<rparr>"
| "set_stack (WithTcpKeepalive d) b = b\<lparr>cb_tcp_keepalive := Some d\<rparr>"
| "set_stack (WithResolver r) b = b\<lparr>cb_resolver := Some r\<rparr>"
| "set_stack (WithHttpProxy u) b = b\<lparr>cb_proxy := Some (HttpConnect u)\<rparr>"
| "set_stack (WithSocks5Proxy u) b = b\<lparr>cb_proxy := Some (Socks5 u)\<rparr>"
| "set_stack _ b = b"

fun set_tls :: "('w, 'r, 'v) builder_op \<Rightarrow> ('w, 'r, 'v) client_builder \<Rightarrow> ('w, 'r, 'v) client_builder" where
  "set_tls WithTls b = b\<lparr>cb_use_webpki_roots := True\<rparr>"
| "set_tls WithWebpkiRoots b = b\<lparr>cb_use_webpki_roots := True\<rparr>"
| "set_tls (WithTrustedCertDer d) b = b\<lparr>cb_trusted_certs_der := cb_trusted_certs_der b @ [d]\<rparr>"
| "set_tls (WithAlpn ps) b = b\<lparr>cb_alpn := ps\<rparr>"
| "set_tls WithDangerAcceptInvalidCerts b = b\<lparr>cb_accept_invalid_certs := True\<rparr>"
| "set_tls (WithKeyLogFile p) b = b\<lparr>cb_key_log_path := Some p\<rparr>"
| "set_tls WithEarlyData b = b\<lparr>cb_early_data := True\<rparr>"
| "set_tls (DangerAcceptInvalidCerts a) b = b\<lparr>cb_accept_invalid_certs := a\<rparr>"
| "set_tls (WithCustomCertVerifier v) b = b\<lparr>cb_custom_cert_verifier := Some v\<rparr>"
| "set_tls _ b = b"

text \<open>Each setter is an equation of exactly one of the three functions; the others leave the builder alone.\<close>

definition apply_op :: "('w, 'r, 'v) builder_op \<Rightarrow> ('w, 'r, 'v) client_builder \<Rightarrow> ('w, 'r, 'v) client_builder" where
  "apply_op p b = set_tls p (set_stack p (set_pool p b))"

definition apply_ops :: "('w, 'r, 'v) builder_op list \<Rightarrow> ('w, 'r, 'v) client_builder" where
  "apply_ops ops = fold apply_op ops client_builder_new"

subsection \<open>TLS configurations\<close>

record client_plan =
  cp_tls12 :: bool
  cp_webpki :: bool
  cp_certs :: "bytes list"
  cp_alpn :: "string list option"
  cp_accept_invalid :: bool
  cp_key_log :: "string option"
  cp_early_data :: bool

text \<open>
  What is used of oxitls: the check of a certificate that is added to the plan, and the final build; of
  rustls: the check of the protocol versions and the configuration around a custom verifier.
\<close>

record ('v, 't) client_tls_lib =
  trust_error :: "client_plan \<Rightarrow> bytes \<Rightarrow> string option"
  plan_build :: "client_plan \<Rightarrow> string + 't"
  versions_error :: "string option"
  verifier_config :: "'v \<Rightarrow> bytes list \<Rightarrow> bool \<Rightarrow> 't"

definition new_plan :: client_plan where
  "new_plan = \<lparr>cp_tls12 = True, cp_webpki = False, cp_certs = [], cp_alpn = None,
     cp_accept_invalid = False, cp_key_log = None, cp_early_data = False\<rparr>"

fun trust_certs :: "('v, 't) client_tls_lib \<Rightarrow> bytes list \<Rightarrow> client_plan \<Rightarrow> client_plan oxi_result" where
  "trust_certs tls [] plan = Inr plan"
| "trust_certs tls (der # ders) plan =
     (case trust_error tls plan der of
        Some e \<Rightarrow> Inl (TlsErr e)
      | None \<Rightarrow> trust_certs tls ders (plan\<lparr>cp_certs := cp_certs plan @ [der]\<rparr>))"

definition build_tls_connector ::
  "('v, 't) client_tls_lib \<Rightarrow> bytes list \<Rightarrow> string list \<Rightarrow> bool \<Rightarrow> bool \<Rightarrow> string option \<Rightarrow> bool \<Rightarrow> 't oxi_result" where
  "build_tls_connector tls trusted_certs_der alpn accept_invalid webpki_roots key_log_path early_data =
     (let plan = (if webpki_roots then new_plan\<lparr>cp_webpki := True\<rparr> else new_plan) in
      rbind (trust_certs tls trusted_certs_der plan) (\<lambda>plan.
      let plan = (if alpn \<noteq> [] then plan\<lparr>cp_alpn := Some alpn\<rparr> else plan);
          plan = (if accept_invalid then plan\<lparr>cp_accept_invalid := True\<rparr> else plan);
          plan = (case key_log_path of Some path \<Rightarrow> plan\<lparr>cp_key_log := Some path\<rparr> | None \<Rightarrow> plan);
          plan = (if early_data then plan\<lparr>cp_early_data := True\<rparr> else plan)
      in map_sum TlsErr id (plan_build tls plan)))"

definition build_tls_connector_with_verifier ::
  "('v, 't) client_tls_lib \<Rightarrow> 'v \<Rightarrow> string list \<Rightarrow> bool \<Rightarrow> 't oxi_result" where
  "build_tls_connector_with_verifier tls v alpn early_data =
     (case versions_error tls of
        Some e \<Rightarrow> Inl (TlsErr e)
      | None \<Rightarrow> Inr (verifier_config tls v (map as_bytes alpn) early_data))"

definition build_tls_connector_inner ::
  "('v, 't) client_tls_lib \<Rightarrow> ('w, 'r, 'v) client_builder \<Rightarrow> 't oxi_result" where
  "build_tls_connector_inner tls b =
     (case cb_custom_cert_verifier b of
        Some v \<Rightarrow> build_tls_connector_with_verifier tls v (cb_alpn b) (cb_early_data b)
      | None \<Rightarrow> build_tls_connector tls (cb_trusted_certs_der b) (cb_alpn b) (cb_accept_invalid_certs b)
                  (cb_use_webpki_roots b) (cb_key_log_path b) (cb_early_data b))"

subsection \<open>Connectors\<close>

datatype tcp_call = EnforceHttp bool | SetConnectTimeout nat | SetNodelay bool | SetKeepalive nat

text \<open>\<open>Direct r calls\<close> is an \<open>HttpConnector\<close> with the resolver \<open>r\<close> (the system's for \<open>None\<close>).\<close>

datatype 'r base_connector =
    Direct "'r option" "tcp_call list"
  | ViaHttpProxy proxy_connector
  | ViaSocks5 proxy_connector

record ('r, 't) https_connector =
  oc_http :: "'r base_connector"
  oc_tls :: 't
  oc_force_https :: bool

definition https_connector_new :: "'r base_connector \<Rightarrow> 't \<Rightarrow> ('r, 't) https_connector" where
  "https_connector_new http tls = \<lparr>oc_http = http, oc_tls = tls, oc_force_https = False\<rparr>"

definition set_force_https :: "bool \<Rightarrow> ('r, 't) https_connector \<Rightarrow> ('r, 't) https_connector" where
  "set_force_https f c = c\<lparr>oc_force_https := f\<rparr>"

datatype ('r, 't) connector = Plain "'r base_connector" | MaybeTls "('r, 't) https_connector"

subsection \<open>Clients\<close>

record 'v tls_rebuild_config =
  rb_trusted_certs_der :: "bytes list"
  rb_alpn :: "string list"
  rb_accept_invalid_certs :: bool
  rb_use_webpki_roots :: bool
  rb_key_log_path :: "string option"
  rb_early_data :: bool
  rb_connect_timeout :: "nat option"
  rb_tcp_nodelay :: "bool option"
  rb_tcp_keepalive :: "nat option"
  rb_http2_settings :: "client_http2_settings option"
  rb_pool_max_idle_per_host :: "nat option"
  rb_pool_idle_timeout :: "nat option"
  rb_custom_cert_verifier :: "'v option"

text \<open>The pool of \<open>hyper_util\<close> is its calls and its connector; a client adds its own settings.\<close>

record ('w, 's, 'r, 'v, 't) built_client =
  bc_client :: "('w, 's) client"
  bc_inner :: "pool_call list \<times> ('r, 't) connector"
  bc_cookie_jar :: "cookie_jar option"
  bc_tls_rebuild :: "'v tls_rebuild_config option"

definition pool_calls :: "nat option \<Rightarrow> nat option \<Rightarrow> client_http2_settings option \<Rightarrow> pool_call list" where
  "pool_calls max_idle idle_timeout h2 =
     if_some PoolMaxIdlePerHost max_idle
     @ if_some PoolIdleTimeout idle_timeout
     @ (case h2 of Some settings \<Rightarrow> apply_client_http2 settings | None \<Rightarrow> [])"

definition tcp_calls :: "nat option \<Rightarrow> bool option \<Rightarrow> nat option \<Rightarrow> tcp_call list" where
  "tcp_calls timeout nodelay keepalive =
     [EnforceHttp False] @ if_some SetConnectTimeout timeout @ if_some SetNodelay nodelay
     @ if_some SetKeepalive keepalive"

definition with_user_agent :: "http_lib \<Rightarrow> string option \<Rightarrow> header_map \<Rightarrow> header_map" where
  "with_user_agent lib agent hs =
     (case agent of
        None \<Rightarrow> hs
      | Some a \<Rightarrow> if hv_error lib a = None then hm_insert ''user-agent'' a hs else hs)"

definition finish_client ::
  "http_lib \<Rightarrow> ('w, 'r, 'v) client_builder \<Rightarrow> ('r, 't) connector \<Rightarrow> 'v tls_rebuild_config option
   \<Rightarrow> ('w, 's, 'r, 'v, 't) built_client" where
  "finish_client lib b connector rebuild =
     \<lparr>bc_client =
        \<lparr>cl_redirect = cb_redirect_policy b, cl_retry = cb_retry_policy b,
         cl_default_headers = with_user_agent lib (cb_user_agent b) (cb_default_headers b),
         cl_connect_timeout = cb_connect_timeout b, cl_read_timeout = cb_read_timeout b,
         cl_decompression = cb_decompression b, cl_max_response_body = cb_max_response_body b,
         cl_middleware = cb_middleware b\<rparr>,
      bc_inner = (pool_calls (cb_pool_max_idle_per_host b) (cb_pool_idle_timeout b) (cb_http2_settings b), connector),
      bc_cookie_jar = cb_cookie_jar b, bc_tls_rebuild = rebuild\<rparr>"

definition builder_tcp :: "('w, 'r, 'v) client_builder \<Rightarrow> tcp_call list" where
  "builder_tcp b = tcp_calls (cb_connect_timeout b) (cb_tcp_nodelay b) (cb_tcp_keepalive b)"

definition build_plain :: "http_lib \<Rightarrow> ('w, 'r, 'v) client_builder \<Rightarrow> ('w, 's, 'r, 'v, 't) built_client oxi_result" where
  "build_plain lib b = Inr (finish_client lib b (Plain (Direct None (builder_tcp b))) None)"

definition rebuild_config :: "('w, 'r, 'v) client_builder \<Rightarrow> 'v tls_rebuild_config" where
  "rebuild_config b =
     \<lparr>rb_trusted_certs_der = cb_trusted_certs_der b, rb_alpn = cb_alpn b,
      rb_accept_invalid_certs = cb_accept_invalid_certs b, rb_use_webpki_roots = cb_use_webpki_roots b,
      rb_key_log_path = cb_key_log_path b, rb_early_data = cb_early_data b,
      rb_connect_timeout = cb_connect_timeout b, rb_tcp_nodelay = cb_tcp_nodelay b,
      rb_tcp_keepalive = cb_tcp_keepalive b, rb_http2_settings = cb_http2_settings b,
      rb_pool_max_idle_per_host = cb_pool_max_idle_per_host b,
      rb_pool_idle_timeout = cb_pool_idle_timeout b, rb_custom_cert_verifier = cb_custom_cert_verifier b\<rparr>"

definition build_https ::
  "http_lib \<Rightarrow> ('v, 't) client_tls_lib \<Rightarrow> ('w, 'r, 'v) client_builder \<Rightarrow> ('w, 's, 'r, 'v, 't) built_client oxi_result" where
  "build_https lib tls b =
     rbind (build_tls_connector_inner tls b) (\<lambda>t.
     Inr (finish_client lib b (MaybeTls (https_connector_new (Direct None (builder_tcp b)) t)) (Some (rebuild_config b))))"

text \<open>\<open>resolver.ok_or_else(..)\<close>\<close>

definition need_resolver :: "string \<Rightarrow> ('w, 'r, 'v) client_builder \<Rightarrow> 'r oxi_result" where
  "need_resolver who b =
     (case cb_resolver b of
        Some r \<Rightarrow> Inr r
      | None \<Rightarrow> Inl (DnsErr (''with_resolver must be called before '' @ who)))"

definition build_with_resolver ::
  "http_lib \<Rightarrow> ('w, 'r, 'v) client_builder \<Rightarrow> ('w, 's, 'r, 'v, 't) built_client oxi_result" where
  "build_with_resolver lib b =
     rbind (need_resolver ''build_with_resolver'' b) (\<lambda>r.
     Inr (finish_client lib b (Plain (Direct (Some r) (builder_tcp b))) None))"

definition build_https_with_resolver ::
  "http_lib \<Rightarrow> ('v, 't) client_tls_lib \<Rightarrow> ('w, 'r, 'v) client_builder \<Rightarrow> ('w, 's, 'r, 'v, 't) built_client oxi_result" where
  "build_https_with_resolver lib tls b =
     rbind (build_tls_connector_inner tls b) (\<lambda>t.
     rbind (need_resolver ''build_https_with_resolver'' b) (\<lambda>r.
     Inr (finish_client lib b (MaybeTls (https_connector_new (Direct (Some r) (builder_tcp b)) t)) None)))"

definition http_proxy_uri :: "string \<Rightarrow> ('w, 'r, 'v) client_builder \<Rightarrow> uri oxi_result" where
  "http_proxy_uri instead b =
     (case cb_proxy b of
        Some (HttpConnect u) \<Rightarrow> Inr u
      | Some (Socks5 _) \<Rightarrow> Inl (ConnectionPool (''SOCKS5 proxy configured; use '' @ instead @ '' instead''))
      | None \<Rightarrow> Inl (ConnectionPool ''no proxy configured; call with_http_proxy() first''))"

definition socks5_proxy_uri :: "string \<Rightarrow> ('w, 'r, 'v) client_builder \<Rightarrow> uri oxi_result" where
  "socks5_proxy_uri instead b =
     (case cb_proxy b of
        Some (Socks5 u) \<Rightarrow> Inr u
      | Some (HttpConnect _) \<Rightarrow> Inl (ConnectionPool (''HTTP CONNECT proxy configured; use '' @ instead @ '' instead''))
      | None \<Rightarrow> Inl (ConnectionPool ''no proxy configured; call with_socks5_proxy() first''))"

definition build_proxy :: "http_lib \<Rightarrow> ('w, 'r, 'v) client_builder \<Rightarrow> ('w, 's, 'r, 'v, 't) built_client oxi_result" where
  "build_proxy lib b =
     rbind (http_proxy_uri ''build_socks5_proxy()'' b) (\<lambda>u.
     Inr (finish_client lib b (Plain (ViaHttpProxy (proxy_connector_new u (cb_connect_timeout b)))) None))"

definition build_socks5_proxy :: "http_lib \<Rightarrow> ('w, 'r, 'v) client_builder \<Rightarrow> ('w, 's, 'r, 'v, 't) built_client oxi_result" where
  "build_socks5_proxy lib b =
     rbind (socks5_proxy_uri ''build_proxy()'' b) (\<lambda>u.
     Inr (finish_client lib b (Plain (ViaSocks5 (socks5_connector_new u (cb_connect_timeout b)))) None))"

definition build_proxy_https ::
  "http_lib \<Rightarrow> ('v, 't) client_tls_lib \<Rightarrow> ('w, 'r, 'v) client_builder \<Rightarrow> ('w, 's, 'r, 'v, 't) built_client oxi_result" where
  "build_proxy_https lib tls b =
     rbind (http_proxy_uri ''build_socks5_proxy_https()'' b) (\<lambda>u.
     rbind (build_tls_connector_inner tls b) (\<lambda>t.
     Inr (finish_client lib b
       (MaybeTls (https_connector_new (ViaHttpProxy (proxy_connector_new u (cb_connect_timeout b))) t)) None)))"

definition build_socks5_proxy_https ::
  "http_lib \<Rightarrow> ('v, 't) client_tls_lib \<Rightarrow> ('w, 'r, 'v) client_builder \<Rightarrow> ('w, 's, 'r, 'v, 't) built_client oxi_result" where
  "build_socks5_proxy_https lib tls b =
     rbind (socks5_proxy_uri ''build_proxy_https()'' b) (\<lambda>u.
     rbind (build_tls_connector_inner tls b) (\<lambda>t.
     Inr (finish_client lib b
       (MaybeTls (https_connector_new (ViaSocks5 (socks5_connector_new u (cb_connect_timeout b))) t)) None)))"

subsection \<open>Overriding the TLS settings of a client\<close>

record request_tls_config =
  rt_trusted_cert_ders :: "bytes list"
  rt_accept_invalid_certs :: bool

definition request_tls_config_new :: request_tls_config where
  "request_tls_config_new = \<lparr>rt_trusted_cert_ders = [], rt_accept_invalid_certs = False\<rparr>"

definition rt_with_trusted_cert :: "bytes \<Rightarrow> request_tls_config \<Rightarrow> request_tls_config" where
  "rt_with_trusted_cert der c = c\<lparr>rt_trusted_cert_ders := rt_trusted_cert_ders c @ [der]\<rparr>"

definition rt_with_accept_invalid_certs :: "request_tls_config \<Rightarrow> request_tls_config" where
  "rt_with_accept_invalid_certs c = c\<lparr>rt_accept_invalid_certs := True\<rparr>"

definition with_request_tls_config ::
  "('v, 't) client_tls_lib \<Rightarrow> ('w, 's, 'r, 'v, 't) built_client \<Rightarrow> request_tls_config
   \<Rightarrow> ('w, 's, 'r, 'v, 't) built_client oxi_result" where
  "with_request_tls_config tls c over =
     (case bc_tls_rebuild c of
        None \<Rightarrow> Inl (TlsErr ''client has no TLS rebuild config (was it built with build_https()?)'')
      | Some base \<Rightarrow>
          (let certs = (if rt_trusted_cert_ders over = [] then rb_trusted_certs_der base else rt_trusted_cert_ders over);
               accept_invalid = (rb_accept_invalid_certs base \<or> rt_accept_invalid_certs over)
           in rbind (case rb_custom_cert_verifier base of
                       Some v \<Rightarrow> build_tls_connector_with_verifier tls v (rb_alpn base) (rb_early_data base)
                     | None \<Rightarrow> build_tls_connector tls certs (rb_alpn base) accept_invalid
                                 (rb_use_webpki_roots base) (rb_key_log_path base) (rb_early_data base)) (\<lambda>t.
              Inr (c\<lparr>bc_inner :=
                       (pool_calls (rb_pool_max_idle_per_host base) (rb_pool_idle_timeout base) (rb_http2_settings base),
                        MaybeTls (https_connector_new
                          (Direct None (tcp_calls (rb_connect_timeout base) (rb_tcp_nodelay base) (rb_tcp_keepalive base))) t)),
                     bc_tls_rebuild :=
                       Some (base\<lparr>rb_trusted_certs_der := certs, rb_accept_invalid_certs := accept_invalid\<rparr>)\<rparr>))))"

subsection \<open>Certificate verifiers and resolvers\<close>

text \<open>The signature checks of \<open>rustls\<close> over the algorithms of a provider.\<close>

record ('cert, 'dss, 'alg, 'scheme) crypto_provider =
  cr_verify_tls12 :: "bytes \<Rightarrow> 'cert \<Rightarrow> 'dss \<Rightarrow> 'alg \<Rightarrow> string + unit"
  cr_verify_tls13 :: "bytes \<Rightarrow> 'cert \<Rightarrow> 'dss \<Rightarrow> 'alg \<Rightarrow> string + unit"
  cr_algorithms :: 'alg
  cr_schemes :: "'alg \<Rightarrow> 'scheme list"

record ('cert, 'dss, 'scheme) cert_verifier =
  cv_server_cert :: "'cert \<Rightarrow> 'cert list \<Rightarrow> string \<Rightarrow> bytes \<Rightarrow> nat \<Rightarrow> string + unit"
  cv_tls12_signature :: "bytes \<Rightarrow> 'cert \<Rightarrow> 'dss \<Rightarrow> string + unit"
  cv_tls13_signature :: "bytes \<Rightarrow> 'cert \<Rightarrow> 'dss \<Rightarrow> string + unit"
  cv_schemes :: "'scheme list"

definition dangerous_no_verification ::
  "('cert, 'dss, 'alg, 'scheme) crypto_provider \<Rightarrow> ('cert, 'dss, 'scheme) cert_verifier" where
  "dangerous_no_verification provider =
     \<lparr>cv_server_cert = (\<lambda>_ _ _ _ _. Inr ()),
      cv_tls12_signature = (\<lambda>m cert dss. cr_verify_tls12 provider m cert dss (cr_algorithms provider)),
      cv_tls13_signature = (\<lambda>m cert dss. cr_verify_tls13 provider m cert dss (cr_algorithms provider)),
      cv_schemes = cr_schemes provider (cr_algorithms provider)\<rparr>"

definition gai_resolve :: "(string \<Rightarrow> string + 'addr list) \<Rightarrow> string \<Rightarrow> 'addr list oxi_result" where
  "gai_resolve lookup_host host = map_sum IoErr id (lookup_host (host @ '':0''))"

definition box_resolver_call :: "(string \<Rightarrow> 'addr list oxi_result) \<Rightarrow> string \<Rightarrow> 'addr list oxi_result" where
  "box_resolver_call resolver host = resolver host"

subsection \<open>Streams that may be encrypted\<close>

datatype ('s, 'z) maybe_https = HttpStream 's | HttpsStream 'z

text \<open>The operations of \<open>hyper::rt\<close> on a stream; \<open>'c\<close> is its \<open>Connected\<close>.\<close>

record ('s, 'c) hyper_stream =
  hs_connected :: "'s \<Rightarrow> 'c"
  hs_poll_read :: "nat \<Rightarrow> 's \<Rightarrow> (string + bytes) poll \<times> 's"
  hs_poll_write :: "bytes \<Rightarrow> 's \<Rightarrow> (string + nat) poll \<times> 's"
  hs_poll_flush :: "'s \<Rightarrow> (string + unit) poll \<times> 's"
  hs_poll_shutdown :: "'s \<Rightarrow> (string + unit) poll \<times> 's"
  hs_is_write_vectored :: "'s \<Rightarrow> bool"
  hs_poll_write_vectored :: "bytes list \<Rightarrow> 's \<Rightarrow> (string + nat) poll \<times> 's"

fun on_either :: "('s \<Rightarrow> 'a \<times> 's) \<Rightarrow> ('z \<Rightarrow> 'a \<times> 'z) \<Rightarrow> ('s, 'z) maybe_https \<Rightarrow> 'a \<times> ('s, 'z) maybe_https" where
  "on_either f g (HttpStream s) = map_prod id HttpStream (f s)"
| "on_either f g (HttpsStream z) = map_prod id HttpsStream (g z)"

fun maybe_connected ::
  "('c \<Rightarrow> 'c) \<Rightarrow> ('z \<Rightarrow> 's) \<Rightarrow> ('z \<Rightarrow> bytes option) \<Rightarrow> ('s \<Rightarrow> 'c) \<Rightarrow> ('s, 'z) maybe_https \<Rightarrow> 'c" where
  "maybe_connected negotiated_h2 tcp alpn conn (HttpStream s) = conn s"
| "maybe_connected negotiated_h2 tcp alpn conn (HttpsStream z) =
     (if alpn z = Some (as_bytes ''h2'') then negotiated_h2 (conn (tcp z)) else conn (tcp z))"

definition maybe_https_stream ::
  "('c \<Rightarrow> 'c) \<Rightarrow> ('z \<Rightarrow> 's) \<Rightarrow> ('z \<Rightarrow> bytes option) \<Rightarrow> ('s, 'c) hyper_stream \<Rightarrow> ('z, 'c) hyper_stream
   \<Rightarrow> (('s, 'z) maybe_https, 'c) hyper_stream" where
  "maybe_https_stream negotiated_h2 tcp alpn plain tls =
     \<lparr>hs_connected = maybe_connected negotiated_h2 tcp alpn (hs_connected plain),
      hs_poll_read = (\<lambda>n. on_either (hs_poll_read plain n) (hs_poll_read tls n)),
      hs_poll_write = (\<lambda>buf. on_either (hs_poll_write plain buf) (hs_poll_write tls buf)),
      hs_poll_flush = on_either (hs_poll_flush plain) (hs_poll_flush tls),
      hs_poll_shutdown = on_either (hs_poll_shutdown plain) (hs_poll_shutdown tls),
      hs_is_write_vectored = (\<lambda>m. case m of HttpStream s \<Rightarrow> hs_is_write_vectored plain s
                                          | HttpsStream z \<Rightarrow> hs_is_write_vectored tls z),
      hs_poll_write_vectored = (\<lambda>bufs. on_either (hs_poll_write_vectored plain bufs) (hs_poll_write_vectored tls bufs))\<rparr>"

subsection \<open>Connecting\<close>

record ('n, 's, 't, 'z) tls_net =
  server_name :: "string \<Rightarrow> string + 'n"
  tls_connect :: "'t \<Rightarrow> 'n \<Rightarrow> 's \<Rightarrow> string + 'z"

definition https_call ::
  "('n, 's, 't, 'z) tls_net \<Rightarrow> (uri \<Rightarrow> string + 's) \<Rightarrow> ('r, 't) https_connector \<Rightarrow> uri
   \<Rightarrow> ('s, 'z) maybe_https oxi_result" where
  "https_call net http c u =
     (let scheme = (case uri_scheme u of Some s \<Rightarrow> s | None \<Rightarrow> ''http'') in
      if scheme = ''http'' then
        (if oc_force_https c then Inl (TlsErr ''force_https is set; refusing plain http:// URI'')
         else map_sum HyperErr HttpStream (http u))
      else if scheme = ''https'' then
        (let host = (case uri_host u of Some h \<Rightarrow> h | None \<Rightarrow> '''') in
         rbind (map_sum HyperErr id (http u)) (\<lambda>tcp.
         rbind (map_sum TlsErr id (server_name net host)) (\<lambda>n.
         map_sum TlsErr HttpsStream (tls_connect net (oc_tls c) n tcp))))
      else Inl (TlsErr (''unsupported URI scheme: '' @ scheme)))"

text \<open>The inner connectors: the one of \<open>hyper_util\<close> is a parameter, the proxies are those of \<open>Proxy\<close>.\<close>

record ('r, 's) dial_lib =
  dl_direct :: "'r option \<Rightarrow> tcp_call list \<Rightarrow> uri \<Rightarrow> string + 's"
  dl_dial :: "'s dialer"
  dl_io :: "'s io"
  dl_read_byte :: "'s \<Rightarrow> (string + u8 option) \<times> 's"
  dl_b64 :: "bytes \<Rightarrow> string"

fun base_call :: "('r, 's) dial_lib \<Rightarrow> 'r base_connector \<Rightarrow> uri \<Rightarrow> string + 's" where
  "base_call dl (Direct r calls) u = dl_direct dl r calls u"
| "base_call dl (ViaHttpProxy px) u =
     map_sum error_to_string id (proxy_call (dl_dial dl) (dl_io dl) (dl_read_byte dl) (dl_b64 dl) px u)"
| "base_call dl (ViaSocks5 px) u =
     map_sum error_to_string id (socks5_call (dl_dial dl) (dl_io dl) px u)"

definition https_connect ::
  "('n, 's, 't, 'z) tls_net \<Rightarrow> ('r, 's) dial_lib \<Rightarrow> ('r, 't) https_connector \<Rightarrow> uri \<Rightarrow> ('s, 'z) maybe_https oxi_result" where
  "https_connect net dl c u = https_call net (base_call dl (oc_http c)) c u"

subsection \<open>The TLS configuration as a function of the calls\<close>

definition plan_for :: "bytes list \<Rightarrow> string list \<Rightarrow> bool \<Rightarrow> bool \<Rightarrow> string option \<Rightarrow> bool \<Rightarrow> client_plan" where
  "plan_for certs alpn accept webpki key_log early =
     \<lparr>cp_tls12 = True, cp_webpki = webpki, cp_certs = certs, cp_alpn = (if alpn = [] then None else Some alpn),
      cp_accept_invalid = accept, cp_key_log = key_log, cp_early_data = early\<rparr>"

lemma trust_certs_Inr:
  "trust_certs tls ders plan = Inr p \<Longrightarrow> p = plan\<lparr>cp_certs := cp_certs plan @ ders\<rparr>"
proof (induction ders arbitrary: plan)
  case (Cons der ders)
  then have "trust_certs tls ders (plan\<lparr>cp_certs := cp_certs plan @ [der]\<rparr>) = Inr p"
    by (simp split: option.splits)
  from Cons.IH [OF this] show ?case by simp
qed simp

lemma build_tls_connector_Inr:
  assumes "build_tls_connector tls certs alpn accept webpki key_log early = Inr t"
  shows "plan_build tls (plan_for certs alpn accept webpki key_log early) = Inr t"
proof -
  have sum: "map_sum TlsErr id r = Inr t \<longleftrightarrow> r = Inr t" for r by (cases r) auto
  show ?thesis
    using assms
    by (cases webpki; cases accept; cases key_log; cases early; cases "alpn = []")
      (auto simp: build_tls_connector_def rbind_Inr plan_for_def new_plan_def sum Let_def dest!: trust_certs_Inr)
qed


definition trusted_calls :: "('w, 'r, 'v) builder_op list \<Rightarrow> bytes list" where
  "trusted_calls ops = concat (map (\<lambda>p. case p of WithTrustedCertDer d \<Rightarrow> [d] | _ \<Rightarrow> []) ops)"

definition asks_webpki :: "('w, 'r, 'v) builder_op list \<Rightarrow> bool" where
  "asks_webpki ops \<longleftrightarrow> list_ex (\<lambda>p. case p of WithTls \<Rightarrow> True | WithWebpkiRoots \<Rightarrow> True | _ \<Rightarrow> False) ops"

text \<open>A call that leaves the verification of certificates to the trust store.\<close>

fun safe_op :: "('w, 'r, 'v) builder_op \<Rightarrow> bool" where
  "safe_op WithDangerAcceptInvalidCerts \<longleftrightarrow> False"
| "safe_op (DangerAcceptInvalidCerts a) \<longleftrightarrow> \<not> a"
| "safe_op (WithCustomCertVerifier v) \<longleftrightarrow> False"
| "safe_op _ \<longleftrightarrow> True"

lemma apply_op_tls:
  "cb_trusted_certs_der (apply_op p b) = cb_trusted_certs_der b @ trusted_calls [p]"
  "cb_use_webpki_roots (apply_op p b) \<longleftrightarrow> cb_use_webpki_roots b \<or> asks_webpki [p]"
  "safe_op p \<Longrightarrow> cb_accept_invalid_certs (apply_op p b) \<Longrightarrow> cb_accept_invalid_certs b"
  "safe_op p \<Longrightarrow> cb_custom_cert_verifier (apply_op p b) = cb_custom_cert_verifier b"
  by (cases p; simp add: apply_op_def trusted_calls_def asks_webpki_def)+

lemma fold_apply_op_tls:
  "cb_trusted_certs_der (fold apply_op ops b) = cb_trusted_certs_der b @ trusted_calls ops"
  "cb_use_webpki_roots (fold apply_op ops b) \<longleftrightarrow> cb_use_webpki_roots b \<or> asks_webpki ops"
  "list_all safe_op ops \<Longrightarrow> cb_accept_invalid_certs (fold apply_op ops b) \<Longrightarrow> cb_accept_invalid_certs b"
  "list_all safe_op ops \<Longrightarrow> cb_custom_cert_verifier (fold apply_op ops b) = cb_custom_cert_verifier b"
proof (induction ops arbitrary: b)
  case (Cons p ops)
  { case 1 show ?case by (simp add: Cons.IH(1) apply_op_tls(1)) (simp add: trusted_calls_def) }
  { case 2 show ?case by (simp add: Cons.IH(2) apply_op_tls(2)) (simp add: asks_webpki_def) }
  { case 3 then show ?case by (auto dest: Cons.IH(3) apply_op_tls(3)) }
  { case 4 then show ?case by (simp add: Cons.IH(4) apply_op_tls(4)) }
qed (simp_all add: trusted_calls_def asks_webpki_def)

lemma apply_ops_safe:
  assumes "list_all safe_op ops"
  shows "cb_trusted_certs_der (apply_ops ops) = trusted_calls ops"
    "cb_use_webpki_roots (apply_ops ops) \<longleftrightarrow> asks_webpki ops"
    "\<not> cb_accept_invalid_certs (apply_ops ops)" "cb_custom_cert_verifier (apply_ops ops) = None"
  using fold_apply_op_tls(3,4) [OF assms, of client_builder_new]
  by (auto simp: apply_ops_def fold_apply_op_tls(1,2) client_builder_new_def)

subsection \<open>Overrides as settings of the builder\<close>

definition override_builder :: "request_tls_config \<Rightarrow> ('w, 'r, 'v) client_builder \<Rightarrow> ('w, 'r, 'v) client_builder" where
  "override_builder over b =
     b\<lparr>cb_trusted_certs_der :=
         (if rt_trusted_cert_ders over = [] then cb_trusted_certs_der b else rt_trusted_cert_ders over),
       cb_accept_invalid_certs := (cb_accept_invalid_certs b \<or> rt_accept_invalid_certs over)\<rparr>"

fun with_overrides ::
  "('v, 't) client_tls_lib \<Rightarrow> request_tls_config list \<Rightarrow> ('w, 's, 'r, 'v, 't) built_client
   \<Rightarrow> ('w, 's, 'r, 'v, 't) built_client oxi_result" where
  "with_overrides tls [] c = Inr c"
| "with_overrides tls (over # os) c = rbind (with_request_tls_config tls c over) (with_overrides tls os)"

definition effective_certs :: "request_tls_config list \<Rightarrow> bytes list \<Rightarrow> bytes list" where
  "effective_certs os certs =
     fold (\<lambda>over cs. if rt_trusted_cert_ders over = [] then cs else rt_trusted_cert_ders over) os certs"

lemma override_build:
  assumes "build_https lib tls b = Inr c"
  shows "with_request_tls_config tls c over = build_https lib tls (override_builder over b)"
proof -
  from assms obtain t where c: "c = finish_client lib b
      (MaybeTls (https_connector_new (Direct None (builder_tcp b)) t)) (Some (rebuild_config b))"
    by (auto simp: build_https_def rbind_Inr)
  show ?thesis
    by (cases "cb_custom_cert_verifier b"; cases "rt_trusted_cert_ders over = []")
      (simp_all add: c with_request_tls_config_def build_https_def finish_client_def rebuild_config_def
        build_tls_connector_inner_def override_builder_def builder_tcp_def Let_def)
qed

lemma overrides_build:
  "build_https lib tls b = Inr c \<Longrightarrow> with_overrides tls os c = Inr c' \<Longrightarrow>
   build_https lib tls (fold override_builder os b) = Inr c'"
  by (induction os arbitrary: b c) (auto simp: rbind_Inr override_build)

lemma fold_override:
  "cb_trusted_certs_der (fold override_builder os b) = effective_certs os (cb_trusted_certs_der b)"
  "cb_use_webpki_roots (fold override_builder os b) = cb_use_webpki_roots b"
  "cb_custom_cert_verifier (fold override_builder os b) = cb_custom_cert_verifier b"
  "list_all (\<lambda>over. \<not> rt_accept_invalid_certs over) os \<Longrightarrow>
     cb_accept_invalid_certs (fold override_builder os b) = cb_accept_invalid_certs b"
  by (induction os arbitrary: b) (simp_all add: override_builder_def effective_certs_def)

subsection \<open>The four builders of TLS clients\<close>

datatype https_kind = ForHttps | ForHttpsResolver | ForHttpProxy | ForSocks5

fun build_tls_client ::
  "http_lib \<Rightarrow> ('v, 't) client_tls_lib \<Rightarrow> https_kind \<Rightarrow> ('w, 'r, 'v) client_builder
   \<Rightarrow> ('w, 's, 'r, 'v, 't) built_client oxi_result" where
  "build_tls_client lib tls ForHttps b = build_https lib tls b"
| "build_tls_client lib tls ForHttpsResolver b = build_https_with_resolver lib tls b"
| "build_tls_client lib tls ForHttpProxy b = build_proxy_https lib tls b"
| "build_tls_client lib tls ForSocks5 b = build_socks5_proxy_https lib tls b"

lemma tls_client_connector:
  assumes "build_tls_client lib tls kind b = Inr c"
  shows "\<exists>oc. snd (bc_inner c) = MaybeTls oc \<and> build_tls_connector_inner tls b = Inr (oc_tls oc)"
  using assms
  by (cases kind)
    (auto simp: build_https_def build_https_with_resolver_def build_proxy_https_def build_socks5_proxy_https_def
      rbind_Inr finish_client_def https_connector_new_def)

lemma tls_client_rebuild:
  assumes "build_tls_client lib tls kind b = Inr c" and "kind \<noteq> ForHttps"
  shows "bc_tls_rebuild c = None"
  using assms
  by (cases kind)
    (auto simp: build_https_with_resolver_def build_proxy_https_def build_socks5_proxy_https_def
      rbind_Inr finish_client_def)

lemma overridden_connector:
  assumes built: "build_tls_client lib tls kind b = Inr c" and over: "with_overrides tls os c = Inr c'"
  shows "\<exists>oc. snd (bc_inner c') = MaybeTls oc \<and>
              build_tls_connector_inner tls (fold override_builder os b) = Inr (oc_tls oc)"
proof (cases "kind = ForHttps")
  case True
  with built over have "build_tls_client lib tls ForHttps (fold override_builder os b) = Inr c'"
    by (simp add: overrides_build)
  then show ?thesis by (rule tls_client_connector)
next
  case False
  have "os = []"
  proof (cases os)
    case (Cons over' os')
    with over tls_client_rebuild [OF built False] show ?thesis
      by (simp add: with_request_tls_config_def)
  qed
  with over tls_client_connector [OF built] show ?thesis by simp
qed

subsection \<open>The properties\<close>

text \<open>C13. A client verifies certificates unless it was told not to: whatever sequence of builder calls
  without the two danger switches and without a custom verifier, whichever of the four TLS build methods,
  and whatever overrides without the danger switch follow, the connector of the client was built by oxitls
  from a plan that does not accept invalid certificates, that trusts the added certificates (those of the
  last override that names any, otherwise those of the builder calls, in order), and that trusts the
  Mozilla roots if and only if a call asked for them.\<close>

theorem client_verifies:
  assumes "build_tls_client lib tls kind (apply_ops ops) = Inr c"
    and "with_overrides tls os c = Inr c'"
    and "list_all safe_op ops"
    and "list_all (\<lambda>over. \<not> rt_accept_invalid_certs over) os"
  shows "\<exists>oc plan. snd (bc_inner c') = MaybeTls oc \<and> plan_build tls plan = Inr (oc_tls oc) \<and>
     \<not> cp_accept_invalid plan \<and> cp_certs plan = effective_certs os (trusted_calls ops) \<and>
     (cp_webpki plan \<longleftrightarrow> asks_webpki ops)"
proof -
  let ?b = "fold override_builder os (apply_ops ops)"
  from overridden_connector [OF assms(1,2)] obtain oc where
    oc: "snd (bc_inner c') = MaybeTls oc" "build_tls_connector_inner tls ?b = Inr (oc_tls oc)" by blast
  note safe = apply_ops_safe [OF assms(3)]
  from oc(2) have "build_tls_connector tls (effective_certs os (trusted_calls ops)) (cb_alpn ?b) False
      (asks_webpki ops) (cb_key_log_path ?b) (cb_early_data ?b) = Inr (oc_tls oc)"
    by (simp add: build_tls_connector_inner_def fold_override safe fold_override(4) [OF assms(4)])
  from build_tls_connector_Inr [OF this] oc(1) show ?thesis
    by (intro exI conjI) (auto simp: plan_for_def)
qed

definition plan_lib :: "(unit, client_plan) client_tls_lib" where
  "plan_lib = \<lparr>trust_error = (\<lambda>_ der. if der = [] then Some ''empty certificate'' else None), plan_build = Inr,
     versions_error = None, verifier_config = (\<lambda>_ _ _. new_plan)\<rparr>"

definition demo_client :: "(unit, unit, unit, unit, client_plan) built_client" where
  "demo_client = (case build_https std_lib plan_lib (apply_ops [WithTls, WithTrustedCertDer [1]]) of
     Inr c \<Rightarrow> c | Inl _ \<Rightarrow> undefined)"

definition demo_over :: request_tls_config where
  "demo_over = rt_with_trusted_cert [2] request_tls_config_new"

lemma client_verifies_witness:
  "\<exists>c' oc plan. with_overrides plan_lib [demo_over] demo_client = Inr c' \<and> snd (bc_inner c') = MaybeTls oc \<and>
     plan_build plan_lib plan = Inr (oc_tls oc) \<and> \<not> cp_accept_invalid plan \<and> cp_certs plan = [[2]] \<and> cp_webpki plan"
proof -
  let ?ops = "[WithTls, WithTrustedCertDer [1]] :: (unit, unit, unit) builder_op list"
  have built: "build_tls_client std_lib plan_lib ForHttps (apply_ops ?ops) = Inr demo_client"
    by (simp add: demo_client_def build_https_def build_tls_connector_inner_def build_tls_connector_def
        apply_ops_def apply_op_def client_builder_new_def plan_lib_def Let_def)
  then have "build_https std_lib plan_lib (apply_ops ?ops) = Inr demo_client" by simp
  note over = override_build [OF this]
  obtain c' where "build_https std_lib plan_lib (override_builder demo_over (apply_ops ?ops)) = Inr c'"
    by (simp add: build_https_def build_tls_connector_inner_def build_tls_connector_def apply_ops_def
        apply_op_def client_builder_new_def plan_lib_def Let_def override_builder_def demo_over_def
        rt_with_trusted_cert_def request_tls_config_new_def)
  then have c': "with_overrides plan_lib [demo_over] demo_client = Inr c'"
    by (simp add: over)
  have "list_all safe_op ?ops" "list_all (\<lambda>over. \<not> rt_accept_invalid_certs over) [demo_over]"
    by (simp_all add: demo_over_def rt_with_trusted_cert_def request_tls_config_new_def)
  from client_verifies [OF built c' this] c' show ?thesis
    by (auto simp: effective_certs_def demo_over_def rt_with_trusted_cert_def request_tls_config_new_def asks_webpki_def)
qed

text \<open>C17. Overriding the TLS settings of a client is building it anew: deriving a client from one of
  build_https gives exactly the client (connector, pool, settings, jar and the record for further overrides),
  or the error, that build_https gives for the builder with the certificates replaced and the danger switch
  or-ed in; with a custom verifier the override therefore changes nothing that verifies.\<close>

theorem override_is_rebuild:
  "rbind (build_https lib tls b) (\<lambda>c. with_request_tls_config tls c over) =
   rbind (build_https lib tls b) (\<lambda>_. build_https lib tls (override_builder over b))"
  by (cases "build_https lib tls b") (simp_all add: override_build)

text \<open>The host of a successful \<open>uri_host_port\<close> is the one the certificate is checked against.\<close>

lemma uri_host_port_Inr: "uri_host_port u = Inr (host, p) \<Longrightarrow> uri_host u = Some host"
  by (auto simp: uri_host_port_def split: option.splits if_splits)

lemma map_sum_Inr: "map_sum f g r = Inr y \<longleftrightarrow> (\<exists>x. r = Inr x \<and> y = g x)"
  by (cases r) auto

lemma https_call_Inr:
  assumes "https_call net http c u = Inr st" and "uri_scheme u = Some ''https''"
  shows "\<exists>s n z. http u = Inr s \<and> server_name net (case uri_host u of Some h \<Rightarrow> h | None \<Rightarrow> '''') = Inr n \<and>
     tls_connect net (oc_tls c) n s = Inr z \<and> st = HttpsStream z"
  using assms by (auto simp: https_call_def rbind_Inr map_sum_Inr)

text \<open>C14. An https request through an HTTP proxy is tunnelled and authenticated end to end: when the
  connector of a client from build_proxy_https yields a stream for an https URI, the proxy of the builder
  was dialled under the connect timeout, the only bytes it was sent before TLS are the CONNECT request for
  the host and port of the URI, it granted the tunnel and not one byte behind its answer was consumed, and the
  stream is TLS over that tunnel, under the configuration the builder chose, with the host of the URI as the
  server name.\<close>

theorem proxied_https:
  assumes "byte_stream (dl_io dl) rx tx (dl_read_byte dl)"
    and "build_proxy_https lib tls b = Inr c" and "snd (bc_inner c) = MaybeTls oc"
    and "https_connect net dl oc u = Inr st" and "uri_scheme u = Some ''https''"
  shows "\<exists>pu ph pp host p s0 s1 n z.
     cb_proxy b = Some (HttpConnect pu) \<and> uri_host_port pu = Inr (ph, pp) \<and> uri_host_port u = Inr (host, p) \<and>
     dl_dial dl (cb_connect_timeout b) (host_port ph pp) = Dialed s0 \<and>
     tx s1 = tx s0 @ as_bytes (connect_request (dl_b64 dl) (extract_auth pu) (host_port host p)) \<and>
     (\<exists>h. rx s0 = h @ rx s1 \<and> granting_head h) \<and>
     uri_host u = Some host \<and> server_name net host = Inr n \<and> tls_connect net (oc_tls oc) n s1 = Inr z \<and>
     st = HttpsStream z \<and> build_tls_connector_inner tls b = Inr (oc_tls oc)"
proof -
  from assms(2,3) obtain pu where pu: "cb_proxy b = Some (HttpConnect pu)"
    and oc: "oc_http oc = ViaHttpProxy (proxy_connector_new pu (cb_connect_timeout b))"
    and t: "build_tls_connector_inner tls b = Inr (oc_tls oc)"
    by (auto simp: build_proxy_https_def rbind_Inr finish_client_def https_connector_new_def http_proxy_uri_def
        split: option.splits proxy_kind.splits)
  from https_call_Inr [OF assms(4) [unfolded https_connect_def] assms(5)] obtain s1 n z where
    s1: "base_call dl (oc_http oc) u = Inr s1" and st: "st = HttpsStream z"
    and n: "server_name net (case uri_host u of Some h \<Rightarrow> h | None \<Rightarrow> '''') = Inr n"
    and z: "tls_connect net (oc_tls oc) n s1 = Inr z" by blast
  from s1 oc have "proxy_call (dl_dial dl) (dl_io dl) (dl_read_byte dl) (dl_b64 dl)
      (proxy_connector_new pu (cb_connect_timeout b)) u = Inr s1"
    by (simp add: map_sum_Inr)
  from byte_stream.proxy_call_Inr [OF assms(1) this] obtain ph pp host p s0 where
    a: "uri_host_port pu = Inr (ph, pp)" "uri_host_port u = Inr (host, p)"
    and d: "dl_dial dl (cb_connect_timeout b) (host_port ph pp) = Dialed s0"
    and h: "\<exists>h. rx s0 = h @ rx s1 \<and> granting_head h"
    and x: "tx s1 = tx s0 @ as_bytes (connect_request (dl_b64 dl) (extract_auth pu) (host_port host p))"
    by (auto simp: proxy_connector_new_def)
  from uri_host_port_Inr [OF a(2)] n have "uri_host u = Some host" "server_name net host = Inr n" by simp_all
  with pu a d x h z st t show ?thesis by blast
qed

definition demo_proxy_uri :: uri where
  "demo_proxy_uri = \<lparr>uri_scheme = Some ''http'', uri_authority = Some ''px:8080'', uri_host = Some ''px'',
     uri_port = Some 8080, uri_path = ''/'', uri_query = None\<rparr>"

definition demo_target_uri :: uri where
  "demo_target_uri = \<lparr>uri_scheme = Some ''https'', uri_authority = Some ''h'', uri_host = Some ''h'',
     uri_port = None, uri_path = ''/'', uri_query = None\<rparr>"

definition demo_dial :: "(unit, mem) dial_lib" where
  "demo_dial = \<lparr>dl_direct = (\<lambda>_ _ _. Inl ''unused''), dl_dial = (\<lambda>_ _. Dialed demo_proxy_state),
     dl_io = mem_io, dl_read_byte = mem_read_byte, dl_b64 = base64_encode\<rparr>"

definition demo_tls_net :: "(string, mem, client_plan, string \<times> mem) tls_net" where
  "demo_tls_net = \<lparr>server_name = Inr, tls_connect = (\<lambda>_ n s. Inr (n, s))\<rparr>"

definition demo_proxied :: "(unit, unit, unit) client_builder" where
  "demo_proxied = apply_ops [WithHttpProxy demo_proxy_uri, WithTls]"

lemma demo_proxied_connect:
  assumes "oc_http oc = ViaHttpProxy (proxy_connector_new demo_proxy_uri None)"
  shows "\<exists>s1. https_connect demo_tls_net demo_dial oc demo_target_uri = Inr (HttpsStream (''h'', s1))"
proof -
  let ?target = "host_port ''h'' 443"
  let ?req = "as_bytes (connect_request base64_encode None ?target)"
  have "length ?req \<le> 200" by code_simp
  then obtain s1 where w: "write_all mem_io ?req demo_proxy_state = (Inr (), s1)"
    by (simp add: mem_io_def mem_write_def demo_proxy_state_def Let_def)
  have rx: "mem_rx demo_proxy_state = demo_reply @ [22, 3, 1]" by (simp add: demo_proxy_state_def)
  from mem_bytes.connect_handshake_ready [OF w rx demo_granting] obtain s2 where
    "connect_handshake mem_io mem_read_byte base64_encode None ?target demo_proxy_state = (Inr (), s2)" by blast
  moreover have "extract_auth demo_proxy_uri = None" by (simp add: extract_auth_def demo_proxy_uri_def)
  ultimately have "proxy_call (\<lambda>_ _. Dialed demo_proxy_state) mem_io mem_read_byte base64_encode
      (proxy_connector_new demo_proxy_uri None) demo_target_uri = Inr s2"
    by (simp add: proxy_call_def proxy_connector_new_def uri_host_port_def demo_target_uri_def
        demo_proxy_uri_def open_proxy_def tunnel_def)
  then show ?thesis
    by (simp add: https_connect_def https_call_def assms demo_dial_def demo_tls_net_def demo_target_uri_def)
qed

lemma proxied_https_witness:
  "\<exists>oc s1 z. https_connect demo_tls_net demo_dial oc demo_target_uri = Inr (HttpsStream z) \<and>
     mem_tx s1 = as_bytes (connect_request base64_encode None (host_port ''h'' 443)) \<and> fst z = ''h'' \<and> snd z = s1"
proof -
  have p: "cb_proxy demo_proxied = Some (HttpConnect demo_proxy_uri)" "cb_connect_timeout demo_proxied = None"
    by (simp_all add: demo_proxied_def apply_ops_def apply_op_def client_builder_new_def)
  obtain t where t: "build_tls_connector_inner plan_lib demo_proxied = Inr t"
    by (simp add: demo_proxied_def apply_ops_def apply_op_def client_builder_new_def build_tls_connector_inner_def
        build_tls_connector_def plan_lib_def Let_def)
  define oc :: "(unit, client_plan) https_connector" where
    "oc = https_connector_new (ViaHttpProxy (proxy_connector_new demo_proxy_uri None)) t"
  define c :: "(unit, unit, unit, unit, client_plan) built_client" where
    "c = finish_client std_lib demo_proxied (MaybeTls oc) None"
  have built: "build_proxy_https std_lib plan_lib demo_proxied = Inr c"
    by (simp add: build_proxy_https_def http_proxy_uri_def p t c_def oc_def)
  have oc: "snd (bc_inner c) = MaybeTls oc" by (simp add: c_def finish_client_def)
  have "oc_http oc = ViaHttpProxy (proxy_connector_new demo_proxy_uri None)"
    by (simp add: oc_def https_connector_new_def)
  from demo_proxied_connect [OF this] obtain s1 where
    con: "https_connect demo_tls_net demo_dial oc demo_target_uri = Inr (HttpsStream (''h'', s1))" by blast
  have "byte_stream (dl_io demo_dial) mem_rx mem_tx (dl_read_byte demo_dial)"
    using mem_bytes.byte_stream_axioms by (simp add: demo_dial_def)
  from proxied_https [OF this built oc con] obtain pu host p' s0 s1' z n where
    h: "cb_proxy demo_proxied = Some (HttpConnect pu)" "uri_host_port demo_target_uri = Inr (host, p')"
      "dl_dial demo_dial None x = Dialed s0"
      "mem_tx s1' = mem_tx s0 @ as_bytes (connect_request base64_encode (extract_auth pu) (host_port host p'))"
      "tls_connect demo_tls_net (oc_tls oc) n s1' = Inr z" "HttpsStream (''h'', s1) = HttpsStream z" for x
    by (auto simp: demo_target_uri_def demo_dial_def)
  have "host = ''h''" "p' = 443" using h(2) by (auto simp: uri_host_port_def demo_target_uri_def)
  moreover have "pu = demo_proxy_uri" using h(1) p by simp
  then have "extract_auth pu = None" by (simp add: extract_auth_def demo_proxy_uri_def)
  moreover have "s0 = demo_proxy_state" using h(3) by (simp add: demo_dial_def)
  moreover have "s1' = s1" using h(5,6) by (auto simp: demo_tls_net_def)
  ultimately show ?thesis using con h(4) by (intro exI [of _ oc] exI [of _ s1] exI [of _ "(''h'', s1)"])
      (simp add: demo_proxy_state_def)
qed

end
