(* ===== verification/Facade.thy ===== *)
theory Facade
  imports ClientBuild Float64
begin

section \<open>Client middlewares and one-shot requests (oxihttp-client middleware.rs, oxihttp lib.rs)\<close>

text \<open>
  The two middlewares of the client crate as values of the interface in \<open>Client\<close>, and the functions of the
  facade crate that build a default client for one request. \<open>eprint\<close> appends a line to standard error in the
  world; \<open>show_status\<close> is the \<open>Display\<close> of a status code of the \<open>http\<close> crate.
\<close>

subsection \<open>Middlewares\<close>

text \<open>The format \<open>{:.1}\<close> of a double, which rounds its exact value.\<close>

definition show_tenths :: "rat \<Rightarrow> string" where
  "show_tenths x = (let t = nat (half_even (x * 10)) in show_nat (t div 10) @ ''.'' @ show_nat (t mod 10))"

definition right_arrow :: string where
  "right_arrow = of_bytes [0xE2, 0x86, 0x92]"

definition left_arrow :: string where
  "left_arrow = of_bytes [0xE2, 0x86, 0x90]"

definition logging_middleware :: "(string \<Rightarrow> 'w \<Rightarrow> 'w) \<Rightarrow> (nat \<Rightarrow> string) \<Rightarrow> string \<Rightarrow> 'w middleware" where
  "logging_middleware eprint show_status label =
     \<lparr>before_request = (\<lambda>m u hs. eprint (''['' @ label @ ''] '' @ right_arrow @ '' '' @ m @ '' '' @ uri_to_string u)),
      after_response = (\<lambda>st elapsed.
        eprint (''['' @ label @ ''] '' @ left_arrow @ '' '' @ show_status st @ '' ('' @
                show_tenths (round_f64 (as_secs_f64 round_f64 elapsed * 1000)) @ ''ms)''))\<rparr>"

definition timing_middleware :: "(nat \<Rightarrow> 'w \<Rightarrow> 'w) \<Rightarrow> 'w middleware" where
  "timing_middleware callback =
     \<lparr>before_request = (\<lambda>m u hs w. w), after_response = (\<lambda>st elapsed. callback elapsed)\<rparr>"

subsection \<open>One-shot requests\<close>

text \<open>
  \<open>Client::builder().build()?.method(url)?.send()\<close>: a client of its own for every call, without a cookie
  jar. \<open>net_of\<close> gives the network of the client's connector.
\<close>

definition one_shot ::
  "http_lib \<Rightarrow> (pool_call list \<times> ('r, 't) connector \<Rightarrow> ('w, 's, 'i) net) \<Rightarrow> bool
   \<Rightarrow> (('w, 's) client \<Rightarrow> ('w, 's) request_builder oxi_result) \<Rightarrow> 'w
   \<Rightarrow> ('w env \<times> 'i client_response oxi_result option) option" where
  "one_shot lib net_of feature request w =
     (case build_plain lib (client_builder_new :: ('w, 'r, unit) client_builder) of
        Inl e \<Rightarrow> Some (\<lparr>env_world = w, env_jar = None, env_poisoned = False\<rparr>, Some (Inl e))
      | Inr (c :: ('w, 's, 'r, unit, 't) built_client) \<Rightarrow>
          (let env = \<lparr>env_world = w, env_jar = bc_cookie_jar c, env_poisoned = False\<rparr>
           in case request (bc_client c) of
                Inl e \<Rightarrow> Some (env, Some (Inl e))
              | Inr q \<Rightarrow> send_request lib (net_of (bc_inner c)) feature q env))"

definition oxi_get ::
  "http_lib \<Rightarrow> (pool_call list \<times> ('r, 't) connector \<Rightarrow> ('w, 's, 'i) net) \<Rightarrow> bool \<Rightarrow> string \<Rightarrow> 'w
   \<Rightarrow> ('w env \<times> 'i client_response oxi_result option) option" where
  "oxi_get lib net_of feature url = one_shot lib net_of feature (\<lambda>c. client_get lib c url)"

definition oxi_post ::
  "http_lib \<Rightarrow> (pool_call list \<times> ('r, 't) connector \<Rightarrow> ('w, 's, 'i) net) \<Rightarrow> bool \<Rightarrow> string \<Rightarrow> bytes \<Rightarrow> 'w
   \<Rightarrow> ('w env \<times> 'i client_response oxi_result option) option" where
  "oxi_post lib net_of feature url body =
     one_shot lib net_of feature (\<lambda>c. map_sum id (q_set_body body) (client_post lib c url))"

definition oxi_put ::
  "http_lib \<Rightarrow> (pool_call list \<times> ('r, 't) connector \<Rightarrow> ('w, 's, 'i) net) \<Rightarrow> bool \<Rightarrow> string \<Rightarrow> bytes \<Rightarrow> 'w
   \<Rightarrow> ('w env \<times> 'i client_response oxi_result option) option" where
  "oxi_put lib net_of feature url body =
     one_shot lib net_of feature (\<lambda>c. map_sum id (q_set_body body) (client_put lib c url))"

definition oxi_delete ::
  "http_lib \<Rightarrow> (pool_call list \<times> ('r, 't) connector \<Rightarrow> ('w, 's, 'i) net) \<Rightarrow> bool \<Rightarrow> string \<Rightarrow> 'w
   \<Rightarrow> ('w env \<times> 'i client_response oxi_result option) option" where
  "oxi_delete lib net_of feature url = one_shot lib net_of feature (\<lambda>c. client_delete lib c url)"

text \<open>The read timeout of a client reaches no request.\<close>

lemma read_timeout_unused: "client_request lib (c\<lparr>cl_read_timeout := t\<rparr>) m url = client_request lib c m url"
  by (simp add: client_request_def split: sum.split)

text \<open>A one-shot request comes back: the default policy follows at most ten redirects and never retries.\<close>

lemma client_request_Inr:
  "client_request lib c m url = Inr q \<Longrightarrow> q_redirect q = cl_redirect c \<and> q_retry q = cl_retry c \<and> q_method q = m"
  by (auto simp: client_request_def split: sum.splits)

lemma one_shot_returns:
  fixes net_of :: "pool_call list \<times> ('r, 't) connector \<Rightarrow> ('w, 's, 'i) net"
  assumes "\<And>c q. request c = Inr q \<Longrightarrow> q_redirect q = cl_redirect c"
  shows "\<exists>r. one_shot lib net_of feature request w = Some r"
proof -
  let ?b = "client_builder_new :: ('w, 'r, unit) client_builder"
  let ?c = "finish_client lib ?b (Plain (Direct None (builder_tcp ?b))) None :: ('w, 's, 'r, unit, 't) built_client"
  have pol: "cl_redirect (bc_client ?c) = RedirectLimited 10"
    by (simp add: finish_client_def client_builder_new_def default_redirect_policy_def)
  show ?thesis
  proof (cases "request (bc_client ?c)")
    case (Inr q)
    with pol assms have "max_redirects (q_redirect q) = Some 10" by simp
    from send_request_returns [OF this] Inr show ?thesis
      by (simp add: one_shot_def build_plain_def)
  qed (simp add: one_shot_def build_plain_def)
qed

lemma oxi_get_returns: "\<exists>r. oxi_get lib net_of feature url w = Some r"
  unfolding oxi_get_def client_get_def by (rule one_shot_returns) (simp add: client_request_Inr)

lemma oxi_post_returns: "\<exists>r. oxi_post lib net_of feature url body w = Some r"
  unfolding oxi_post_def client_post_def
  by (rule one_shot_returns) (auto simp: map_sum_Inr client_request_Inr q_set_body_def)

end
