(* ===== verification/H3.thy ===== *)
theory H3
  imports StateResult
begin

section \<open>HTTP/3 wrappers (oxihttp-client h3.rs, oxihttp-server h3.rs)\<close>

text \<open>
  The two thin layers over the crate \<open>oxiquic_h3\<close>, which is a parameter: its client operations are the
  record \<open>h3_client_lib\<close> on a connection of type \<open>'conn\<close>, its server yields connections, a connection
  the results of \<open>accept\<close>. A spawned task runs on its own; \<open>h3_serve\<close> lists the tasks in the order in
  which they are spawned.
\<close>

subsection \<open>Client\<close>

record ('tls, 'conn, 'req, 'resp) h3_client_lib =
  raw_connect :: "string \<Rightarrow> 'tls \<Rightarrow> string \<Rightarrow> string + 'conn"
  raw_get :: "string \<Rightarrow> ('conn, string, 'resp) sresult"
  raw_post :: "string \<Rightarrow> bytes \<Rightarrow> ('conn, string, 'resp) sresult"
  raw_head :: "string \<Rightarrow> ('conn, string, 'resp) sresult"
  raw_put :: "string \<Rightarrow> bytes \<Rightarrow> ('conn, string, 'resp) sresult"
  raw_delete :: "string \<Rightarrow> ('conn, string, 'resp) sresult"
  raw_request :: "'req \<Rightarrow> bytes option \<Rightarrow> ('conn, string, 'resp) sresult"
  raw_close :: "'conn \<Rightarrow> string + unit"

record 'tls h3_connection_builder =
  hb_server_name :: string
  hb_tls_config :: "'tls option"

definition h3_builder_new :: "string \<Rightarrow> 'tls h3_connection_builder" where
  "h3_builder_new server_name = \<lparr>hb_server_name = server_name, hb_tls_config = None\<rparr>"

definition h3_with_tls_config :: "'tls \<Rightarrow> 'tls h3_connection_builder \<Rightarrow> 'tls h3_connection_builder" where
  "h3_with_tls_config cfg b = b\<lparr>hb_tls_config := Some cfg\<rparr>"

definition h3_connect ::
  "('tls, 'conn, 'req, 'resp) h3_client_lib \<Rightarrow> 'tls h3_connection_builder \<Rightarrow> string \<Rightarrow> 'conn oxi_result" where
  "h3_connect lib b addr =
     (case hb_tls_config b of
        None \<Rightarrow> Inl (H3Err ''H3Connection requires a TLS config'')
      | Some cfg \<Rightarrow> map_sum H3Err id (raw_connect lib (hb_server_name b) cfg addr))"

definition h3_get :: "('tls, 'conn, 'req, 'resp) h3_client_lib \<Rightarrow> string \<Rightarrow> ('conn, oxi_error, 'resp) sresult" where
  "h3_get lib u = map_err H3Err (raw_get lib u)"

definition h3_post :: "('tls, 'conn, 'req, 'resp) h3_client_lib \<Rightarrow> string \<Rightarrow> bytes \<Rightarrow> ('conn, oxi_error, 'resp) sresult" where
  "h3_post lib u body = map_err H3Err (raw_post lib u body)"

definition h3_head :: "('tls, 'conn, 'req, 'resp) h3_client_lib \<Rightarrow> string \<Rightarrow> ('conn, oxi_error, 'resp) sresult" where
  "h3_head lib u = map_err H3Err (raw_head lib u)"

definition h3_put :: "('tls, 'conn, 'req, 'resp) h3_client_lib \<Rightarrow> string \<Rightarrow> bytes \<Rightarrow> ('conn, oxi_error, 'resp) sresult" where
  "h3_put lib u body = map_err H3Err (raw_put lib u body)"

definition h3_delete :: "('tls, 'conn, 'req, 'resp) h3_client_lib \<Rightarrow> string \<Rightarrow> ('conn, oxi_error, 'resp) sresult" where
  "h3_delete lib u = map_err H3Err (raw_delete lib u)"

definition h3_request ::
  "('tls, 'conn, 'req, 'resp) h3_client_lib \<Rightarrow> 'req \<Rightarrow> bytes option \<Rightarrow> ('conn, oxi_error, 'resp) sresult" where
  "h3_request lib req body = map_err H3Err (raw_request lib req body)"

definition h3_close :: "('tls, 'conn, 'req, 'resp) h3_client_lib \<Rightarrow> 'conn \<Rightarrow> unit oxi_result" where
  "h3_close lib conn = map_sum H3Err id (raw_close lib conn)"

subsection \<open>Server\<close>

definition h3_bind :: "('addr \<Rightarrow> 'tls \<Rightarrow> string + 'ep) \<Rightarrow> 'addr \<Rightarrow> 'tls \<Rightarrow> 'ep oxi_result" where
  "h3_bind build addr tls = map_sum H3Err id (build addr tls)"

definition h3_local_addr :: "('ep \<Rightarrow> string + 'addr) \<Rightarrow> 'ep \<Rightarrow> 'addr oxi_result" where
  "h3_local_addr local_addr ep = map_sum H3Err id (local_addr ep)"

text \<open>The results of \<open>accept\<close>: the loop ends at the first error and at the end of the connection.\<close>

fun h3_accepted :: "(string + 'ctx option) list \<Rightarrow> 'ctx list" where
  "h3_accepted (Inr (Some ctx) # rest) = ctx # h3_accepted rest"
| "h3_accepted _ = []"

text \<open>The task of a request: what it answers, or nothing when the body cannot be read.\<close>

definition h3_task ::
  "('ctx \<Rightarrow> 'req) \<Rightarrow> ('ctx \<Rightarrow> string + bytes) \<Rightarrow> ('req \<Rightarrow> bytes \<Rightarrow> 'resp) \<Rightarrow> 'ctx \<Rightarrow> ('ctx \<times> 'resp) option" where
  "h3_task request body handler ctx =
     (case body ctx of Inl _ \<Rightarrow> None | Inr b \<Rightarrow> Some (ctx, handler (request ctx) b))"

definition handle_h3_connection ::
  "('ctx \<Rightarrow> 'req) \<Rightarrow> ('ctx \<Rightarrow> string + bytes) \<Rightarrow> ('req \<Rightarrow> bytes \<Rightarrow> 'resp) \<Rightarrow> (string + 'ctx option) list
   \<Rightarrow> ('ctx \<times> 'resp) option list" where
  "handle_h3_connection request body handler conn = map (h3_task request body handler) (h3_accepted conn)"

definition h3_serve ::
  "('ctx \<Rightarrow> 'req) \<Rightarrow> ('ctx \<Rightarrow> string + bytes) \<Rightarrow> ('req \<Rightarrow> bytes \<Rightarrow> 'resp) \<Rightarrow> (string + 'ctx option) list list
   \<Rightarrow> ('ctx \<times> 'resp) option list list" where
  "h3_serve request body handler incoming = map (handle_h3_connection request body handler) incoming"

subsection \<open>Requests and their answers\<close>

lemma h3_accepted_prefix: "h3_accepted (map (Inr \<circ> Some) ctxs @ rest) = ctxs @ h3_accepted rest"
  by (induction ctxs) auto

text \<open>
  Every request accepted before the connection ends or fails gets the answer of the handler, unless
  its body cannot be read; a failure of one request does not touch the others.
\<close>

lemma h3_connection_answers:
  assumes "tl_conn = [] \<or> hd tl_conn = Inr None \<or> (\<exists>e. hd tl_conn = Inl e)"
  shows "handle_h3_connection request body handler (map (Inr \<circ> Some) ctxs @ tl_conn) =
     map (\<lambda>ctx. case body ctx of Inl _ \<Rightarrow> None | Inr b \<Rightarrow> Some (ctx, handler (request ctx) b)) ctxs"
proof -
  have "h3_accepted tl_conn = []" using assms by (cases tl_conn rule: h3_accepted.cases) auto
  then show ?thesis by (simp add: handle_h3_connection_def h3_accepted_prefix h3_task_def)
qed

end
