(* ===== verification/Spec2Isabelle.thy ===== *)
theory Spec2Isabelle
  imports WebSocket StaticFiles Server Sse Respond Facade H3
begin

section \<open>OxiHTTP: a verification development\<close>

text \<open>
  OxiHTTP is an HTTP client and server stack in Rust, four crates under src/crates. oxihttp-core holds what
  both sides share: errors, bodies, headers, cookies, forms, multipart. oxihttp-client sends requests
  through the connection pool of hyper, over TCP, TLS or a proxy. oxihttp-server accepts connections,
  runs a middleware pipeline and tower layers, and dispatches to a router. oxihttp is the facade. This
  development models the code of the crates definition by definition and proves what the parts promise.
  Names follow the source where the library leaves them free; the prefixes \<open>cl_\<close>, \<open>cb_\<close>, \<open>q_\<close>, \<open>sb_\<close>,
  \<open>hm_\<close> and so on are those of record fields and of methods whose bare name is taken.

  \<^bold>\<open>How Rust is read.\<close> A struct is a record, an enum a datatype, \<open>u8\<close> to \<open>u64\<close> words where the code depends
  on their width and natural numbers with the bound written out elsewhere. A \<open>str\<close> is the list of its UTF-8
  bytes, one \<open>char\<close> each. A \<open>Result<T, OxiHttpError>\<close> is the sum \<open>oxi_error + 't\<close>, every early return and
  error text included; a method on \<open>&mut self\<close> is an \<open>sresult\<close> (\<open>StateResult\<close>), a function of the
  state that returns the result and the new state also when it fails. A panic is \<open>None\<close>. A future that is
  awaited is run to its end, \<open>Poll\<close> is a datatype where the code itself polls, and concurrent tasks are
  labelled steps of an inductive relation. Instants and durations are nanoseconds.

  \<^bold>\<open>Foundations.\<close>
  \<^item> \<open>Prelude\<close>: bytes and strings, splitting, joining, trimming, case folding, with the lemmas and the
    named theorem collections all parts use.
  \<^item> \<open>Numbers\<close>: decimal and hexadecimal printing and parsing with the bounds of the integer types.
    \<open>Utf8\<close>: validation, the error text and the lossy decoder of the standard library. \<open>Float64\<close>: the
    rounding of doubles (locale \<open>rounding\<close>, interpreted on the exact model of the format).
  \<^item> \<open>OxiError\<close> (core error.rs, version.rs): the errors with their texts and classes, the versions.
  \<^item> \<open>Body\<close> (core body.rs, response_ext.rs): bodies, their polling, collecting; the \<open>http\<close> response.

  \<^bold>\<open>Core.\<close>
  \<^item> \<open>Form\<close> (form.rs, uri_ext.rs; locale \<open>percent_encoder\<close>), \<open>Headers\<close> (header_ext.rs,
    request_builder.rs; locale \<open>header_values\<close>), \<open>ContentType\<close> (content_type.rs), \<open>TypedHeaders\<close>
    (header_types.rs), \<open>HttpDate\<close> (the date functions of static_files.rs).
  \<^item> \<open>Cookie\<close> (cookie.rs): the text of a cookie, matching, and the jar. A jar never holds two cookies of one
    name, domain and path (\<open>jar_invariant\<close>); it refines a map on these keys; selection, printing and parsing are specified.
  \<^item> \<open>Multipart\<close> (multipart.rs): headers, boundary search, the buffered and the streaming serialiser.
    The body splits back into its parts, and both serialisers write the same bytes.

  \<^bold>\<open>Client.\<close>
  \<^item> \<open>Gzip\<close>, \<open>ClientResponse\<close>: the gzip container, bounded decompression and the body readers of lib.rs.
    \<open>ClientPolicy\<close>: redirect.rs and retry.rs. \<open>Client\<close> (lib.rs): \<open>hop\<close> sends one request and decides on a
    redirect, \<open>send_loop\<close> follows redirects, \<open>attempts\<close> retries, \<open>send_request\<close> is \<open>send\<close>. What reaches the
    network is observed by a world that records every request it is handed (locale \<open>recording_net\<close>,
    interpreted on \<open>logged\<close>, any network with such a record); \<open>chain\<close> is any number of hops. The theorems
    say which hosts see credentials, when bodies are sent again, that sending ends, and that the loop
    of retries implements its specification.
  \<^item> \<open>Proxy\<close> (proxy.rs): the CONNECT and SOCKS5 handshakes, over the transport contract \<open>duplex\<close> of \<open>WsFrame\<close>,
    extended by the locale \<open>byte_stream\<close>. They consume exactly what the proxy says, and both
    requests read back, by readers of the proxy's side, as the target and the credentials.
  \<^item> \<open>ClientBuild\<close> (client_builder.rs, tls.rs, connector.rs, request_config.rs, resolver.rs and
    with_request_tls_config of lib.rs): a builder is a sequence of calls, a built client its settings, the recorded
    calls on the pool and the connector. A client verifies certificates unless told not to; an override is a
    rebuild; an https request through a proxy is TLS for the URI's host inside the tunnel.
  \<^item> \<open>Facade\<close> (client middleware.rs, oxihttp lib.rs): the two client middlewares and the one-shot requests,
    which compose \<open>ClientBuild\<close> and \<open>Client\<close>. \<open>H3\<close>: the wrappers for HTTP/3 of both sides.

  \<^bold>\<open>Server.\<close>
  \<^item> \<open>WsFrame\<close> (ws_frame.rs) and \<open>WebSocket\<close> (ws.rs): the frame codec byte for byte and the connection on top
    of it. Frames round-trip; \<open>recv\<close> reassembles messages, answers pings and closes, keeps the size limit, ends.
  \<^item> \<open>Router\<close> (router.rs): patterns, nested and virtual-host routers, state, body limits; where a path leads in
    nested routers is the relation \<open>walk\<close>. \<open>StaticFiles\<close>
    (static_files.rs): path resolution, validators, ranges, streaming.
  \<^item> \<open>Middleware\<close> (middleware.rs): CORS, body limit, rate limiter, pipeline (locale \<open>header_text\<close>).
    \<open>Server\<close> (lib.rs, tower_compat.rs, tower_middleware.rs, tls.rs): a request through pipeline, layers and
    router; the accept loop as a state machine of connection tasks and the permits they own; request ids (locale \<open>limit_slot\<close>).
  \<^item> \<open>Sse\<close> (sse.rs): events, the bounded channel and the merge task as labelled steps, against a
    parser of the event-stream format. \<open>Respond\<close> (response.rs, compression.rs, extractor.rs): response
    helpers, negotiation of a coding, compression.

  \<^bold>\<open>How the parts meet.\<close> The server composes \<open>Middleware\<close> around \<open>Router\<close>; the client composes \<open>Cookie\<close>,
  \<open>ClientPolicy\<close>, \<open>Multipart\<close> and \<open>ClientResponse\<close> in its hop; \<open>ClientBuild\<close> puts \<open>Proxy\<close> under TLS and
  \<open>Facade\<close> puts \<open>Client\<close> on top. Several properties are about such compositions: a client form read by the
  server's query parser, a compressed response read by the client, https through a proxy.

  \<^bold>\<open>Parameters.\<close> Code of other crates is an argument: the transport (\<open>'s io\<close>), hyper's exchange of a request,
  the clock and the timer (\<open>net\<close>), the file system, the header checks, URI parser and reason phrases of http (\<open>http_lib\<close>),
  deflate, base64 of the proxy, percent-encoding, JSON, rustls, oxitls, oxiquic_h3, DNS, tokio's channels.
  What a proof needs of them is a locale, with laws their documentation states; each is interpreted
  on a concrete model, and the witnesses run on these models.

  \<^bold>\<open>Bounds and fuel.\<close> \<open>show_base\<close> takes one more step than the value, which exceeds the number of its digits.
  \<open>attempts\<close> takes the number of attempts, which the source counts down as well. The redirect loop,
  \<open>recv_loop\<close> and the boundary search, which may run forever in the code, are \<open>partial_function (option)\<close>,
  with theorems that they return: under a policy with a limit, on a transport whose reads all end (a silent peer on
  an open connection keeps \<open>recv\<close> waiting, the code has no timeout there), and for bodies of less than 2^32/5 bytes. \<open>read_head\<close> ends by its own limit of 8193 bytes. \<open>usize\<close> has 64 bits.

  \<^bold>\<open>Not modelled.\<close> serde_json and the functions that are one call of it (body_json, get_json,
  post_json); Debug and Display for logs; inside a hop, concurrent use of one cookie jar is not
  interleaved; the scheduling of tokio beyond the steps its channels allow; handlers that panic or never end;
  an infinite or NaN refill rate of the limiter (the qualities of \<open>Accept\<close> may be infinite or NaN); the crate roots,
  re-exports and the migration guide, which hold no code; tests, benches, examples and fuzz targets.
\<close>

end
